(* ===== verification/Prelude.thy ===== *)
theory Prelude
  imports Complex_Main "HOL-Library.AList"
begin

text \<open>
  Shared vocabulary of the development: collections of rewrite rules, list helpers that
  stand for Python's slices and scans, and dictionaries with insertion order.

  A Python dictionary whose order or whose absence of a key matters is an association list;
  \<open>map_of\<close> reads it and \<open>AList.update\<close> writes it, in place for a key that is present and at
  the end for a new one, as CPython does. Floats are exact reals: rounding is not modelled.
\<close>

named_theorems repo_simps "what the table operations return"
named_theorems trace_simps "reads of the harness trace after a write"

subsection \<open>Slices\<close>

text \<open>\<open>xs[-n:]\<close> for a positive \<open>n\<close>: the last \<open>n\<close> elements, all of them when there are fewer.\<close>

definition last_n :: "nat \<Rightarrow> 'a list \<Rightarrow> 'a list" where
  "last_n n xs = drop (length xs - n) xs"

lemma length_last_n [simp]: "length (last_n n xs) = min n (length xs)"
  by (simp add: last_n_def min_def)

lemma set_last_n: "set (last_n n xs) \<subseteq> set xs"
  by (simp add: last_n_def set_drop_subset)

lemma last_n_all: "length xs \<le> n \<Longrightarrow> last_n n xs = xs"
  by (simp add: last_n_def)

lemma last_n_append: "length ys \<le> n \<Longrightarrow> last_n n (xs @ ys) = last_n (n - length ys) xs @ ys"
  by (simp add: last_n_def)

lemma last_n_last_n: "m \<le> n \<Longrightarrow> last_n m (last_n n xs) = last_n m xs"
  by (cases "length xs \<le> n") (simp_all add: last_n_def)

lemma last_n_absorb: "last_n n (last_n n xs @ ys) = last_n n (xs @ ys)"
proof (cases "length xs \<le> n")
  case False
  then have "last_n n xs @ ys = drop (length xs - n) (xs @ ys)" by (simp add: last_n_def)
  then have "last_n n (last_n n xs @ ys) = last_n n (drop (length xs - n) (xs @ ys))" by simp
  then show ?thesis using False by (simp add: last_n_def add.commute)
qed (simp add: last_n_all)

subsection \<open>Scans that keep the first occurrence\<close>

text \<open>\<open>if x not in seen: seen.append(x)\<close> over a list.\<close>

fun add_new :: "'a list \<Rightarrow> 'a list \<Rightarrow> 'a list" where
  "add_new seen [] = seen"
| "add_new seen (x # xs) = (if x \<in> set seen then add_new seen xs else add_new (seen @ [x]) xs)"

lemma set_add_new [simp]: "set (add_new seen xs) = set seen \<union> set xs"
  by (induction seen xs rule: add_new.induct) auto

lemma distinct_add_new: "distinct seen \<Longrightarrow> distinct (add_new seen xs)"
  by (induction seen xs rule: add_new.induct) auto

definition append_new :: "'a \<Rightarrow> 'a list \<Rightarrow> 'a list" where
  "append_new x xs = (if x \<in> set xs then xs else xs @ [x])"

lemma set_append_new [simp]: "set (append_new x xs) = insert x (set xs)"
  by (auto simp: append_new_def)

lemma distinct_append_new: "distinct xs \<Longrightarrow> distinct (append_new x xs)"
  by (simp add: append_new_def)

subsection \<open>Optional values\<close>

text \<open>\<open>d.get(k, default)\<close> and \<open>x or default\<close> for an optional value.\<close>

definition or_else :: "'a option \<Rightarrow> 'a \<Rightarrow> 'a" where
  "or_else x d = (case x of None \<Rightarrow> d | Some v \<Rightarrow> v)"

lemma or_else_simps [simp]: "or_else None d = d" "or_else (Some v) d = v"
  by (simp_all add: or_else_def)

subsection \<open>Dictionaries\<close>

lemma map_of_AList_delete: "map_of (AList.delete k m) k' = (if k' = k then None else map_of m k')"
  by (simp add: AList.delete_conv)

lemma map_of_AList_update: "map_of (AList.update k v m) k' = (if k' = k then Some v else map_of m k')"
  by (simp add: update_conv)

subsection \<open>Positions in lists\<close>

lemma hd_filter_find: "find P xs = Some x \<Longrightarrow> x \<in> set xs \<and> P x"
  by (induction xs) (auto split: if_splits)

lemma find_None_iff': "find P xs = None \<longleftrightarrow> (\<forall>x \<in> set xs. \<not> P x)"
  by (induction xs) auto

text \<open>\<open>enumerate(xs)\<close>.\<close>

lemma in_enum: "p \<in> set (zip [0 ..< length xs] xs) \<longleftrightarrow> fst p < length xs \<and> snd p = xs ! fst p"
  by (cases p) (force simp: set_zip intro: exI [of _ "fst p"])

subsection \<open>Sorting by a key, highest first\<close>

text \<open>
  \<open>sorted(xs, key=f, reverse=True)\<close>: descending in the key, and Python's \<open>reverse\<close> keeps equal
  elements in their original order.
\<close>

definition sort_desc :: "('a \<Rightarrow> real) \<Rightarrow> 'a list \<Rightarrow> 'a list" where
  "sort_desc f xs = sort_key (\<lambda>x. - f x) xs"

lemma set_sort_desc [simp]: "set (sort_desc f xs) = set xs"
  by (simp add: sort_desc_def)

lemma length_sort_desc [simp]: "length (sort_desc f xs) = length xs"
  by (simp add: sort_desc_def)

lemma distinct_sort_desc [simp]: "distinct (sort_desc f xs) = distinct xs"
  by (simp add: sort_desc_def)

lemma sorted_sort_desc: "sorted_wrt (\<lambda>x y. f y \<le> f x) (sort_desc f xs)"
proof -
  have "sorted (map (\<lambda>x. - f x) (sort_key (\<lambda>x. - f x) xs))" by simp
  then show ?thesis by (simp add: sort_desc_def sorted_map)
qed

lemma sort_desc_stable: "filter (\<lambda>y. f y = k) (sort_desc f xs) = filter (\<lambda>y. f y = k) xs"
proof -
  have "filter (\<lambda>y. - f y = - k) (sort_key (\<lambda>x. - f x) xs) = filter (\<lambda>y. - f y = - k) xs"
    by (rule sort_key_stable)
  then show ?thesis by (simp add: sort_desc_def)
qed

end
