(* ===== verification/PyRegex.thy ===== *)
theory PyRegex
  imports PyText
begin

text \<open>
  The part of Python's \<open>re\<close> that the program uses. In every pattern of the source a repetition
  ranges over one character class, so patterns are structural: classes, bounded and unbounded
  class repetitions, sequences, alternatives, optional groups, word boundaries and one-character
  negative look-around. \<open>ends r s i\<close> lists the ends of the matches of \<open>r\<close> that start at
  position \<open>i\<close>, in the order in which the backtracking matcher would try them, so its head is
  the match Python returns; \<open>rx_match\<close> is the declarative meaning of a pattern, and
  \<open>ends_iff\<close> says that the two agree.
\<close>

datatype rx =
    Cls "nat \<Rightarrow> bool"
  | Rep "nat \<Rightarrow> bool" nat "nat option"
  | Seq rx rx
  | Alt rx rx
  | Opt rx
  | WordB
  | NotBehind "nat \<Rightarrow> bool"
  | NotAhead "nat \<Rightarrow> bool"

definition word_at :: "ustr \<Rightarrow> nat \<Rightarrow> bool" where
  "word_at s i \<longleftrightarrow> i < length s \<and> is_word (s ! i)"

text \<open>\<open>\b\<close>: exactly one of the two neighbours of the position is a word character.\<close>

definition boundary :: "ustr \<Rightarrow> nat \<Rightarrow> bool" where
  "boundary s i \<longleftrightarrow> (0 < i \<and> word_at s (i - 1)) \<noteq> word_at s i"

definition run_len :: "(nat \<Rightarrow> bool) \<Rightarrow> ustr \<Rightarrow> nat \<Rightarrow> nat" where
  "run_len p s i = length (takeWhile p (drop i s))"

definition cap :: "nat option \<Rightarrow> nat \<Rightarrow> nat" where
  "cap hi n = (case hi of None \<Rightarrow> n | Some h \<Rightarrow> min h n)"

primrec ends :: "rx \<Rightarrow> ustr \<Rightarrow> nat \<Rightarrow> nat list" where
  "ends (Cls p) s i = (if i < length s \<and> p (s ! i) then [Suc i] else [])"
| "ends (Rep p lo hi) s i = rev (map (\<lambda>k. i + k) [lo ..< Suc (cap hi (run_len p s i))])"
| "ends (Seq a b) s i = concat (map (ends b s) (ends a s i))"
| "ends (Alt a b) s i = ends a s i @ ends b s i"
| "ends (Opt a) s i = ends a s i @ [i]"
| "ends WordB s i = (if boundary s i then [i] else [])"
| "ends (NotBehind p) s i = (if 0 < i \<and> i - 1 < length s \<and> p (s ! (i - 1)) then [] else [i])"
| "ends (NotAhead p) s i = (if i < length s \<and> p (s ! i) then [] else [i])"

inductive rx_match :: "ustr \<Rightarrow> rx \<Rightarrow> nat \<Rightarrow> nat \<Rightarrow> bool" for s where
  cls: "i < length s \<Longrightarrow> p (s ! i) \<Longrightarrow> rx_match s (Cls p) i (Suc i)"
| rep: "lo \<le> k \<Longrightarrow> (\<And>h. hi = Some h \<Longrightarrow> k \<le> h) \<Longrightarrow> i + k \<le> length s \<Longrightarrow>
    (\<And>m. m < k \<Longrightarrow> p (s ! (i + m))) \<Longrightarrow> rx_match s (Rep p lo hi) i (i + k)"
| seqn: "rx_match s a i j \<Longrightarrow> rx_match s b j k \<Longrightarrow> rx_match s (Seq a b) i k"
| alt_l: "rx_match s a i j \<Longrightarrow> rx_match s (Alt a b) i j"
| alt_r: "rx_match s b i j \<Longrightarrow> rx_match s (Alt a b) i j"
| opt_one: "rx_match s a i j \<Longrightarrow> rx_match s (Opt a) i j"
| opt_none: "i \<le> length s \<Longrightarrow> rx_match s (Opt a) i i"
| wordb: "boundary s i \<Longrightarrow> rx_match s WordB i i"
| not_behind: "i \<le> length s \<Longrightarrow> \<not> (0 < i \<and> p (s ! (i - 1))) \<Longrightarrow> rx_match s (NotBehind p) i i"
| not_ahead: "i \<le> length s \<Longrightarrow> \<not> (i < length s \<and> p (s ! i)) \<Longrightarrow> rx_match s (NotAhead p) i i"

inductive_cases rx_clsE: "rx_match s (Cls p) i j"
inductive_cases rx_repE: "rx_match s (Rep p lo hi) i j"
inductive_cases rx_seqE: "rx_match s (Seq a b) i j"
inductive_cases rx_altE: "rx_match s (Alt a b) i j"
inductive_cases rx_optE: "rx_match s (Opt a) i j"
inductive_cases rx_wordbE: "rx_match s WordB i j"
inductive_cases rx_not_behindE: "rx_match s (NotBehind p) i j"
inductive_cases rx_not_aheadE: "rx_match s (NotAhead p) i j"

lemmas rx_elims = rx_clsE rx_seqE rx_altE rx_optE rx_wordbE rx_not_behindE rx_not_aheadE

subsection \<open>The matcher computes the declarative meaning\<close>

lemma run_len_ge_iff:
  assumes "i \<le> length s"
  shows "k \<le> run_len p s i \<longleftrightarrow> i + k \<le> length s \<and> (\<forall>m < k. p (s ! (i + m)))"
proof (induction k)
  case 0
  then show ?case using assms by simp
next
  case (Suc k)
  let ?w = "takeWhile p (drop i s)"
  show ?case
  proof
    assume le: "Suc k \<le> run_len p s i"
    then have k: "k < length ?w" by (simp add: run_len_def)
    then have "p (drop i s ! k)" by (metis nth_mem set_takeWhileD takeWhile_nth)
    moreover have "k < length (drop i s)"
      using k length_takeWhile_le [of p "drop i s"] by linarith
    ultimately show "i + Suc k \<le> length s \<and> (\<forall>m < Suc k. p (s ! (i + m)))"
      using Suc le by (auto simp: less_Suc_eq)
  next
    assume r: "i + Suc k \<le> length s \<and> (\<forall>m < Suc k. p (s ! (i + m)))"
    then have "k \<le> run_len p s i" using Suc by simp
    moreover have "run_len p s i \<noteq> k"
    proof
      assume eq: "run_len p s i = k"
      then have "length ?w < length (drop i s)" using r assms
        by (simp add: run_len_def) linarith
      then have "\<not> p (drop i s ! length ?w)" by (rule nth_length_takeWhile)
      with eq r show False by (simp add: run_len_def)
    qed
    ultimately show "Suc k \<le> run_len p s i" by simp
  qed
qed

lemma cap_ge_iff: "k \<le> cap hi n \<longleftrightarrow> k \<le> n \<and> (\<forall>h. hi = Some h \<longrightarrow> k \<le> h)"
  by (cases hi) (auto simp: cap_def)

lemma ends_rep_iff:
  assumes "i \<le> length s"
  shows "j \<in> set (ends (Rep p lo hi) s i) \<longleftrightarrow> rx_match s (Rep p lo hi) i j"
proof
  assume "j \<in> set (ends (Rep p lo hi) s i)"
  then obtain k where k: "j = i + k" "lo \<le> k" "k \<le> cap hi (run_len p s i)" by auto
  then show "rx_match s (Rep p lo hi) i j"
    using run_len_ge_iff [OF assms] by (auto simp: cap_ge_iff intro: rx_match.rep)
next
  assume "rx_match s (Rep p lo hi) i j"
  then obtain k where "j = i + k" "lo \<le> k" "k \<le> cap hi (run_len p s i)"
    using run_len_ge_iff [OF assms] by (auto simp: cap_ge_iff elim: rx_repE)
  then show "j \<in> set (ends (Rep p lo hi) s i)" by auto
qed

lemma rx_match_bounds: "rx_match s r i j \<Longrightarrow> i \<le> j \<and> j \<le> length s"
  by (induction rule: rx_match.induct)
    (auto simp: boundary_def word_at_def split: if_splits)

lemma ends_iff: "i \<le> length s \<Longrightarrow> j \<in> set (ends r s i) \<longleftrightarrow> rx_match s r i j"
proof (induction r arbitrary: i j)
  case (Rep p lo hi)
  then show ?case by (rule ends_rep_iff)
next
  case (Seq a b)
  show ?case
  proof
    assume "j \<in> set (ends (Seq a b) s i)"
    then obtain m where m: "m \<in> set (ends a s i)" "j \<in> set (ends b s m)" by auto
    have a: "rx_match s a i m" using Seq.IH(1) Seq.prems m(1) by blast
    then have "m \<le> length s" by (simp add: rx_match_bounds)
    with Seq.IH(2) m(2) a show "rx_match s (Seq a b) i j" by (blast intro: rx_match.seqn)
  next
    assume "rx_match s (Seq a b) i j"
    then obtain m where m: "rx_match s a i m" "rx_match s b m j" by (auto elim: rx_seqE)
    then have "m \<le> length s" by (simp add: rx_match_bounds)
    with Seq.IH Seq.prems m have "m \<in> set (ends a s i)" "j \<in> set (ends b s m)" by simp_all
    then show "j \<in> set (ends (Seq a b) s i)" by auto
  qed
qed (auto intro: rx_match.intros elim: rx_elims split: if_splits)

subsection \<open>\<open>search\<close>, \<open>finditer\<close>, \<open>sub\<close>\<close>

definition rx_search :: "rx \<Rightarrow> ustr \<Rightarrow> (nat \<times> nat) option" where
  "rx_search r s = map_option (\<lambda>i. (i, hd (ends r s i)))
     (find (\<lambda>i. ends r s i \<noteq> []) [0 ..< Suc (length s)])"

definition rx_found :: "rx \<Rightarrow> ustr \<Rightarrow> bool" where
  "rx_found r s \<longleftrightarrow> rx_search r s \<noteq> None"

definition group0 :: "ustr \<Rightarrow> nat \<times> nat \<Rightarrow> ustr" where
  "group0 s m = take (snd m - fst m) (drop (fst m) s)"

text \<open>
  Successive matches: each search resumes where the last match ended. No pattern of the source
  matches the empty text (\<open>min_len\<close> below), so the treatment of empty matches plays no part.
\<close>

function rx_iter :: "rx \<Rightarrow> ustr \<Rightarrow> nat \<Rightarrow> (nat \<times> nat) list" where
  "rx_iter r s i = (if length s < i then []
     else case ends r s i of [] \<Rightarrow> rx_iter r s (Suc i)
       | j # _ \<Rightarrow> (i, j) # rx_iter r s (max j (Suc i)))"
  by pat_completeness auto
termination
  by (relation "measure (\<lambda>(r, s, i). Suc (length s) - i)") auto

declare rx_iter.simps [simp del]

definition rx_finditer :: "rx \<Rightarrow> ustr \<Rightarrow> (nat \<times> nat) list" where
  "rx_finditer r s = rx_iter r s 0"

fun splice :: "ustr \<Rightarrow> nat \<Rightarrow> (nat \<times> nat) list \<Rightarrow> (ustr \<Rightarrow> ustr) \<Rightarrow> ustr" where
  "splice s i [] f = drop i s"
| "splice s i (m # ms) f =
     take (fst m - i) (drop i s) @ f (group0 s m) @ splice s (snd m) ms f"

definition rx_sub :: "rx \<Rightarrow> (ustr \<Rightarrow> ustr) \<Rightarrow> ustr \<Rightarrow> ustr" where
  "rx_sub r f s = splice s 0 (rx_finditer r s) f"

lemma rx_found_iff: "rx_found r s \<longleftrightarrow> (\<exists>i j. i \<le> length s \<and> rx_match s r i j)"
proof -
  have "rx_found r s \<longleftrightarrow> (\<exists>i \<le> length s. ends r s i \<noteq> [])"
    by (auto simp: rx_found_def rx_search_def find_None_iff' less_Suc_eq_le
        simp del: upt_Suc)
  also have "\<dots> \<longleftrightarrow> (\<exists>i \<le> length s. \<exists>j. j \<in> set (ends r s i))"
    by (metis list.set_intros(1) neq_Nil_conv empty_iff set_empty)
  also have "\<dots> \<longleftrightarrow> (\<exists>i j. i \<le> length s \<and> rx_match s r i j)"
    using ends_iff by blast
  finally show ?thesis .
qed

lemma rx_search_Some:
  assumes "rx_search r s = Some (i, j)"
  shows "rx_match s r i j \<and> i \<le> length s"
proof -
  from assms obtain k where k: "find (\<lambda>i. ends r s i \<noteq> []) [0 ..< Suc (length s)] = Some k"
    "i = k" "j = hd (ends r s k)"
    by (auto simp: rx_search_def)
  then have "k \<in> set [0 ..< Suc (length s)]" "ends r s k \<noteq> []"
    by (auto dest: hd_filter_find simp del: upt_Suc)
  then have "k \<le> length s" "j \<in> set (ends r s k)" using k by (auto simp: less_Suc_eq_le)
  with k(2) show ?thesis by (simp add: ends_iff)
qed

primrec min_len :: "rx \<Rightarrow> nat" where
  "min_len (Cls p) = 1"
| "min_len (Rep p lo hi) = lo"
| "min_len (Seq a b) = min_len a + min_len b"
| "min_len (Alt a b) = min (min_len a) (min_len b)"
| "min_len (Opt a) = 0"
| "min_len WordB = 0"
| "min_len (NotBehind p) = 0"
| "min_len (NotAhead p) = 0"

lemma rx_match_min_len: "rx_match s r i j \<Longrightarrow> i + min_len r \<le> j"
  by (induction rule: rx_match.induct) auto

lemma rx_found_min_len: "rx_found r s \<Longrightarrow> min_len r \<le> length s"
proof -
  assume "rx_found r s"
  then obtain i j where "rx_match s r i j" by (auto simp: rx_found_iff)
  then have "i + min_len r \<le> j" "j \<le> length s"
    by (simp_all add: rx_match_min_len rx_match_bounds)
  then show ?thesis by linarith
qed

text \<open>A quick necessary condition: every mandatory character class occurs somewhere in the text.\<close>

primrec may_match :: "rx \<Rightarrow> ustr \<Rightarrow> bool" where
  "may_match (Cls p) s \<longleftrightarrow> list_ex p s"
| "may_match (Rep p lo hi) s \<longleftrightarrow> lo = 0 \<or> list_ex p s"
| "may_match (Seq a b) s \<longleftrightarrow> may_match a s \<and> may_match b s"
| "may_match (Alt a b) s \<longleftrightarrow> may_match a s \<or> may_match b s"
| "may_match (Opt a) s \<longleftrightarrow> True"
| "may_match WordB s \<longleftrightarrow> True"
| "may_match (NotBehind p) s \<longleftrightarrow> True"
| "may_match (NotAhead p) s \<longleftrightarrow> True"

lemma rx_match_may: "rx_match s r i j \<Longrightarrow> may_match r s"
proof (induction rule: rx_match.induct)
  case (rep lo k hi i p)
  show ?case
  proof (cases k)
    case 0
    then show ?thesis using rep(1) by simp
  next
    case (Suc n)
    then have "i < length s" "p (s ! i)" using rep(3) rep(4) [of 0] by simp_all
    then show ?thesis by (auto simp: list_ex_iff)
  qed
qed (auto simp: list_ex_iff)

lemma rx_found_may: "rx_found r s \<Longrightarrow> may_match r s"
  by (auto simp: rx_found_iff dest: rx_match_may)

lemma rx_iter_match: "m \<in> set (rx_iter r s i) \<Longrightarrow> rx_match s r (fst m) (snd m) \<and> i \<le> fst m"
proof (induction r s i rule: rx_iter.induct)
  case (1 r s i)
  show ?case
  proof (cases "length s < i \<or> ends r s i = []")
    case True
    with 1 show ?thesis by (cases "length s < i") (auto simp: rx_iter.simps [of r s i])
  next
    case False
    then obtain j js where e: "ends r s i = j # js" "i \<le> length s"
      by (metis leI neq_Nil_conv)
    then have "rx_match s r i j" by (metis ends_iff list.set_intros(1))
    with 1 e show ?thesis by (fastforce simp: rx_iter.simps [of r s i])
  qed
qed

lemma rx_finditer_match: "m \<in> set (rx_finditer r s) \<Longrightarrow> rx_match s r (fst m) (snd m)"
  by (auto simp: rx_finditer_def dest: rx_iter_match)

text \<open>When no match can start inside another, \<open>finditer\<close> reports every match.\<close>

lemma rx_iter_complete:
  assumes "\<And>i j i'. rx_match s r i j \<Longrightarrow> i < i' \<Longrightarrow> i' < j \<Longrightarrow> ends r s i' = []"
    and "ends r s k \<noteq> []"
  shows "i \<le> k \<Longrightarrow> k \<le> length s \<Longrightarrow> \<exists>j. (k, j) \<in> set (rx_iter r s i) \<and> rx_match s r k j"
  using assms
proof (induction r s i rule: rx_iter.induct)
  case (1 r s i)
  show ?case
  proof (cases "ends r s i")
    case Nil
    with 1 have "i \<noteq> k" by auto
    with 1 Nil show ?thesis by (simp add: rx_iter.simps [of r s i])
  next
    case (Cons j js)
    then have m: "rx_match s r i j" using 1(3,4) by (metis ends_iff le_trans list.set_intros(1))
    show ?thesis
    proof (cases "i = k")
      case True
      then have "(k, j) \<in> set (rx_iter r s i)" using Cons 1(4) by (simp add: rx_iter.simps [of r s k])
      then show ?thesis using m True by auto
    next
      case False
      then have "max j (Suc i) \<le> k" using m 1(3,5,6) by (metis Suc_leI le_neq_implies_less max.bounded_iff not_less)
      then have "\<exists>l. (k, l) \<in> set (rx_iter r s (max j (Suc i))) \<and> rx_match s r k l"
        using 1(2) [of j js] Cons 1(3-) by auto
      then show ?thesis using Cons 1(3,4) by (auto simp: rx_iter.simps [of r s i])
    qed
  qed
qed

text \<open>A text without matches is unchanged by \<open>sub\<close>.\<close>

lemma rx_iter_none:
  "(\<And>k. i \<le> k \<Longrightarrow> k \<le> length s \<Longrightarrow> ends r s k = []) \<Longrightarrow> rx_iter r s i = []"
proof (induction r s i rule: rx_iter.induct)
  case (1 r s i)
  show ?case
  proof (cases "length s < i")
    case True
    then show ?thesis by (simp add: rx_iter.simps [of r s i])
  next
    case False
    then have e: "ends r s i = []" using 1(3) by simp
    have "rx_iter r s (Suc i) = []" using "1.IH"(1) [OF False e] 1(3) by simp
    then show ?thesis using False e by (simp add: rx_iter.simps [of r s i])
  qed
qed

lemma rx_sub_none: "\<not> rx_found r s \<Longrightarrow> rx_sub r f s = s"
proof -
  assume "\<not> rx_found r s"
  then have "ends r s k = []" if "k \<le> length s" for k
    using that ends_iff [OF that] by (metis list.set_intros(1) neq_Nil_conv rx_found_iff)
  then show ?thesis by (simp add: rx_sub_def rx_finditer_def rx_iter_none)
qed

subsection \<open>Building patterns\<close>

definition lit :: "nat \<Rightarrow> rx" where
  "lit c = Cls (\<lambda>x. x = c)"

text \<open>
  A literal under \<open>re.IGNORECASE\<close>. Four letters outside ASCII fold to an ASCII letter: dotted
  capital and dotless small i, the long s and the Kelvin sign.
\<close>

definition ci_char :: "nat \<Rightarrow> nat \<Rightarrow> bool" where
  "ci_char c x \<longleftrightarrow> x = c \<or> (97 \<le> c \<and> c \<le> 122 \<and> x + 32 = c) \<or>
     (c = 105 \<and> (x = 304 \<or> x = 305)) \<or> (c = 115 \<and> x = 383) \<or> (c = 107 \<and> x = 8490)"

definition seqs :: "rx list \<Rightarrow> rx" where
  "seqs rs = foldr Seq (butlast rs) (last rs)"

definition alts :: "rx list \<Rightarrow> rx" where
  "alts rs = foldr Alt (butlast rs) (last rs)"

definition cis :: "string \<Rightarrow> rx" where
  "cis w = seqs (map (\<lambda>c. Cls (ci_char c)) (asc w))"

definition lits :: "ustr \<Rightarrow> rx" where
  "lits w = seqs (map lit w)"

definition plus :: "(nat \<Rightarrow> bool) \<Rightarrow> rx" where
  "plus p = Rep p 1 None"

definition star :: "(nat \<Rightarrow> bool) \<Rightarrow> rx" where
  "star p = Rep p 0 None"

definition not_nl :: "nat \<Rightarrow> bool" where
  "not_nl c \<longleftrightarrow> c \<noteq> 10"

lemma min_len_seqs: "rs \<noteq> [] \<Longrightarrow> min_len (seqs rs) = sum_list (map min_len rs)"
proof (induction rs rule: rev_induct)
  case (snoc r rs)
  have "min_len (foldr Seq rs r) = sum_list (map min_len rs) + min_len r"
    by (induction rs) simp_all
  then show ?case by (simp add: seqs_def)
qed simp

lemma min_len_cis: "w \<noteq> '''' \<Longrightarrow> min_len (cis w) = length w"
  by (simp add: cis_def min_len_seqs asc_def comp_def sum_list_triv)

lemma min_len_lits: "w \<noteq> [] \<Longrightarrow> min_len (lits w) = length w"
  by (simp add: lits_def lit_def min_len_seqs comp_def sum_list_triv)

lemma min_len_more [simp]:
  "min_len (plus p) = 1" "min_len (star p) = 0" "min_len (lit c) = 1"
  "min_len (alts [r]) = min_len r"
  "min_len (alts (a # b # rs)) = min (min_len a) (min_len (alts (b # rs)))"
  by (simp_all add: plus_def star_def lit_def alts_def)

lemmas rx_build = lit_def seqs_def alts_def cis_def lits_def plus_def star_def

end
