(* ===== verification/AgentState.thy ===== *)
theory AgentState
  imports PyRegex
begin

text \<open>
  The data an agent turn carries: JSON values, identifiers, the intent of
  \<open>schemas/intent.py\<close>, the harness trace, the sources of an answer and the
  \<open>AgentState\<close> dataclass of \<open>agent/state.py\<close>.

  An identifier held as a string is represented by what \<open>uuid.UUID\<close> makes of it: \<open>Hex u\<close> for a
  string that parses (with \<open>str(u)\<close> its canonical form), \<open>Raw s\<close> for one that raises
  \<open>ValueError\<close>. The trace dictionary is a record whose fields are options, \<open>None\<close> for an absent
  key or a key that holds \<open>None\<close>; every reader uses \<open>dict.get\<close>, which cannot tell the two apart.
\<close>

subsection \<open>JSON values and identifiers\<close>

datatype json = JNull | JBool bool | JInt int | JReal real | JStr ustr
  | JList "json list" | JDict "(string \<times> json) list"

type_synonym uuid = nat

datatype idstr = Hex uuid | Raw string

fun parse_uuid :: "idstr \<Rightarrow> uuid option" where
  "parse_uuid (Hex u) = Some u"
| "parse_uuid (Raw s) = None"

text \<open>Truth value of an identifier string: only the empty string is false.\<close>

definition id_given :: "idstr \<Rightarrow> bool" where
  "id_given i \<longleftrightarrow> i \<noteq> Raw ''''"

lemma id_given_Hex [simp]: "id_given (Hex u)"
  by (simp add: id_given_def)

subsection \<open>Intent, sources, trace\<close>

record intent_result =
  label :: string
  confidence :: real
  needs_clarification :: bool

record source =
  s_index :: nat
  s_doc_id :: "ustr option"
  s_chunk_index :: "int option"
  s_title :: ustr
  s_source :: ustr
  s_chunk :: ustr
  s_score :: real

record trace =
  t_run_id :: "string option"
  t_policy_version :: "string option"
  t_question_chars :: "nat option"
  t_history_messages :: "nat option"
  t_flags :: "string list option"
  t_action :: "string option"
  t_reason :: "string option"
  t_route :: "string option"
  t_candidate_route :: "string option"
  t_intent :: "string option"
  t_confidence :: "real option"
  t_response_chars :: "nat option"
  t_retrieval_confidence :: "real option"
  t_retrieval_channel :: "string option"

definition empty_trace :: trace where
  "empty_trace = \<lparr>t_run_id = None, t_policy_version = None, t_question_chars = None,
     t_history_messages = None, t_flags = None, t_action = None, t_reason = None,
     t_route = None, t_candidate_route = None, t_intent = None, t_confidence = None,
     t_response_chars = None, t_retrieval_confidence = None, t_retrieval_channel = None\<rparr>"

text \<open>\<open>trace.get("flags", [])\<close>.\<close>

definition flags_of :: "trace \<Rightarrow> string list" where
  "flags_of t = or_else (t_flags t) []"

lemma flags_of_update [trace_simps]: "flags_of (t\<lparr>t_flags := Some fs\<rparr>) = fs"
  by (simp add: flags_of_def)

subsection \<open>Side results of a turn\<close>

record ticket_data =
  td_ticket_id :: uuid
  td_status :: string
  td_type :: string
  td_priority :: string

record tool_result =
  tr_display :: ustr
  tr_tool :: string
  tr_raw :: json
  tr_needs_slot :: "string option"

text \<open>
  The pending-tool record kept in \<open>conversations.metadata\<close>. A record without any field is the
  empty dictionary, which Python takes for false.
\<close>

record pending =
  p_tool :: "string option"
  p_slot :: "string option"
  p_intent :: "string option"
  p_turns :: "int option"

definition pending_given :: "pending option \<Rightarrow> bool" where
  "pending_given p = (case p of None \<Rightarrow> False
     | Some r \<Rightarrow> p_tool r \<noteq> None \<or> p_slot r \<noteq> None \<or> p_intent r \<noteq> None \<or> p_turns r \<noteq> None)"

subsection \<open>AgentState\<close>

type_synonym history = "(ustr \<times> ustr) list"

record agent_state =
  question :: ustr
  conversation_history :: history
  user_id :: idstr
  conversation_id :: idstr
  intent :: "intent_result option"
  response_tokens :: "ustr list"
  sources :: "source list"
  ticket_id :: "uuid option"
  ticket_data :: "ticket_data option"
  tool_result :: "tool_result option"
  pending_tool :: "pending option"
  st_error :: "ustr option"
  should_handoff :: bool
  st_needs_clarification :: bool
  route :: "string option"
  harness_trace :: trace

definition new_state :: "ustr \<Rightarrow> history \<Rightarrow> idstr \<Rightarrow> idstr \<Rightarrow> trace \<Rightarrow> agent_state" where
  "new_state q h u c t = \<lparr>question = q, conversation_history = h, user_id = u,
     conversation_id = c, intent = None, response_tokens = [], sources = [], ticket_id = None,
     ticket_data = None, tool_result = None, pending_tool = None, st_error = None,
     should_handoff = False, st_needs_clarification = False, route = None,
     harness_trace = t\<rparr>"

end
