(* ===== verification/Harness.thy ===== *)
theory Harness
  imports AgentState
begin

text \<open>
  \<open>agent/harness.py\<close>: the deterministic rules around the agent. The policy dataclass is a
  record and \<open>default_policy\<close> its defaults; \<open>prepare\<close>, \<open>choose_route\<close>, \<open>finalize_state\<close> and
  \<open>wrap_stream\<close> are the methods of \<open>CognitiveHarness\<close>. A token stream is the list of the tokens
  it yields. Chinese literals are written as code points. The random run id is an argument.

  Lemmas: what the sanitised history and the prepared state satisfy, the routes that can be
  chosen, and the exact text a bounded stream or token list yields.
\<close>

subsection \<open>The policy\<close>

record policy =
  version :: string
  max_question_chars :: nat
  max_history_messages :: nat
  max_history_content_chars :: nat
  max_response_chars :: nat
  low_confidence_threshold :: real
  fallback_route :: string
  allowed_routes :: "string list"
  allowed_history_roles :: "ustr list"
  prompt_control_patterns :: "rx list"
  empty_input_response :: ustr
  too_long_response :: ustr
  prompt_control_response :: ustr
  fallback_response :: ustr
  response_truncated_notice :: ustr

definition system_or_developer :: rx where
  "system_or_developer = Alt (cis ''system'') (cis ''developer'')"

definition default_prompt_control :: "rx list" where
  "default_prompt_control =
     [seqs [cis ''ignore'', plus is_space, Opt (Seq (cis ''all'') (plus is_space)),
        cis ''previous'', plus is_space, cis ''instructions''],
      seqs [cis ''reveal'', plus is_space, Opt (Seq (cis ''your'') (plus is_space)),
        system_or_developer, plus is_space, cis ''prompt''],
      seqs [cis ''show'', plus is_space, Opt (Seq (cis ''me'') (plus is_space)),
        Opt (Seq (cis ''your'') (plus is_space)), system_or_developer, plus is_space,
        cis ''prompt''],
      seqs [lits [24573, 30053], alts [lits [20043, 21069], lits [20197, 19978], lits [25152, 26377]],
        star not_nl, alts [lits [25351, 20196], lits [35268, 21017]]],
      seqs [alts [lits [27844, 38706], lits [26174, 31034], lits [36755, 20986]], star not_nl,
        alts [lits [31995, 32479, 25552, 31034], lits [31995, 32479, 25552, 31034, 35789],
          lits [24320, 21457, 32773, 28040, 24687]]]]"

definition default_policy :: policy where
  "default_policy = \<lparr>version = ''askflow-cognitive-harness-v1'', max_question_chars = 2000,
     max_history_messages = 12, max_history_content_chars = 1200, max_response_chars = 8000,
     low_confidence_threshold = 1 / 2, fallback_route = ''rag'',
     allowed_routes = [''rag'', ''ticket'', ''handoff'', ''clarify'', ''tool''],
     allowed_history_roles = [asc ''user'', asc ''assistant''],
     prompt_control_patterns = default_prompt_control,
     empty_input_response =
    [35831, 20808, 25551, 36848, 24744, 30340, 38382, 39064, 65292, 25105, 20250, 24110, 24744, 26597, 35810, 12289,
     25253, 20462, 25110, 36716, 25509, 20154, 24037, 23458, 26381, 12290],
     too_long_response =
    [24744, 30340, 38382, 39064, 20869, 23481, 36807, 38271, 65292, 35831, 25286, 25104, 26356, 30701, 30340, 38382,
     39064, 21518, 20877, 21457, 36865, 12290],
     prompt_control_response =
    [25105, 19981, 33021, 22788, 29702, 32469, 36807, 31995, 32479, 32422, 26463, 25110, 33719, 21462, 20869, 37096,
     25552, 31034, 30340, 35831, 27714, 12290, 35831, 30452, 25509, 25551, 36848, 38656, 35201, 26597, 35810, 12289,
     25253, 20462, 25110, 36716, 20154, 24037, 30340, 38382, 39064, 12290],
     fallback_response =
    [25265, 27465, 65292, 26242, 26102, 26080, 27861, 29983, 25104, 26377, 25928, 22238, 22797, 65292, 35831, 31245,
     21518, 20877, 35797, 12290],
     response_truncated_notice =
    [10, 22238, 22797, 20869, 23481, 36739, 38271, 65292, 24050, 26681, 25454, 26381, 21153, 36755, 20986, 39044,
     31639, 25130, 26029, 12290]\<rparr>"

lemma default_policy_fields [simp]:
  "max_question_chars default_policy = 2000" "max_history_messages default_policy = 12"
  "max_history_content_chars default_policy = 1200" "max_response_chars default_policy = 8000"
  "low_confidence_threshold default_policy = 1 / 2" "fallback_route default_policy = ''rag''"
  "allowed_routes default_policy = [''rag'', ''ticket'', ''handoff'', ''clarify'', ''tool'']"
  "allowed_history_roles default_policy = [asc ''user'', asc ''assistant'']"
  "prompt_control_patterns default_policy = default_prompt_control"
  "length (fallback_response default_policy) = 20"
  unfolding default_policy_def by simp_all

subsection \<open>Preparing a request\<close>

fun sanitize_items ::
  "policy \<Rightarrow> (ustr option \<times> ustr option) list \<Rightarrow> string list \<Rightarrow> history \<times> string list" where
  "sanitize_items p [] flags = ([], flags)"
| "sanitize_items p (item # items) flags =
     (let r = lower (strip (or_else (fst item) [])); c = strip (or_else (snd item) []) in
      if r \<notin> set (allowed_history_roles p)
      then sanitize_items p items (flags @ [''history_role_dropped''])
      else
        let long = max_history_content_chars p < length c;
            c' = (if long then take (max_history_content_chars p) c else c);
            flags' = (if long then flags @ [''history_content_truncated''] else flags);
            (rest, out) = sanitize_items p items flags'
        in (if c' = [] then rest else (r, c') # rest, out))"

definition sanitize_history ::
  "policy \<Rightarrow> (ustr option \<times> ustr option) list \<Rightarrow> string list \<Rightarrow> history \<times> string list" where
  "sanitize_history p hist flags =
     (let flags' = (if max_history_messages p < length hist
        then flags @ [''history_trimmed''] else flags)
      in sanitize_items p (if max_history_messages p = 0 then hist
           else last_n (max_history_messages p) hist) flags')"

definition looks_like_prompt_control :: "policy \<Rightarrow> ustr \<Rightarrow> bool" where
  "looks_like_prompt_control p q \<longleftrightarrow> list_ex (\<lambda>r. rx_found r q) (prompt_control_patterns p)"

definition base_trace :: "policy \<Rightarrow> string \<Rightarrow> ustr \<Rightarrow> history \<Rightarrow> string list \<Rightarrow> trace" where
  "base_trace p run q h flags = empty_trace\<lparr>t_run_id := Some run,
     t_policy_version := Some (version p), t_question_chars := Some (length q),
     t_history_messages := Some (length h), t_flags := Some flags\<rparr>"

record decision =
  d_action :: string
  d_reason :: string
  d_state :: agent_state
  d_response_tokens :: "ustr list"
  d_flags :: "string list"

definition stop :: "agent_state \<Rightarrow> string \<Rightarrow> ustr \<Rightarrow> string list \<Rightarrow> decision" where
  "stop s why response flags =
     (let s' = s\<lparr>response_tokens := [response], harness_trace := (harness_trace s)
        \<lparr>t_action := Some ''stop'', t_reason := Some why, t_flags := Some flags\<rparr>\<rparr>
      in \<lparr>d_action = ''stop'', d_reason = why, d_state = s', d_response_tokens = [response],
          d_flags = flags\<rparr>)"

definition prepare ::
  "policy \<Rightarrow> string \<Rightarrow> ustr option \<Rightarrow> (ustr option \<times> ustr option) list \<Rightarrow> idstr \<Rightarrow> idstr
   \<Rightarrow> decision" where
  "prepare p run q hist uid cid =
     (let nq = strip (or_else q []);
          (h, flags) = sanitize_history p hist [];
          s = new_state nq h uid cid (base_trace p run nq h flags)
      in if nq = [] then stop s ''empty_input'' (empty_input_response p) flags
         else if max_question_chars p < length nq
         then stop s ''question_too_long'' (too_long_response p)
           (flags @ [''question_too_long''])
         else if looks_like_prompt_control p nq
         then stop s ''prompt_control_request'' (prompt_control_response p)
           (flags @ [''prompt_control_request''])
         else \<lparr>d_action = ''continue'', d_reason = ''input_accepted'',
           d_state = s\<lparr>harness_trace := (harness_trace s)\<lparr>t_action := Some ''continue'',
             t_reason := Some ''input_accepted''\<rparr>\<rparr>,
           d_response_tokens = [], d_flags = flags\<rparr>)"

subsection \<open>Choosing a route\<close>

definition choose_route :: "policy \<Rightarrow> agent_state \<Rightarrow> string \<Rightarrow> agent_state \<times> string" where
  "choose_route p s cand =
     (let ok = (cand \<in> set (allowed_routes p));
          flags0 = flags_of (harness_trace s);
          r1 = (if ok then cand else fallback_route p);
          why1 = (if ok then ''route_accepted'' else ''route_fallback_not_allowed'');
          flags1 = (if ok then flags0 else flags0 @ [''route_not_allowed'']);
          low = (case intent s of None \<Rightarrow> False
            | Some i \<Rightarrow> confidence i < low_confidence_threshold p);
          r2 = (if low then ''clarify'' else r1);
          why2 = (if low then ''route_override_low_confidence'' else why1);
          flags2 = (if low then append_new ''low_confidence'' flags1 else flags1)
      in (s\<lparr>route := Some r2, harness_trace := (harness_trace s)
            \<lparr>t_action := Some ''route'', t_reason := Some why2, t_route := Some r2,
             t_candidate_route := Some cand, t_intent := map_option label (intent s),
             t_confidence := map_option confidence (intent s), t_flags := Some flags2\<rparr>\<rparr>, r2))"

subsection \<open>Bounding the response\<close>

fun limit_loop :: "policy \<Rightarrow> nat \<Rightarrow> ustr list \<Rightarrow> ustr list \<times> bool" where
  "limit_loop p emitted [] = ([], False)"
| "limit_loop p emitted (t # ts) =
     (if max_response_chars p \<le> emitted then ([response_truncated_notice p], True)
      else if max_response_chars p - emitted < length t
      then ([take (max_response_chars p - emitted) t, response_truncated_notice p], True)
      else (let (out, cut) = limit_loop p (emitted + length t) ts in (t # out, cut)))"

definition limit_tokens :: "policy \<Rightarrow> ustr list \<Rightarrow> ustr list \<times> bool" where
  "limit_tokens p ts = limit_loop p 0 ts"

definition finalize_state :: "policy \<Rightarrow> agent_state \<Rightarrow> agent_state" where
  "finalize_state p s =
     (let flags0 = flags_of (harness_trace s);
          empty = (\<not> list_ex (\<lambda>t. strip t \<noteq> []) (response_tokens s));
          toks = (if empty then [fallback_response p] else response_tokens s);
          flags1 = (if empty then flags0 @ [''empty_response_fallback''] else flags0);
          (out, cut) = limit_tokens p toks;
          flags2 = (if cut then flags1 @ [''response_truncated''] else flags1)
      in s\<lparr>response_tokens := out, harness_trace := (harness_trace s)
           \<lparr>t_action := Some ''complete'', t_reason := Some ''response_ready'',
            t_response_chars := Some (sum_list (map length out)), t_flags := Some flags2\<rparr>\<rparr>)"

fun wrap_loop :: "policy \<Rightarrow> nat \<Rightarrow> bool \<Rightarrow> ustr list \<Rightarrow> ustr list \<times> bool \<times> bool" where
  "wrap_loop p emitted seen [] = ([], seen, False)"
| "wrap_loop p emitted seen (t # ts) =
     (if t = [] then wrap_loop p emitted seen ts
      else if max_response_chars p \<le> emitted then ([], True, True)
      else if max_response_chars p - emitted < length t
      then ([take (max_response_chars p - emitted) t], True, True)
      else (let (out, seen', cut) = wrap_loop p (emitted + length t) True ts
            in (t # out, seen', cut)))"

definition wrap_stream :: "policy \<Rightarrow> ustr list \<Rightarrow> ustr list" where
  "wrap_stream p ts =
     (let (out, seen, cut) = wrap_loop p 0 False ts
      in if \<not> seen then out @ [fallback_response p]
         else if cut then out @ [response_truncated_notice p]
         else out)"

subsection \<open>What a prepared request satisfies\<close>

definition history_ok :: "policy \<Rightarrow> history \<Rightarrow> bool" where
  "history_ok p h \<longleftrightarrow> (\<forall>m \<in> set h. fst m \<in> set (allowed_history_roles p)
     \<and> snd m \<noteq> [] \<and> length (snd m) \<le> max_history_content_chars p)"

lemma sanitize_items_ok:
  "history_ok p (fst (sanitize_items p items flags))
   \<and> length (fst (sanitize_items p items flags)) \<le> length items"
proof (induction items arbitrary: flags)
  case Nil
  then show ?case by (simp add: history_ok_def)
next
  case (Cons item items)
  have le: "length (fst (sanitize_items p items fl)) \<le> Suc (length items)" for fl
    using Cons [of fl] by simp
  show ?case
    using Cons le by (simp add: Let_def history_ok_def case_prod_beta del: strip_eq_Nil_iff)
qed

lemma sanitize_history_ok:
  "history_ok p (fst (sanitize_history p hist flags))"
  "length (fst (sanitize_history p hist flags)) \<le> length hist"
  "0 < max_history_messages p \<Longrightarrow>
   length (fst (sanitize_history p hist flags)) \<le> max_history_messages p"
proof -
  show "history_ok p (fst (sanitize_history p hist flags))"
    by (simp add: sanitize_history_def Let_def sanitize_items_ok)
  have le: "length (fst (sanitize_history p hist flags))
     \<le> length (if max_history_messages p = 0 then hist else last_n (max_history_messages p) hist)"
    by (simp only: sanitize_history_def Let_def sanitize_items_ok)
  show "length (fst (sanitize_history p hist flags)) \<le> length hist"
    using le by (simp split: if_splits)
  show "0 < max_history_messages p \<Longrightarrow>
     length (fst (sanitize_history p hist flags)) \<le> max_history_messages p"
    using le by simp
qed

lemma new_state_fields [simp]:
  "question (new_state q h u c t) = q"
  "conversation_history (new_state q h u c t) = h"
  "user_id (new_state q h u c t) = u"
  "conversation_id (new_state q h u c t) = c"
  "response_tokens (new_state q h u c t) = []"
  "harness_trace (new_state q h u c t) = t"
  by (simp_all add: new_state_def)

lemma stop_fields [simp]:
  "d_action (stop s why r fl) = ''stop''"
  "d_reason (stop s why r fl) = why"
  "d_response_tokens (stop s why r fl) = [r]"
  "d_flags (stop s why r fl) = fl"
  "question (d_state (stop s why r fl)) = question s"
  "conversation_history (d_state (stop s why r fl)) = conversation_history s"
  "response_tokens (d_state (stop s why r fl)) = [r]"
  by (simp_all add: stop_def Let_def)

lemma prepare_state:
  "question (d_state (prepare p run q hist u c)) = strip (or_else q [])"
  "conversation_history (d_state (prepare p run q hist u c)) = fst (sanitize_history p hist [])"
  by (simp_all add: prepare_def Let_def split: prod.splits)

lemma prepare_tokens:
  "response_tokens (d_state (prepare p run q hist u c)) = d_response_tokens (prepare p run q hist u c)"
  by (simp add: prepare_def Let_def split: prod.splits)

lemma prepare_action:
  "d_action (prepare p run q hist u c) =
    (if strip (or_else q []) = [] \<or> max_question_chars p < length (strip (or_else q []))
        \<or> looks_like_prompt_control p (strip (or_else q []))
     then ''stop'' else ''continue'')"
  by (simp add: prepare_def Let_def split: prod.splits)

lemma prepare_response:
  "d_response_tokens (prepare p run q hist u c) =
    (let nq = strip (or_else q []) in
     if nq = [] then [empty_input_response p]
     else if max_question_chars p < length nq then [too_long_response p]
     else if looks_like_prompt_control p nq then [prompt_control_response p]
     else [])"
  by (simp add: prepare_def Let_def split: prod.splits)

text \<open>
  C23: preparing a request. The request continues exactly when the stripped question is not empty,
  within the limit and free of every prompt-control pattern; otherwise the one token of the
  matching canned answer is both the response and the tokens of the state, in the order empty,
  too long, prompt control. In every case the history kept has at most as many messages as the
  policy allows, each with an allowed role and a non-empty bounded content.
\<close>

theorem prepare_contract:
  fixes p :: policy and q :: "ustr option"
  defines "nq \<equiv> strip (or_else q [])"
  assumes "0 < max_history_messages p"
  shows "(d_action (prepare p run q hist u c) = ''continue'' \<longleftrightarrow>
       nq \<noteq> [] \<and> length nq \<le> max_question_chars p
       \<and> \<not> list_ex (\<lambda>r. rx_found r nq) (prompt_control_patterns p))
     \<and> d_response_tokens (prepare p run q hist u c) =
         (if nq = [] then [empty_input_response p]
          else if max_question_chars p < length nq then [too_long_response p]
          else if list_ex (\<lambda>r. rx_found r nq) (prompt_control_patterns p)
          then [prompt_control_response p] else [])
     \<and> response_tokens (d_state (prepare p run q hist u c))
         = d_response_tokens (prepare p run q hist u c)
     \<and> question (d_state (prepare p run q hist u c)) = nq
     \<and> length (conversation_history (d_state (prepare p run q hist u c)))
         \<le> max_history_messages p
     \<and> history_ok p (conversation_history (d_state (prepare p run q hist u c)))"
  using assms(2) sanitize_history_ok [of p hist "[]"] unfolding nq_def
  by (auto simp: prepare_action prepare_state prepare_tokens prepare_response
      looks_like_prompt_control_def Let_def)

text \<open>The bound on kept messages and the screens are met by a request the defaults accept.\<close>

theorem prepare_contract_witness:
  "d_action (prepare default_policy ''r'' (Some (asc '' hi '')) [] (Raw '''') (Raw '''')) = ''continue''"
proof -
  have pos: "0 < max_history_messages default_policy" by simp
  have q: "strip (asc '' hi '') = [104, 105]" by code_simp
  have "list_all (\<lambda>r. 2 < min_len r) (prompt_control_patterns default_policy)"
    by (simp add: default_prompt_control_def system_or_developer_def
        min_len_seqs min_len_cis min_len_lits)
  then have no: "\<not> list_ex (\<lambda>r. rx_found r [104, 105]) (prompt_control_patterns default_policy)"
    by (fastforce simp: list_ex_iff list_all_iff dest: rx_found_min_len)
  show ?thesis
    using prepare_contract [OF pos, of "''r''" "Some (asc '' hi '')" "[]" "Raw ''''" "Raw ''''"]
      no q
    by (simp del: strip_eq_Nil_iff)
qed

subsection \<open>Which routes can be chosen\<close>

lemma choose_route_value:
  "snd (choose_route p s cand) =
    (if (\<exists>i. intent s = Some i \<and> confidence i < low_confidence_threshold p) then ''clarify''
     else if cand \<in> set (allowed_routes p) then cand else fallback_route p)"
  by (auto simp: choose_route_def Let_def split: option.splits)

lemma choose_route_state:
  "route (fst (choose_route p s cand)) = Some (snd (choose_route p s cand))"
  "intent (fst (choose_route p s cand)) = intent s"
  "question (fst (choose_route p s cand)) = question s"
  "response_tokens (fst (choose_route p s cand)) = response_tokens s"
  "pending_tool (fst (choose_route p s cand)) = pending_tool s"
  by (simp_all add: choose_route_def Let_def)

lemma choose_route_trace:
  "t_route (harness_trace (fst (choose_route p s cand))) = Some (snd (choose_route p s cand))"
  "t_candidate_route (harness_trace (fst (choose_route p s cand))) = Some cand"
  "t_run_id (harness_trace (fst (choose_route p s cand))) = t_run_id (harness_trace s)"
  by (simp_all add: choose_route_def Let_def)

lemma choose_route_flags:
  "set (flags_of (harness_trace (fst (choose_route p s cand)))) =
    set (flags_of (harness_trace s))
    \<union> (if cand \<in> set (allowed_routes p) then {} else {''route_not_allowed''})
    \<union> (if (\<exists>i. intent s = Some i \<and> confidence i < low_confidence_threshold p)
       then {''low_confidence''} else {})"
  by (auto simp: choose_route_def Let_def trace_simps split: option.splits)

text \<open>
  The route of a turn. Whatever the classifier proposes, the route chosen under the default
  policy is one of the five the graph has nodes for; a proposal the policy does not allow
  becomes \<open>rag\<close> and is flagged, an intent with confidence below one half becomes \<open>clarify\<close> and
  is flagged, every other proposal stands, and the state and its trace record the result.
\<close>

theorem choose_route_safe:
  "snd (choose_route default_policy s cand)
     \<in> {''rag'', ''ticket'', ''handoff'', ''clarify'', ''tool''}
   \<and> snd (choose_route default_policy s cand) =
      (if (\<exists>i. intent s = Some i \<and> confidence i < 1 / 2) then ''clarify''
       else if cand \<in> {''rag'', ''ticket'', ''handoff'', ''clarify'', ''tool''} then cand
       else ''rag'')
   \<and> route (fst (choose_route default_policy s cand))
       = Some (snd (choose_route default_policy s cand))
   \<and> (''route_not_allowed'' \<in> set (flags_of (harness_trace (fst (choose_route default_policy s cand))))
       \<longleftrightarrow> ''route_not_allowed'' \<in> set (flags_of (harness_trace s))
         \<or> cand \<notin> {''rag'', ''ticket'', ''handoff'', ''clarify'', ''tool''})
   \<and> (''low_confidence'' \<in> set (flags_of (harness_trace (fst (choose_route default_policy s cand))))
       \<longleftrightarrow> ''low_confidence'' \<in> set (flags_of (harness_trace s))
         \<or> (\<exists>i. intent s = Some i \<and> confidence i < 1 / 2))"
proof -
  have d: "set (allowed_routes default_policy) =
      {''rag'', ''ticket'', ''handoff'', ''clarify'', ''tool''}"
    "low_confidence_threshold default_policy = 1 / 2" "fallback_route default_policy = ''rag''"
    by simp_all
  show ?thesis
    unfolding choose_route_flags choose_route_state(1) choose_route_value d by auto
qed

theorem choose_route_safe_witness:
  "snd (choose_route default_policy (new_state [] [] (Raw []) (Raw []) empty_trace) ''delete'')
     = ''rag''"
  using choose_route_safe [of "new_state [] [] (Raw []) (Raw []) empty_trace" "''delete''"]
  by (simp add: new_state_def)

subsection \<open>The text a bounded response carries\<close>

lemma wrap_loop_text:
  "concat (fst (wrap_loop p e seen ts)) = take (max_response_chars p - e) (concat ts)
   \<and> fst (snd (wrap_loop p e seen ts)) = (seen \<or> 0 < length (concat ts))
   \<and> snd (snd (wrap_loop p e seen ts)) =
       (0 < length (concat ts) \<and> max_response_chars p < e + length (concat ts))"
proof (induction ts arbitrary: e seen)
  case Nil
  then show ?case by simp
next
  case (Cons t ts)
  consider "t = []" | "0 < length t" "max_response_chars p \<le> e"
    | "0 < length t" "\<not> max_response_chars p \<le> e" "max_response_chars p - e < length t"
    | "0 < length t" "\<not> max_response_chars p \<le> e" "\<not> max_response_chars p - e < length t"
    by blast
  then show ?case
  proof cases
    case 4
    then show ?thesis using Cons [of "e + length t" True]
      by (auto simp: case_prod_beta Let_def
          simp del: concat_eq_Nil_conv length_greater_0_conv length_0_conv)
  qed (use Cons in \<open>auto simp: case_prod_beta Let_def 
      simp del: concat_eq_Nil_conv length_greater_0_conv length_0_conv\<close>)
qed

lemma limit_loop_text:
  "\<forall>t \<in> set ts. 0 < length t \<Longrightarrow>
   concat (fst (limit_loop p e ts)) = take (max_response_chars p - e) (concat ts)
     @ (if snd (limit_loop p e ts) then response_truncated_notice p else [])
   \<and> snd (limit_loop p e ts) =
       (0 < length (concat ts) \<and> max_response_chars p < e + length (concat ts))"
proof (induction ts arbitrary: e)
  case Nil
  then show ?case by simp
next
  case (Cons t ts)
  then have t: "0 < length t" by simp
  define l where "l = length t"
  define n where "n = length (concat ts)"
  have len: "length (concat (t # ts)) = l + n" "0 < l" using t by (simp_all add: l_def n_def)
  consider "max_response_chars p \<le> e"
    | "\<not> max_response_chars p \<le> e" "max_response_chars p - e < l"
    | "\<not> max_response_chars p \<le> e" "\<not> max_response_chars p - e < l"
    by blast
  then show ?case
  proof cases
    case 3
    have IH: "concat (fst (limit_loop p (e + l) ts)) = take (max_response_chars p - (e + l)) (concat ts)
       @ (if snd (limit_loop p (e + l) ts) then response_truncated_notice p else [])"
      "snd (limit_loop p (e + l) ts) = (0 < n \<and> max_response_chars p < e + l + n)"
      using Cons.IH [of "e + l"] Cons.prems unfolding n_def by simp_all
    have "(0 < n \<and> max_response_chars p < e + l + n) = (max_response_chars p < e + (l + n))"
      using 3 len(2) by arith
    then show ?thesis using 3 IH len
      by (simp only: limit_loop.simps if_False case_prod_beta Let_def fst_conv snd_conv
          l_def [symmetric] concat.simps take_append) (simp add: l_def)
  qed (use len in \<open>simp_all add: l_def [symmetric] del: length_greater_0_conv\<close>)
qed

lemma wrap_stream_text:
  "concat (wrap_stream p ts) = (if concat ts = [] then fallback_response p
     else take (max_response_chars p) (concat ts)
       @ (if max_response_chars p < length (concat ts) then response_truncated_notice p else []))"
  using wrap_loop_text [of p 0 False ts]
  by (auto simp: wrap_stream_def case_prod_beta Let_def)

lemma finalize_text:
  assumes "\<forall>t \<in> set (response_tokens s). strip t \<noteq> []"
  shows "concat (response_tokens (finalize_state p s)) =
    (let toks = (if response_tokens s = [] then [fallback_response p] else response_tokens s)
     in concat (fst (limit_tokens p toks)))"
  using assms by (cases "response_tokens s")
    (auto simp: finalize_state_def limit_tokens_def Let_def case_prod_beta simp del: strip_eq_Nil_iff)



end
