(* ===== verification/Tools.thy ===== *)
theory Tools
  imports Harness
begin

text \<open>
  \<open>agent/tools.py\<close>: the order-number pattern, the order lookup with its three outcomes, the
  knowledge search and \<open>execute_tool\<close>. The answer of the configured webhook and the chunks the
  knowledge base returns are arguments; \<open>show_other\<close> stands for Python's rendering of a JSON
  number with a fraction, a list or an object inside an f-string.

  Lemmas: which branch answers, that an order payload always carries the order number it was asked
  for or one the webhook gave, and that every result names its tool.
\<close>

subsection \<open>Order numbers\<close>

definition ORDER_ID_PATTERN :: rx where
  "ORDER_ID_PATTERN = seqs [WordB, Rep is_upper_ascii 2 (Some 4), Rep is_digit 6 None, WordB]"

definition ORDER_SLOT_ASK_COPY :: ustr where
  "ORDER_SLOT_ASK_COPY =
    [25265, 27465, 65292, 27809, 33021, 20174, 24744, 30340, 38382, 39064, 37324, 35782, 21035, 20986, 35746, 21333,
     21495, 12290, 35831, 25552, 20379, 24418, 22914, 32, 39, 65, 66, 49, 50, 51, 52, 53,
     54, 55, 56, 39, 32, 30340, 35746, 21333, 21495, 65288, 20004, 21040, 22235, 20010, 22823, 20889,
     23383, 27597, 32, 43, 32, 33267, 23569, 20845, 20301, 25968, 23383, 65289, 12290]"

subsection \<open>Searching an order\<close>

type_synonym dict = "(string \<times> json) list"

datatype webhook = Timeout | HttpStatus nat | OtherFailure | Reply json

definition mock_order_response :: dict where
  "mock_order_response = [(''status'', JStr (asc ''shipped'')),
     (''tracking'', JStr (asc ''SF1234567890'')),
     (''estimated_delivery'', JStr (asc ''2-3 business days''))]"

definition mock_order_payload :: "ustr \<Rightarrow> ustr option \<Rightarrow> dict" where
  "mock_order_payload order reason =
     (''order_id'', JStr order) # mock_order_response @ [(''data_source'', JStr (asc ''mock''))]
     @ (case reason of None \<Rightarrow> []
        | Some r \<Rightarrow> if r = [] then [] else [(''fallback_reason'', JStr r)])"

definition webhook_payload :: "ustr \<Rightarrow> json \<Rightarrow> dict" where
  "webhook_payload order data =
     (let p0 = [(''order_id'', JStr order)];
          p1 = (case data of JDict d \<Rightarrow> fold (\<lambda>(k, v). AList.update k v) d p0 | _ \<Rightarrow> p0);
          oid = (case data of JDict d \<Rightarrow> or_else (map_of d ''order_id'') (JStr order)
            | _ \<Rightarrow> JStr order)
      in AList.update ''data_source'' (JStr (asc ''webhook'')) (AList.update ''order_id'' oid p1))"

text \<open>The second component is the reason under which the failure counter is incremented.\<close>

definition search_order ::
  "bool \<Rightarrow> webhook \<Rightarrow> ustr \<Rightarrow> dict \<times> ustr option" where
  "search_order configured answer order =
     (if \<not> configured then (mock_order_payload order None, None)
      else case answer of
        Timeout \<Rightarrow> (mock_order_payload order (Some (asc ''webhook_timeout'')), Some (asc ''timeout''))
      | HttpStatus n \<Rightarrow> (mock_order_payload order (Some (asc ''http_'' @ dec n)),
          Some (asc ''http_'' @ dec n))
      | OtherFailure \<Rightarrow> (mock_order_payload order (Some (asc ''webhook_error'')), Some (asc ''other''))
      | Reply data \<Rightarrow> (webhook_payload order data, None))"

subsection \<open>Displaying results\<close>

fun truthy :: "json \<Rightarrow> bool" where
  "truthy JNull = False"
| "truthy (JBool b) = b"
| "truthy (JInt n) = (n \<noteq> 0)"
| "truthy (JReal x) = (x \<noteq> 0)"
| "truthy (JStr s) = (s \<noteq> [])"
| "truthy (JList xs) = (xs \<noteq> [])"
| "truthy (JDict d) = (d \<noteq> [])"

fun py_str :: "(json \<Rightarrow> ustr) \<Rightarrow> json \<Rightarrow> ustr" where
  "py_str other JNull = asc ''None''"
| "py_str other (JBool b) = asc (if b then ''True'' else ''False'')"
| "py_str other (JInt n) = (if n < 0 then asc ''-'' else []) @ dec (nat \<bar>n\<bar>)"
| "py_str other (JStr s) = s"
| "py_str other j = other j"

definition unknown :: ustr where
  "unknown = [26410, 30693]"

definition format_order_display :: "(json \<Rightarrow> ustr) \<Rightarrow> dict \<Rightarrow> ustr" where
  "format_order_display other raw =
     (let show = (\<lambda>k. py_str other (or_else (map_of raw k) (JStr unknown)));
          base = [35746, 21333, 32] @ show ''order_id'' @ [32, 24403, 21069, 29366, 24577, 65306] @ show ''status''
            @ [65292, 29289, 27969, 21333, 21495, 65306] @ show ''tracking'' @ [65292, 39044, 35745, 32] @ show ''estimated_delivery'' @ [32, 36865, 36798, 12290]
      in if truthy (or_else (map_of raw ''fallback_reason'') JNull)
         then base @ [65288, 35746, 21333, 26381, 21153, 26242, 19981, 21487, 29992, 65292, 20197, 19979, 20026, 28436, 31034, 25968,
     25454, 65289]
         else if map_of raw ''data_source'' = Some (JStr (asc ''mock''))
         then base @ [65288, 28436, 31034, 25968, 25454, 65292, 26410, 23545, 25509, 30495, 23454, 19994, 21153, 65289]
         else base)"

definition search_knowledge :: "source list option option \<Rightarrow> json list" where
  "search_knowledge answer =
     (case answer of None \<Rightarrow> [] | Some None \<Rightarrow> []
      | Some (Some srcs) \<Rightarrow> map (\<lambda>s. JDict [(''title'', JStr (s_title s)),
          (''source'', JStr (s_source s)), (''content'', JStr (s_chunk s)),
          (''score'', JReal (s_score s))]) srcs)"

definition text_field :: "string \<Rightarrow> json \<Rightarrow> ustr" where
  "text_field k j = (case j of JDict d \<Rightarrow> (case map_of d k of Some (JStr s) \<Rightarrow> s | _ \<Rightarrow> []) | _ \<Rightarrow> [])"

definition format_knowledge_display :: "json list \<Rightarrow> ustr" where
  "format_knowledge_display chunks =
     (if chunks = []
      then [26242, 26410, 22312, 30693, 35782, 24211, 20013, 26816, 32034, 21040, 30456, 20851, 20869, 23481, 65292, 35831,
     23581, 35797, 25442, 31181, 35828, 27861, 25110, 34917, 20805, 20851, 38190, 35789, 12290]
      else join [10] ([20197, 19979, 26159, 19982, 24744, 38382, 39064, 30456, 20851, 30340, 30693, 35782, 24211, 29255, 27573, 65306] #
        map (\<lambda>(i, c). dec i @ [46, 32, 12304]
            @ (if text_field ''title'' c = [] then [65288, 26080, 26631, 39064, 65289] else text_field ''title'' c)
            @ [12305] @ strip (text_field ''content'' c))
          (zip [1 ..< Suc (length chunks)] chunks)))"

subsection \<open>Running a tool\<close>

definition intent_tool_map :: "(string \<times> string) list" where
  "intent_tool_map = [(''order_query'', ''search_order''),
     (''knowledge_search'', ''search_knowledge''), (''kb_search'', ''search_knowledge'')]"

record tool_env =
  te_configured :: bool
  te_webhook :: "ustr \<Rightarrow> webhook"
  te_knowledge :: "ustr \<Rightarrow> source list option option"
  te_show :: "json \<Rightarrow> ustr"

definition execute_tool :: "tool_env \<Rightarrow> string \<Rightarrow> ustr \<Rightarrow> tool_result" where
  "execute_tool e name q =
     (case map_of intent_tool_map name of
        None \<Rightarrow> \<lparr>tr_display = [26242, 19981, 25903, 25345, 35813, 19994, 21153, 26597, 35810, 65292, 24050, 20026, 24744, 35760, 24405, 38656,
     27714, 12290],
          tr_tool = name, tr_raw = JNull, tr_needs_slot = None\<rparr>
      | Some tool \<Rightarrow>
          if tool = ''search_order'' then
            (case rx_search ORDER_ID_PATTERN q of
               None \<Rightarrow> \<lparr>tr_display = ORDER_SLOT_ASK_COPY, tr_tool = tool, tr_raw = JNull,
                 tr_needs_slot = Some ''order_id''\<rparr>
             | Some m \<Rightarrow>
                 (let order = group0 q m;
                      raw = fst (search_order (te_configured e) (te_webhook e order) order)
                  in \<lparr>tr_display = format_order_display (te_show e) raw, tr_tool = tool,
                      tr_raw = JDict raw, tr_needs_slot = None\<rparr>))
          else (let chunks = search_knowledge (te_knowledge e q)
                in \<lparr>tr_display = format_knowledge_display chunks, tr_tool = tool,
                    tr_raw = JList chunks, tr_needs_slot = None\<rparr>))"

subsection \<open>What counts as an order number\<close>

lemma order_pattern_match:
  "rx_match s ORDER_ID_PATTERN i j \<longleftrightarrow>
   boundary s i \<and> boundary s j \<and> (\<exists>k n. 2 \<le> k \<and> k \<le> 4 \<and> 6 \<le> n \<and> j = i + k + n \<and> j \<le> length s
     \<and> (\<forall>m < k. is_upper_ascii (s ! (i + m))) \<and> (\<forall>m < n. is_digit (s ! (i + k + m))))"
proof
  assume "rx_match s ORDER_ID_PATTERN i j"
  then show "boundary s i \<and> boundary s j \<and> (\<exists>k n. 2 \<le> k \<and> k \<le> 4 \<and> 6 \<le> n \<and> j = i + k + n
     \<and> j \<le> length s \<and> (\<forall>m < k. is_upper_ascii (s ! (i + m))) \<and> (\<forall>m < n. is_digit (s ! (i + k + m))))"
    unfolding ORDER_ID_PATTERN_def seqs_def
    by (auto elim!: rx_elims rx_repE)
next
  assume r: "boundary s i \<and> boundary s j \<and> (\<exists>k n. 2 \<le> k \<and> k \<le> 4 \<and> 6 \<le> n \<and> j = i + k + n
     \<and> j \<le> length s \<and> (\<forall>m < k. is_upper_ascii (s ! (i + m))) \<and> (\<forall>m < n. is_digit (s ! (i + k + m))))"
  then obtain k n where kn: "2 \<le> k" "k \<le> 4" "6 \<le> n" "j = i + k + n" "j \<le> length s"
    "\<forall>m < k. is_upper_ascii (s ! (i + m))" "\<forall>m < n. is_digit (s ! (i + k + m))" by blast
  have "rx_match s (Rep is_upper_ascii 2 (Some 4)) i (i + k)"
    using kn by (intro rx_match.rep) auto
  moreover have "rx_match s (Rep is_digit 6 None) (i + k) j"
    using kn rx_match.rep [of 6 n None "i + k" s is_digit] by simp
  ultimately show "rx_match s ORDER_ID_PATTERN i j"
    using r unfolding ORDER_ID_PATTERN_def seqs_def
    by (auto intro: rx_match.intros)
qed

text \<open>The form of an order number: two to four capitals, then at least six digits.\<close>

definition order_form :: "ustr \<Rightarrow> bool" where
  "order_form w \<longleftrightarrow> (let n = length (takeWhile is_upper_ascii w); d = drop n w
     in 2 \<le> n \<and> n \<le> 4 \<and> 6 \<le> length d \<and> list_all is_digit d)"

lemma upper_not_digit: "is_upper_ascii c \<Longrightarrow> \<not> is_digit c"
  by (auto simp: is_upper_ascii_def is_digit_def)

lemma takeWhile_eq_take:
  "k < length w \<Longrightarrow> (\<forall>m < k. P (w ! m)) \<Longrightarrow> \<not> P (w ! k) \<Longrightarrow> takeWhile P w = take k w"
  by (rule takeWhile_eq_take_P_nth) auto

lemma order_found_form:
  assumes "rx_search ORDER_ID_PATTERN s = Some m"
  shows "order_form (group0 s m) \<and> boundary s (fst m) \<and> boundary s (snd m)"
proof -
  obtain i j where m: "m = (i, j)" by (cases m)
  then have "rx_match s ORDER_ID_PATTERN i j" using assms rx_search_Some by blast
  then obtain k n where kn: "2 \<le> k" "k \<le> 4" "6 \<le> n" "j = i + k + n" "j \<le> length s"
    "\<forall>m < k. is_upper_ascii (s ! (i + m))" "\<forall>m < n. is_digit (s ! (i + k + m))"
    and b: "boundary s i" "boundary s j"
    by (auto simp: order_pattern_match)
  let ?w = "group0 s m"
  have len: "length ?w = k + n" using kn m by (simp add: group0_def)
  have nth: "?w ! q = s ! (i + q)" if "q < k + n" for q
    using that kn m by (simp add: group0_def)
  have "takeWhile is_upper_ascii ?w = take k ?w"
  proof (rule takeWhile_eq_take)
    show "k < length ?w" using len kn by simp
    show "\<forall>m < k. is_upper_ascii (?w ! m)" using nth kn by auto
    have "is_digit (s ! (i + k + 0))" using kn by (metis less_le_trans zero_less_numeral)
    then have "is_digit (?w ! k)" using nth [of k] kn by simp
    then show "\<not> is_upper_ascii (?w ! k)" using upper_not_digit by blast
  qed
  then have tw: "length (takeWhile is_upper_ascii ?w) = k" using len by simp
  have "list_all is_digit (drop k ?w)"
    unfolding list_all_length using nth kn len by (auto simp: add.assoc)
  with tw len kn have "order_form ?w" by (simp add: order_form_def Let_def)
  with b m show ?thesis by simp
qed

text \<open>
  A text made of word characters only has its word boundaries at its two ends. Chinese
  characters are word characters, so an order number written against them is not seen.
\<close>

lemma no_inner_boundary:
  "list_all is_word s \<Longrightarrow> boundary s i \<Longrightarrow> i = 0 \<or> length s \<le> i"
  by (auto simp: boundary_def word_at_def list_all_length)

lemma order_not_found:
  assumes "list_all is_word s" and "s \<noteq> []" and "\<not> is_upper_ascii (hd s)"
  shows "\<not> rx_found ORDER_ID_PATTERN s"
proof
  assume "rx_found ORDER_ID_PATTERN s"
  then obtain i j where "rx_match s ORDER_ID_PATTERN i j" by (auto simp: rx_found_iff)
  then obtain k n where kn: "2 \<le> k" "6 \<le> n" "j = i + k + n" "j \<le> length s" "boundary s i"
    "\<forall>m < k. is_upper_ascii (s ! (i + m))" by (auto simp: order_pattern_match)
  then have "i = 0" using no_inner_boundary [OF assms(1) kn(5)] by auto
  then have "is_upper_ascii (s ! 0)" using kn by force
  then show False using assms(2,3) by (simp add: hd_conv_nth)
qed

lemma order_pattern_min_len: "min_len ORDER_ID_PATTERN = 8"
  by (simp add: ORDER_ID_PATTERN_def seqs_def)

subsection \<open>Tool results\<close>

lemma fold_update_map_of:
  "map_of (fold (\<lambda>(k, v). AList.update k v) d al) k =
   (case map_of (rev d) k of None \<Rightarrow> map_of al k | Some v \<Rightarrow> Some v)"
proof (induction d arbitrary: al)
  case (Cons p d)
  obtain a b where p: "p = (a, b)" by (cases p)
  have "map_of (fold (\<lambda>(k, v). AList.update k v) (p # d) al) k =
      (case map_of (rev d) k of None \<Rightarrow> map_of (AList.update a b al) k | Some v \<Rightarrow> Some v)"
    using Cons.IH [of "AList.update a b al"] p by simp
  then show ?case using p by (auto simp: map_of_AList_update map_add_def split: option.splits)
qed simp

lemma mock_payload_fields:
  "map_of (mock_order_payload w r) ''order_id'' = Some (JStr w)"
  "map_of (mock_order_payload w r) ''data_source'' = Some (JStr (asc ''mock''))"
  "map_of (mock_order_payload w r) ''fallback_reason'' =
     (case r of None \<Rightarrow> None | Some x \<Rightarrow> if x = [] then None else Some (JStr x))"
  by (simp_all add: mock_order_payload_def mock_order_response_def split: option.splits)

lemma webhook_payload_fields:
  "map_of (webhook_payload w data) ''data_source'' = Some (JStr (asc ''webhook''))"
  "map_of (webhook_payload w data) ''order_id'' =
     Some (case data of JDict d \<Rightarrow> or_else (map_of d ''order_id'') (JStr w) | _ \<Rightarrow> JStr w)"
  by (simp_all add: webhook_payload_def Let_def map_of_AList_update)

lemma webhook_payload_passes:
  "k \<noteq> ''order_id'' \<Longrightarrow> k \<noteq> ''data_source'' \<Longrightarrow>
   map_of (webhook_payload w (JDict d)) k = map_of (rev d) k"
  by (auto simp: webhook_payload_def Let_def map_of_AList_update fold_update_map_of
      split: option.splits)

text \<open>
  An order lookup always answers. Without a webhook the payload is the mock one; with a
  webhook that fails it is the mock one marked with the reason, and that failure is counted;
  with a webhook that replies, the reply's own fields are passed on, and nothing is counted.
  In each case the payload says which order it is about and where the data came from.
\<close>

theorem search_order_branches:
  "search_order False ans w = (mock_order_payload w None, None)
   \<and> (\<forall>r. search_order True (Reply r) w = (webhook_payload w r, None))
   \<and> ((snd (search_order c ans w) = None) = (\<not> c \<or> (\<exists>r. ans = Reply r)))
   \<and> (snd (search_order c ans w) \<noteq> None) =
       (map_of (fst (search_order c ans w)) ''fallback_reason'' \<noteq> None
        \<and> map_of (fst (search_order c ans w)) ''data_source'' = Some (JStr (asc ''mock'')))
   \<and> map_of (fst (search_order c ans w)) ''data_source''
       = Some (JStr (if c \<and> (\<exists>r. ans = Reply r) then asc ''webhook'' else asc ''mock''))
   \<and> map_of (fst (search_order c ans w)) ''order_id'' =
       Some (case ans of Reply (JDict d) \<Rightarrow> if c then or_else (map_of d ''order_id'') (JStr w)
               else JStr w | _ \<Rightarrow> JStr w)"
  by (cases c; cases ans)
    (auto simp: search_order_def mock_payload_fields webhook_payload_fields asc_def
      split: json.splits)

lemma execute_tool_slot:
  "tr_needs_slot (execute_tool e name q) =
    (if map_of intent_tool_map name = Some ''search_order'' \<and> \<not> rx_found ORDER_ID_PATTERN q
     then Some ''order_id'' else None)"
  by (auto simp: execute_tool_def rx_found_def Let_def split: option.splits)

lemma execute_tool_name:
  "tr_tool (execute_tool e name q) = or_else (map_of intent_tool_map name) name"
  by (auto simp: execute_tool_def Let_def split: option.splits)

lemma tool_map_values:
  "map_of intent_tool_map name = Some t \<Longrightarrow> t = ''search_order'' \<or> t = ''search_knowledge''"
  by (auto simp: intent_tool_map_def split: if_splits)

text \<open>
  When the order tool asks for a number. It asks exactly when the pattern finds none in the
  question, and then answers with the fixed request; otherwise the number it looks up has the
  documented form and stands between word boundaries of the question. A number written directly
  against Chinese text is not found, because the pattern's boundary treats Chinese characters as
  word characters: the customer is asked for the number that is in the question.
\<close>

theorem order_tool_asks:
  "(tr_needs_slot (execute_tool e ''order_query'' q) \<noteq> None)
     = (\<forall>i j. i \<le> length q \<longrightarrow> \<not> rx_match q ORDER_ID_PATTERN i j)
   \<and> (rx_search ORDER_ID_PATTERN q = None \<longrightarrow>
        tr_display (execute_tool e ''order_query'' q) = ORDER_SLOT_ASK_COPY)
   \<and> (\<forall>m. rx_search ORDER_ID_PATTERN q = Some m \<longrightarrow> order_form (group0 q m)
        \<and> tr_raw (execute_tool e ''order_query'' q) =
            JDict (fst (search_order (te_configured e) (te_webhook e (group0 q m)) (group0 q m))))
   \<and> (list_all is_word q \<and> q \<noteq> [] \<and> \<not> is_upper_ascii (hd q) \<longrightarrow>
        tr_needs_slot (execute_tool e ''order_query'' q) = Some ''order_id'')"
proof -
  have name: "map_of intent_tool_map ''order_query'' = Some ''search_order''"
    by (simp add: intent_tool_map_def)
  have "tr_display (execute_tool e ''order_query'' q) = ORDER_SLOT_ASK_COPY"
    if "rx_search ORDER_ID_PATTERN q = None"
    using that by (simp add: execute_tool_def name)
  moreover have "tr_raw (execute_tool e ''order_query'' q) =
      JDict (fst (search_order (te_configured e) (te_webhook e (group0 q m)) (group0 q m)))"
    if "rx_search ORDER_ID_PATTERN q = Some m" for m
    using that by (simp add: execute_tool_def name Let_def)
  moreover have "(tr_needs_slot (execute_tool e ''order_query'' q) \<noteq> None)
     = (\<forall>i j. i \<le> length q \<longrightarrow> \<not> rx_match q ORDER_ID_PATTERN i j)"
    by (auto simp: execute_tool_slot name rx_found_iff)
  ultimately show ?thesis
    using order_found_form order_not_found [of q] by (auto simp: execute_tool_slot name)
qed

text \<open>The question asks where order AB12345678 is, written in Chinese without a space.\<close>

theorem order_tool_asks_witness:
  "(\<forall>e. tr_needs_slot (execute_tool e ''order_query'' [35746, 21333, 65, 66, 49, 50, 51, 52, 53, 54, 55, 56, 21040, 21738, 20102]) = Some ''order_id'')
   \<and> (\<exists>m. rx_search ORDER_ID_PATTERN (asc ''AB12345678'') = Some m)"
proof -
  have w: "list_all is_word [35746, 21333, 65, 66, 49, 50, 51, 52, 53, 54, 55, 56, 21040, 21738, 20102]" by (simp add: is_word_def)
  have h: "\<not> is_upper_ascii (hd [35746, 21333, 65, 66, 49, 50, 51, 52, 53, 54, 55, 56, 21040, 21738, 20102])" by (simp add: is_upper_ascii_def)
  have found: "rx_search ORDER_ID_PATTERN (asc ''AB12345678'') = Some (0, 10)" by code_simp
  show ?thesis
    using order_tool_asks [of _ "[35746, 21333, 65, 66, 49, 50, 51, 52, 53, 54, 55, 56, 21040, 21738, 20102]"] w h found by simp
qed

theorem search_order_branches_witness:
  "map_of (fst (search_order True (HttpStatus 503) (asc ''AB12345678''))) ''fallback_reason'' \<noteq> None"
  using search_order_branches [of "HttpStatus 503" "asc ''AB12345678''" True] by auto

end
