(* ===== verification/Table.thy ===== *)
theory Table
  imports AgentState
begin

text \<open>
  A PostgreSQL table is the list of its rows in insertion order. This theory holds the few
  statements the repositories are built from: read by key, update by key, order and page, and
  the insert that a (partial) unique index guards. A partial unique index is a function \<open>slot\<close>
  from rows to the indexed key, \<open>None\<close> for a row outside the index's \<open>WHERE\<close>.

  The locale \<open>keyed_insert\<close> states what \<open>INSERT ... ON CONFLICT DO NOTHING RETURNING\<close> promises for
  such an index, and what follows for the get-or-create pattern built on it; the tickets, the
  hand-off sessions and the knowledge drafts interpret it.
\<close>

subsection \<open>Reading and updating rows\<close>

definition row_of :: "('r \<Rightarrow> 'k) \<Rightarrow> 'k \<Rightarrow> 'r list \<Rightarrow> 'r option" where
  "row_of key k rows = find (\<lambda>r. key r = k) rows"

definition set_row :: "('r \<Rightarrow> 'k) \<Rightarrow> 'k \<Rightarrow> ('r \<Rightarrow> 'r) \<Rightarrow> 'r list \<Rightarrow> 'r list" where
  "set_row key k f rows = map (\<lambda>r. if key r = k then f r else r) rows"

definition newest_first :: "('r \<Rightarrow> int) \<Rightarrow> 'r list \<Rightarrow> 'r list" where
  "newest_first created rows = sort_key (\<lambda>r. - created r) rows"

definition page :: "nat \<Rightarrow> nat \<Rightarrow> 'r list \<Rightarrow> 'r list" where
  "page limit offset rows = take limit (drop offset rows)"

lemma row_of_Nil [simp]: "row_of key k [] = None"
  by (simp add: row_of_def)

lemma row_of_Some: "row_of key k rows = Some r \<Longrightarrow> r \<in> set rows \<and> key r = k"
  by (auto simp: row_of_def dest: hd_filter_find)

lemma row_of_None: "row_of key k rows = None \<longleftrightarrow> k \<notin> key ` set rows"
  by (auto simp: row_of_def find_None_iff')

lemma row_of_append:
  "row_of key k (xs @ ys) = (case row_of key k xs of None \<Rightarrow> row_of key k ys | Some r \<Rightarrow> Some r)"
  by (induction xs) (auto simp: row_of_def)

lemma row_of_Cons: "row_of key k (r # rows) = (if key r = k then Some r else row_of key k rows)"
  by (simp add: row_of_def)

lemma row_of_unique:
  "distinct (map key rows) \<Longrightarrow> r \<in> set rows \<Longrightarrow> row_of key (key r) rows = Some r"
  by (induction rows) (auto simp: row_of_Cons)

lemma key_inj:
  "distinct (map key rows) \<Longrightarrow> x \<in> set rows \<Longrightarrow> y \<in> set rows \<Longrightarrow> key x = key y \<Longrightarrow> x = y"
  by (metis option.inject row_of_unique)

lemma row_of_set_row [repo_simps]:
  assumes "\<And>r. key (f r) = key r"
  shows "row_of key k' (set_row key k f rows) =
    (if k' = k then map_option f (row_of key k rows) else row_of key k' rows)"
  using assms by (induction rows) (auto simp: set_row_def row_of_Cons)

lemma map_set_row:
  assumes "\<And>r. key (f r) = key r"
  shows "map key (set_row key k f rows) = map key rows"
  using assms by (induction rows) (auto simp: set_row_def)

lemma length_set_row [simp]: "length (set_row key k f rows) = length rows"
  by (simp add: set_row_def)

lemma set_set_row: "set (set_row key k f rows) = (\<lambda>r. if key r = k then f r else r) ` set rows"
  by (simp add: set_row_def)

lemma set_row_all:
  "list_all P rows \<Longrightarrow> (\<And>r. P r \<Longrightarrow> P (f r)) \<Longrightarrow> list_all P (set_row key k f rows)"
  by (auto simp: list_all_iff set_set_row)

lemma set_row_absent: "k \<notin> key ` set rows \<Longrightarrow> set_row key k f rows = rows"
  by (induction rows) (auto simp: set_row_def)

text \<open>\<open>UPDATE ... WHERE key = k AND P\<close> on a table whose keys are unique.\<close>

lemma cond_rows:
  assumes "distinct (map key rows)"
  shows "map (\<lambda>r. if key r = k \<and> P r then f r else r) rows =
    (case row_of key k rows of None \<Rightarrow> rows | Some r \<Rightarrow> if P r then set_row key k f rows else rows)"
    "list_ex (\<lambda>r. key r = k \<and> P r) rows \<longleftrightarrow> (case row_of key k rows of None \<Rightarrow> False | Some r \<Rightarrow> P r)"
proof -
  have id: "map (\<lambda>r. if key r = k \<and> P r then f r else r) rs = rs" "set_row key k f rs = rs"
    "row_of key k rs = None" "\<not> list_ex (\<lambda>r. key r = k \<and> P r) rs" if "k \<notin> key ` set rs" for rs
    using that by (auto simp: set_row_absent row_of_None list_ex_iff intro!: map_idI)
  show "map (\<lambda>r. if key r = k \<and> P r then f r else r) rows =
    (case row_of key k rows of None \<Rightarrow> rows | Some r \<Rightarrow> if P r then set_row key k f rows else rows)"
    using assms
  proof (induction rows)
    case (Cons r rs)
    then show ?case using id [of rs] by (auto simp: row_of_Cons set_row_def split: option.splits)
  qed simp
  show "list_ex (\<lambda>r. key r = k \<and> P r) rows \<longleftrightarrow> (case row_of key k rows of None \<Rightarrow> False | Some r \<Rightarrow> P r)"
    using assms
  proof (induction rows)
    case (Cons r rs)
    then show ?case using id [of rs] by (auto simp: row_of_Cons)
  qed simp
qed

lemma set_newest_first [simp]: "set (newest_first c rows) = set rows"
  by (simp add: newest_first_def)

lemma length_newest_first [simp]: "length (newest_first c rows) = length rows"
  by (simp add: newest_first_def)

lemma sorted_newest_first: "sorted_wrt (\<lambda>x y. c y \<le> c x) (newest_first c rows)"
proof -
  have "sorted (map (\<lambda>x. - c x) (sort_key (\<lambda>x. - c x) rows))" by simp
  then show ?thesis by (simp add: newest_first_def sorted_map)
qed

lemma set_page: "set (page l off rows) \<subseteq> set rows"
  unfolding page_def by (meson order_trans set_drop_subset set_take_subset)

lemma length_page: "length (page l off rows) \<le> l"
  by (simp add: page_def)

text \<open>Consecutive pages of one ordering cover it without overlap.\<close>

lemma page_split: "page l off rows @ page l' (off + l) rows = page (l + l') off rows"
  by (simp add: page_def take_add add.commute)

subsection \<open>Partial unique indexes\<close>

definition uniq_on :: "('r \<Rightarrow> 's option) \<Rightarrow> 'r list \<Rightarrow> bool" where
  "uniq_on slot rows \<longleftrightarrow> distinct (List.map_filter slot rows)"

lemma uniq_on_Nil [simp]: "uniq_on slot []"
  by (simp add: uniq_on_def map_filter_simps)

lemma set_slots: "s \<in> set (List.map_filter slot rows) \<longleftrightarrow> (\<exists>r \<in> set rows. slot r = Some s)"
  by (induction rows) (auto simp: map_filter_simps split: option.splits)

lemma uniq_on_Cons:
  "uniq_on slot (r # rows) \<longleftrightarrow>
   (case slot r of None \<Rightarrow> True | Some s \<Rightarrow> \<forall>x \<in> set rows. slot x \<noteq> Some s) \<and> uniq_on slot rows"
  using set_slots [of _ slot rows]
  by (auto simp: uniq_on_def map_filter_simps split: option.splits)

lemma uniq_on_append:
  "uniq_on slot (rows @ [r]) \<longleftrightarrow> uniq_on slot rows \<and>
     (case slot r of None \<Rightarrow> True | Some s \<Rightarrow> \<forall>x \<in> set rows. slot x \<noteq> Some s)"
  by (induction rows) (auto simp: uniq_on_Cons split: option.splits)

lemma uniq_on_same:
  "uniq_on slot rows \<Longrightarrow> x \<in> set rows \<Longrightarrow> y \<in> set rows \<Longrightarrow> slot x = Some s \<Longrightarrow> slot y = Some s
   \<Longrightarrow> x = y"
  by (induction rows) (auto simp: uniq_on_Cons split: option.splits)

lemma uniq_onI:
  assumes "distinct rows"
    and "\<And>x y s. x \<in> set rows \<Longrightarrow> y \<in> set rows \<Longrightarrow> slot x = Some s \<Longrightarrow> slot y = Some s \<Longrightarrow> x = y"
  shows "uniq_on slot rows"
  using assms
proof (induction rows)
  case (Cons r rows)
  then have "uniq_on slot rows" by simp
  moreover have "slot x \<noteq> Some s" if "slot r = Some s" "x \<in> set rows" for s x
    using Cons.prems that by (metis distinct.simps(2) list.set_intros)
  ultimately show ?case by (auto simp: uniq_on_Cons split: option.split)
qed simp

text \<open>An update that leaves each row where it was in the index, or takes it out, keeps it.\<close>

lemma uniq_on_map:
  assumes "uniq_on slot rows" and "\<And>r. r \<in> set rows \<Longrightarrow> slot (f r) = slot r \<or> slot (f r) = None"
  shows "uniq_on slot (map f rows)"
  using assms by (induction rows) (fastforce simp: uniq_on_Cons split: option.splits)+

lemma uniq_on_set_row:
  assumes "uniq_on slot rows" and "\<And>r. slot (f r) = slot r \<or> slot (f r) = None"
  shows "uniq_on slot (set_row key k f rows)"
  unfolding set_row_def by (rule uniq_on_map) (use assms in auto)

lemma uniq_on_filter: "uniq_on slot rows \<Longrightarrow> uniq_on slot (filter P rows)"
  by (induction rows) (auto simp: uniq_on_Cons split: option.splits)

text \<open>\<open>INSERT ... ON CONFLICT DO NOTHING\<close>: \<open>None\<close> when the index already has the key.\<close>

definition insert_guarded :: "('r \<Rightarrow> 's option) \<Rightarrow> 'r \<Rightarrow> 'r list \<Rightarrow> 'r list option" where
  "insert_guarded slot r rows =
     (if slot r \<noteq> None \<and> list_ex (\<lambda>x. slot x = slot r) rows then None else Some (rows @ [r]))"

subsection \<open>The insert contract\<close>

definition ins_or_keep :: "('r \<Rightarrow> 'r list \<Rightarrow> 'r list option) \<Rightarrow> 'r \<Rightarrow> 'r list \<Rightarrow> 'r list" where
  "ins_or_keep ins r rows = (case ins r rows of None \<Rightarrow> rows | Some rows' \<Rightarrow> rows')"

locale keyed_insert =
  fixes ins :: "'r \<Rightarrow> 'r list \<Rightarrow> 'r list option" and slot :: "'r \<Rightarrow> 's option"
  assumes ins_free: "(\<forall>x \<in> set rows. slot x \<noteq> slot r) \<Longrightarrow> ins r rows = Some (rows @ [r])"
    and ins_taken: "x \<in> set rows \<Longrightarrow> slot r = Some s \<Longrightarrow> slot x = Some s \<Longrightarrow> ins r rows = None"
    and ins_out: "slot r = None \<Longrightarrow> ins r rows = Some (rows @ [r])"
begin

lemma ins_Some: "ins r rows = Some rows' \<Longrightarrow> rows' = rows @ [r]"
  using ins_free ins_taken ins_out
  by (metis not_None_eq option.discI option.inject)

lemma ins_None: "ins r rows = None \<Longrightarrow> \<exists>x \<in> set rows. slot r \<noteq> None \<and> slot x = slot r"
  using ins_free ins_out by (metis option.distinct(1))

text \<open>An insert never breaks the index.\<close>

lemma ins_uniq: "ins r rows = Some rows' \<Longrightarrow> uniq_on slot rows \<Longrightarrow> uniq_on slot rows'"
  using ins_Some [of r rows rows'] ins_taken [of _ rows r]
  by (auto simp: uniq_on_append split: option.splits)

lemma ins_keeps: "ins r rows = Some rows' \<Longrightarrow> set rows \<subseteq> set rows'"
  by (auto dest: ins_Some)

text \<open>Of two inserts for one key, whatever happens first, at most one takes effect.\<close>

lemma ins_twice:
  assumes "slot r = Some s" "slot q = Some s" "ins r rows = Some rows'"
  shows "ins q rows' = None"
  using assms ins_Some [OF assms(3)] ins_taken [of r rows' q s] by simp

text \<open>
  Many requests for the same key, in any order: folding the inserts over a table that had no
  row for the key leaves exactly one.
\<close>

lemma ins_or_keep_uniq: "uniq_on slot rows \<Longrightarrow> uniq_on slot (ins_or_keep ins r rows)"
  by (auto simp: ins_or_keep_def ins_uniq split: option.splits)

lemma ins_or_keep_has: "slot r = Some s \<Longrightarrow> \<exists>x \<in> set (ins_or_keep ins r rows). slot x = Some s"
  using ins_None [of r rows] ins_Some [of r rows]
  by (fastforce simp: ins_or_keep_def split: option.splits)

lemma race_uniq: "uniq_on slot rows \<Longrightarrow> uniq_on slot (fold (ins_or_keep ins) rs rows)"
  by (induction rs arbitrary: rows) (auto simp: ins_or_keep_uniq)

end

lemma insert_guarded_laws: "keyed_insert (insert_guarded slot) slot"
  by unfold_locales (auto simp: insert_guarded_def list_ex_iff)

lemma keyed_insertI:
  assumes "\<And>r rows. ins r rows = insert_guarded slot r rows"
  shows "keyed_insert ins slot"
proof -
  have "ins = insert_guarded slot" using assms by (simp add: fun_eq_iff)
  then show ?thesis using insert_guarded_laws [of slot] by metis
qed

subsection \<open>The move contract\<close>

text \<open>
  \<open>UPDATE ... WHERE key = k AND <ready> RETURNING\<close> as an interface: an attempt \<open>a\<close> on the row \<open>k\<close>
  says whether it took effect. A row that is not ready makes the attempt fail without effect;
  a ready one is moved by \<open>become a\<close>; other rows stay; the table's invariant \<open>fine\<close> is kept.
  \<open>attempts\<close> runs requests one after the other, in whatever order the database serialises them,
  and \<open>winners\<close> are those that were told that they moved the row.
\<close>

fun attempts :: "('a \<Rightarrow> 'k \<Rightarrow> 'r list \<Rightarrow> bool \<times> 'r list) \<Rightarrow> ('a \<times> 'k) list \<Rightarrow> 'r list \<Rightarrow> bool list \<times> 'r list" where
  "attempts move [] rows = ([], rows)"
| "attempts move ((a, k) # as) rows =
     (case move a k rows of (won, rows1) \<Rightarrow> case attempts move as rows1 of (ws, rows2) \<Rightarrow> (won # ws, rows2))"

definition tries :: "'k \<Rightarrow> ('a \<times> 'k) list \<Rightarrow> 'a list" where
  "tries k as = map fst (filter (\<lambda>(a, j). j = k) as)"

definition winners :: "'k \<Rightarrow> ('a \<times> 'k) list \<Rightarrow> bool list \<Rightarrow> 'a list" where
  "winners k as ws = tries k (map fst (filter snd (zip as ws)))"

lemma attempts_Cons:
  "attempts move ((a, k) # as) rows = (fst (move a k rows) # fst (attempts move as (snd (move a k rows))),
     snd (attempts move as (snd (move a k rows))))"
  by (simp add: split_beta)

declare attempts.simps(2) [simp del]

lemma tries_simps [simp]: "tries k [] = []"
  "tries k ((a, j) # as) = (if j = k then a # tries k as else tries k as)"
  by (simp_all add: tries_def)

lemma winners_simps [simp]: "winners k [] ws = []"
  "winners k ((a, j) # as) (w # ws) = (if w \<and> j = k then a # winners k as ws else winners k as ws)"
  by (simp_all add: winners_def)

locale keyed_move =
  fixes key :: "'r \<Rightarrow> 'k" and move :: "'a \<Rightarrow> 'k \<Rightarrow> 'r list \<Rightarrow> bool \<times> 'r list"
    and ready :: "'a \<Rightarrow> 'r \<Rightarrow> bool" and become :: "'a \<Rightarrow> 'r \<Rightarrow> 'r" and fine :: "'r list \<Rightarrow> bool"
  assumes move_won: "fine rows \<Longrightarrow> fst (move a k rows) \<longleftrightarrow> (\<exists>r. row_of key k rows = Some r \<and> ready a r)"
    and move_row: "fine rows \<Longrightarrow> row_of key j (snd (move a k rows)) =
      (if j = k then map_option (\<lambda>r. if ready a r then become a r else r) (row_of key k rows)
       else row_of key j rows)"
    and move_fine: "fine rows \<Longrightarrow> fine (snd (move a k rows))"
begin

lemma attempts_fine: "fine rows \<Longrightarrow> fine (snd (attempts move as rows))"
proof (induction as arbitrary: rows)
  case (Cons p as)
  obtain a k where p: "p = (a, k)" by (cases p)
  show ?case using Cons.IH [OF move_fine [OF Cons.prems, of a k]] by (simp add: p attempts_Cons)
qed simp

text \<open>Requests for other rows do not matter to a row.\<close>

lemma attempts_other:
  "fine rows \<Longrightarrow> tries k as = [] \<Longrightarrow>
   row_of key k (snd (attempts move as rows)) = row_of key k rows"
proof (induction as arbitrary: rows)
  case (Cons p as)
  obtain a j where p: "p = (a, j)" by (cases p)
  have j: "j \<noteq> k" and t: "tries k as = []" using Cons.prems by (auto simp: p split: if_splits)
  show ?case using Cons.IH [OF move_fine [OF Cons.prems(1), of a j] t] j move_row [OF Cons.prems(1)]
    by (simp add: p attempts_Cons)
qed simp

end

text \<open>An exclusive move: it takes its row out of the reach of every further attempt.\<close>

locale guarded_move = keyed_move +
  assumes taken: "ready a r \<Longrightarrow> \<not> ready b (become a r)"
begin

lemma settled:
  "fine rows \<Longrightarrow> (\<forall>r. row_of key k rows = Some r \<longrightarrow> (\<forall>b \<in> set (tries k as). \<not> ready b r)) \<Longrightarrow>
   winners k as (fst (attempts move as rows)) = []
   \<and> row_of key k (snd (attempts move as rows)) = row_of key k rows"
proof (induction as arbitrary: rows)
  case (Cons p as)
  obtain a j where p: "p = (a, j)" by (cases p)
  note f = move_fine [OF Cons.prems(1), of a j]
  have row: "row_of key k (snd (move a j rows)) = row_of key k rows"
    using Cons.prems(2) move_row [OF Cons.prems(1), of k a j]
    by (cases "row_of key k rows") (auto simp: p attempts_Cons)
  have lost: "\<not> (fst (move a j rows) \<and> j = k)"
    using Cons.prems(2) move_won [OF Cons.prems(1), of a j] by (auto simp: p attempts_Cons)
  have later: "\<forall>r. row_of key k (snd (move a j rows)) = Some r \<longrightarrow> (\<forall>b \<in> set (tries k as). \<not> ready b r)"
    using Cons.prems(2) row by (auto simp: p split: if_splits)
  show ?case using Cons.IH [OF f later] row lost by (simp add: p attempts_Cons)
qed simp

text \<open>
  The race. Of all requests for a row the first that finds it ready wins, alone; the row is
  what that request makes of it, and without one it is as it was.
\<close>

lemma race:
  "fine rows \<Longrightarrow> row_of key k rows = Some r \<Longrightarrow>
   winners k as (fst (attempts move as rows)) = take 1 (filter (\<lambda>a. ready a r) (tries k as))
   \<and> row_of key k (snd (attempts move as rows)) =
       Some (case filter (\<lambda>a. ready a r) (tries k as) of [] \<Rightarrow> r | a # _ \<Rightarrow> become a r)"
proof (induction as arbitrary: rows)
  case (Cons p as)
  obtain a j where p: "p = (a, j)" by (cases p)
  note f = move_fine [OF Cons.prems(1), of a j]
  show ?case
  proof (cases "j = k \<and> ready a r")
    case True
    then have row: "row_of key k (snd (move a j rows)) = Some (become a r)"
      using move_row [OF Cons.prems(1), of k a j] Cons.prems(2) by simp
    have won: "fst (move a j rows)" using True move_won [OF Cons.prems(1)] Cons.prems(2) by auto
    have "\<forall>r'. row_of key k (snd (move a j rows)) = Some r' \<longrightarrow> (\<forall>b \<in> set (tries k as). \<not> ready b r')"
      using row taken True by auto
    from settled [OF f this] show ?thesis using True row won by (simp add: p attempts_Cons)
  next
    case False
    then have row: "row_of key k (snd (move a j rows)) = Some r"
      using move_row [OF Cons.prems(1), of k a j] Cons.prems(2) by auto
    have "\<not> (fst (move a j rows) \<and> j = k)"
      using False move_won [OF Cons.prems(1), of a j] Cons.prems(2) by auto
    then show ?thesis using Cons.IH [OF f row] False by (auto simp: p attempts_Cons)
  qed
qed simp

lemma one_winner: "fine rows \<Longrightarrow> length (winners k as (fst (attempts move as rows))) \<le> 1"
proof (cases "row_of key k rows")
  case None
  assume "fine rows"
  with None show ?thesis using settled [of rows k as] by simp
next
  case (Some r)
  assume "fine rows"
  then show ?thesis using race [of rows k r as] Some by simp
qed

end

end
