(* ===== verification/Db.thy ===== *)
theory Db
  imports Table
begin

text \<open>
  The rows of the PostgreSQL tables (\<open>models/\<close>) as records and enumerations with the source's
  members, the errors of \<open>core/exceptions.py\<close>, and the \<open>world\<close> that holds every table. Columns
  that no modelled code reads (hashed passwords, \<open>updated_at\<close> except where a query orders by it)
  are left out. Timestamps are integers; a timestamp the database would set is an argument of
  the operation that writes the row.
\<close>

subsection \<open>Errors\<close>

datatype err = NotFound | Unauthorized | Forbidden | Conflict | Unprocessable | RateLimited
  | Unavailable | IntegrityError | RuntimeErr string | ValueErr | OtherErr ustr

fun status_code :: "err \<Rightarrow> nat" where
  "status_code NotFound = 404"
| "status_code Unauthorized = 401"
| "status_code Forbidden = 403"
| "status_code Conflict = 409"
| "status_code Unprocessable = 422"
| "status_code RateLimited = 429"
| "status_code Unavailable = 503"
| "status_code _ = 500"

subsection \<open>Users and conversations\<close>

datatype user_role = RUser | RAgent | RAdmin

record user =
  us_id :: uuid
  us_name :: ustr
  us_role :: user_role
  us_active :: bool

datatype conv_status = CActive | CClosed | CTransferred

text \<open>
  A value of \<open>conversations.metadata\<close>. The dictionary under the pending-tool key is a pending
  record: \<open>agent/slots.py\<close> is its only writer.
\<close>

datatype meta_val = MPending pending | MJson json

type_synonym meta = "(string \<times> meta_val) list"

record conversation =
  cv_id :: uuid
  cv_user :: uuid
  cv_status :: conv_status
  cv_title :: "ustr option"
  cv_meta :: "meta option"
  cv_created :: int
  cv_updated :: int

datatype msg_role = MUser | MAssistant | MSystem | MStaff

text \<open>The self-check of an answer, its confidence badge, and the metadata of a message.\<close>

record verification =
  vf_checked :: bool
  vf_supported :: nat
  vf_total :: nat
  vf_invalid :: "nat list"
  vf_verdict :: string

record answer_conf =
  ac_score :: real
  ac_band :: string
  ac_retrieval :: real
  ac_pass :: "real option"

record msg_extra =
  ex_trace :: "trace option"
  ex_verification :: "verification option"
  ex_answer :: "answer_conf option"

record message =
  ms_id :: uuid
  ms_conv :: uuid
  ms_role :: msg_role
  ms_content :: ustr
  ms_intent :: "string option"
  ms_confidence :: "real option"
  ms_sources :: "source list option"
  ms_extra :: "msg_extra option"
  ms_created :: int

subsection \<open>Tickets, feedback, hand-offs\<close>

datatype ticket_status = TPending | TProcessing | TResolved | TClosed
datatype priority = PLow | PMedium | PHigh | PUrgent

record ticket =
  tk_id :: uuid
  tk_conv :: "uuid option"
  tk_user :: uuid
  tk_type :: string
  tk_status :: ticket_status
  tk_priority :: priority
  tk_title :: ustr
  tk_desc :: "ustr option"
  tk_assignee :: "ustr option"
  tk_content :: "json option"
  tk_created :: int
  tk_resolved :: "int option"

record feedback =
  fb_id :: uuid
  fb_message :: uuid
  fb_user :: uuid
  fb_rating :: int
  fb_comment :: "ustr option"
  fb_created :: int

datatype ho_status = HQueued | HClaimed | HResolved | HReturned | HTimedOut

record payload =
  pl_recent :: "(msg_role \<times> ustr \<times> int) list"
  pl_intents :: "string list"
  pl_user :: idstr
  pl_start :: "int option"
  pl_tickets :: "uuid list"
  pl_flags :: "string list option"

text \<open>The assignee column holds \<open>str(user.id)\<close> and is represented by that id.\<close>

record handoff =
  ho_id :: uuid
  ho_conv :: uuid
  ho_status :: ho_status
  ho_summary :: ustr
  ho_payload :: payload
  ho_assignee :: "uuid option"
  ho_claimed :: "int option"
  ho_closed :: "int option"
  ho_created :: int

subsection \<open>Knowledge loop\<close>

datatype gap_status = GOpen | GPromoted | GDismissed

record gap =
  gp_id :: uuid
  gp_question :: ustr
  gp_norm :: ustr
  gp_hash :: ustr
  gp_status :: gap_status
  gp_frequency :: nat
  gp_signals :: "(string \<times> nat) list"
  gp_intent :: "string option"
  gp_conv :: "uuid option"
  gp_message :: "uuid option"
  gp_doc :: "uuid option"
  gp_created :: int
  gp_updated :: int

datatype draft_status = DDraft | DApproved | DRejected

record draft =
  df_id :: uuid
  df_gap :: "uuid option"
  df_question :: ustr
  df_answer :: ustr
  df_status :: draft_status
  df_ticket :: "uuid option"
  df_conv :: "uuid option"
  df_synthesis :: "(string \<times> json) list option"
  df_created_by :: "uuid option"
  df_reviewed_by :: "uuid option"
  df_doc :: "uuid option"
  df_note :: "ustr option"
  df_created :: int

datatype doc_status = DocPending | DocIndexing | DocActive | DocFailed | DocArchived

record document =
  dc_id :: uuid
  dc_title :: ustr
  dc_source :: "ustr option"
  dc_path :: "ustr option"
  dc_status :: doc_status
  dc_chunks :: nat
  dc_tags :: "(string \<times> json) list option"
  dc_indexed_at :: "int option"
  dc_error :: "ustr option"
  dc_started :: "int option"
  dc_created :: int

subsection \<open>Operations tables\<close>

record template =
  tp_id :: uuid
  tp_key :: string
  tp_vars :: "string list"
  tp_active :: "uuid option"
  tp_enabled :: bool

record version_row =
  vr_id :: uuid
  vr_template :: uuid
  vr_version :: nat
  vr_content :: ustr
  vr_by :: "uuid option"
  vr_comment :: "ustr option"

record intent_config =
  ic_id :: uuid
  ic_name :: string
  ic_route :: string
  ic_threshold :: real
  ic_active :: bool
  ic_priority :: int

record audit =
  au_id :: uuid
  au_actor :: uuid
  au_role :: user_role
  au_action :: string
  au_entity_type :: string
  au_entity :: "uuid option"
  au_detail :: "json option"
  au_trace :: "string option"
  au_created :: int

subsection \<open>All tables\<close>

record world =
  w_users :: "user list"
  w_convs :: "conversation list"
  w_msgs :: "message list"
  w_tickets :: "ticket list"
  w_feedback :: "feedback list"
  w_handoffs :: "handoff list"
  w_gaps :: "gap list"
  w_drafts :: "draft list"
  w_docs :: "document list"
  w_templates :: "template list"
  w_versions :: "version_row list"
  w_intents :: "intent_config list"
  w_audits :: "audit list"

definition empty_world :: world where
  "empty_world = \<lparr>w_users = [], w_convs = [], w_msgs = [], w_tickets = [], w_feedback = [],
     w_handoffs = [], w_gaps = [], w_drafts = [], w_docs = [], w_templates = [],
     w_versions = [], w_intents = [], w_audits = []\<rparr>"

text \<open>\<open>actor.role in {admin, agent}\<close>.\<close>

definition is_staff :: "user \<Rightarrow> bool" where
  "is_staff u \<longleftrightarrow> us_role u = RAdmin \<or> us_role u = RAgent"

subsection \<open>Frames sent to a client\<close>

text \<open>
  \<open>ServerMessage\<close> of \<open>chat/protocol.py\<close> by its type, with the data each type carries; the
  conversation of a frame comes first. The timestamp is stamped on the wire.
\<close>

record end_payload =
  ep_sources :: "source list"
  ep_message :: "uuid option"
  ep_verification :: "verification option"
  ep_answer :: "answer_conf option"

datatype frame =
    FToken uuid ustr
  | FMessageEnd uuid end_payload
  | FError ustr
  | FIntent uuid string real
  | FSource uuid "source list"
  | FTicket "uuid option" ticket_data
  | FTicketUpdate "uuid option" uuid ticket_status
  | FHandoff uuid
  | FStaff uuid ustr ustr
  | FHandoffUpdate uuid string "ustr option" "uuid option"
  | FPong

end
