(* ===== verification/Tickets.thy ===== *)
theory Tickets
  imports Masking
begin

text \<open>
  Tickets: \<open>repositories/ticket_repo.py\<close>, \<open>ticket/service.py\<close>, \<open>ticket/dedup.py\<close> and
  \<open>ticket/router.py\<close>. The partial unique index \<open>uniq_open_user_title\<close> is \<open>open_slot\<close>: at most one
  ticket per user and title that is neither resolved nor closed. Between the insert and the
  look-up of \<open>create\<close> other transactions may commit; what they do is a function per attempt.

  Lemmas: the table invariant and that every operation keeps it, deduplication, permissions,
  visibility and paging.
\<close>

subsection \<open>The table\<close>

definition is_open :: "ticket_status \<Rightarrow> bool" where
  "is_open s \<longleftrightarrow> s \<noteq> TClosed \<and> s \<noteq> TResolved"

definition open_slot :: "ticket \<Rightarrow> (uuid \<times> ustr) option" where
  "open_slot t = (if is_open (tk_status t) then Some (tk_user t, tk_title t) else None)"

definition ticket_insert :: "ticket \<Rightarrow> ticket list \<Rightarrow> ticket list option" where
  "ticket_insert t rows = insert_guarded open_slot t rows"

definition find_open_duplicate :: "uuid \<Rightarrow> ustr \<Rightarrow> ticket list \<Rightarrow> ticket option" where
  "find_open_duplicate u title rows = find (\<lambda>t. tk_user t = u \<and> tk_title t = title
     \<and> (tk_status t = TPending \<or> tk_status t = TProcessing)) rows"

definition find_duplicate :: "int \<Rightarrow> uuid \<Rightarrow> ustr \<Rightarrow> int \<Rightarrow> ticket list \<Rightarrow> ticket option" where
  "find_duplicate now u title hours rows = find (\<lambda>t. tk_user t = u \<and> tk_title t = title
     \<and> now - hours * 3600 \<le> tk_created t
     \<and> (tk_status t = TPending \<or> tk_status t = TProcessing)) rows"

definition check_duplicate :: "int \<Rightarrow> uuid \<Rightarrow> ustr \<Rightarrow> ticket list \<Rightarrow> bool" where
  "check_duplicate now u title rows \<longleftrightarrow> find_duplicate now u title 24 rows \<noteq> None"

subsection \<open>Creating\<close>

definition new_ticket ::
  "int \<Rightarrow> uuid \<Rightarrow> string \<Rightarrow> ustr \<Rightarrow> ustr option \<Rightarrow> priority \<Rightarrow> uuid option \<Rightarrow> json option \<Rightarrow> ticket" where
  "new_ticket now u ty title desc pr conv content = \<lparr>tk_id = 0, tk_conv = conv, tk_user = u,
     tk_type = ty, tk_status = TPending, tk_priority = pr, tk_title = title, tk_desc = desc,
     tk_assignee = None, tk_content = content, tk_created = now, tk_resolved = None\<rparr>"

text \<open>One pair per attempt: the fresh id, and what others commit before the look-up.\<close>

fun create_attempts ::
  "(uuid \<times> (ticket list \<Rightarrow> ticket list)) list \<Rightarrow> ticket \<Rightarrow> ticket list
   \<Rightarrow> (err + ticket) \<times> ticket list" where
  "create_attempts [] t rows = (Inl (RuntimeErr ''ticket_create_conflict_unresolved''), rows)"
| "create_attempts ((i, others) # rest) t rows =
     (case ticket_insert (t\<lparr>tk_id := i\<rparr>) rows of
        Some rows' \<Rightarrow>
          (case row_of tk_id i rows' of
             None \<Rightarrow> (Inl (RuntimeErr ''ticket_insert_lost_after_returning''), rows')
           | Some r \<Rightarrow> (Inr r, rows'))
      | None \<Rightarrow> (let rows2 = others rows in
          case find_open_duplicate (tk_user t) (tk_title t) rows2 of
            Some e \<Rightarrow> (Inr e, rows2)
          | None \<Rightarrow> create_attempts rest t rows2))"

definition ticket_create ::
  "(uuid \<times> (ticket list \<Rightarrow> ticket list)) \<Rightarrow> (uuid \<times> (ticket list \<Rightarrow> ticket list)) \<Rightarrow> ticket
   \<Rightarrow> ticket list \<Rightarrow> (err + ticket) \<times> ticket list" where
  "ticket_create a b t rows = create_attempts [a, b] t rows"

text \<open>
  \<open>TicketService.create_ticket\<close>; the last component says whether the ticket counter was
  incremented.
\<close>

definition service_create ::
  "(uuid \<times> (ticket list \<Rightarrow> ticket list)) \<Rightarrow> (uuid \<times> (ticket list \<Rightarrow> ticket list)) \<Rightarrow> ticket
   \<Rightarrow> ticket list \<Rightarrow> (err + ticket) \<times> ticket list \<times> bool" where
  "service_create a b t rows =
     (case find_duplicate (tk_created t) (tk_user t) (tk_title t) 24 rows of
        Some d \<Rightarrow> (Inr d, rows, False)
      | None \<Rightarrow> (case ticket_create a b t rows of
          (Inl e, rows') \<Rightarrow> (Inl e, rows', False)
        | (Inr r, rows') \<Rightarrow> (Inr r, rows', True)))"

subsection \<open>Reading\<close>

definition get_ticket_for_actor :: "uuid \<Rightarrow> user \<Rightarrow> ticket list \<Rightarrow> ticket option" where
  "get_ticket_for_actor i actor rows =
     (case row_of tk_id i rows of None \<Rightarrow> None
      | Some t \<Rightarrow> if is_staff actor \<or> tk_user t = us_id actor then Some t else None)"

fun ticket_status_of :: "string \<Rightarrow> ticket_status option" where
  "ticket_status_of s = (if s = ''pending'' then Some TPending else if s = ''processing''
     then Some TProcessing else if s = ''resolved'' then Some TResolved
     else if s = ''closed'' then Some TClosed else None)"

fun priority_of :: "string \<Rightarrow> priority option" where
  "priority_of s = (if s = ''low'' then Some PLow else if s = ''medium'' then Some PMedium
     else if s = ''high'' then Some PHigh else if s = ''urgent'' then Some PUrgent else None)"

text \<open>\<open>if x: ... Enum(x)\<close>: nothing to filter by, a value, or \<open>ValueError\<close> (\<open>None\<close>).\<close>

definition given :: "(string \<Rightarrow> 'a option) \<Rightarrow> string option \<Rightarrow> 'a option option" where
  "given parse x = (case x of None \<Rightarrow> Some None
     | Some s \<Rightarrow> if s = '''' then Some None else map_option Some (parse s))"

text \<open>SQL \<open>LIKE\<close>: percent matches any text, underscore any character, backslash quotes.\<close>

function like :: "ustr \<Rightarrow> ustr \<Rightarrow> bool" where
  "like [] s = (s = [])"
| "like (p # ps) s =
     (if p = 37 then like ps s \<or> (case s of [] \<Rightarrow> False | _ # s' \<Rightarrow> like (p # ps) s')
      else if p = 95 then (case s of [] \<Rightarrow> False | _ # s' \<Rightarrow> like ps s')
      else if p = 92 then (case ps of [] \<Rightarrow> False
        | q # qs \<Rightarrow> (case s of [] \<Rightarrow> False | c # s' \<Rightarrow> c = q \<and> like qs s'))
      else (case s of [] \<Rightarrow> False | c # s' \<Rightarrow> c = p \<and> like ps s'))"
  by pat_completeness auto
termination by (relation "measure (\<lambda>(p, s). length p + length s)") auto

definition ilike :: "ustr \<Rightarrow> ustr \<Rightarrow> bool" where
  "ilike pattern s \<longleftrightarrow> like (lower pattern) (lower s)"

record ticket_filter =
  tf_status :: "string option"
  tf_priority :: "string option"
  tf_assignee :: "ustr option"
  tf_query :: "ustr option"

definition query_hit :: "(uuid \<Rightarrow> ustr) \<Rightarrow> ustr \<Rightarrow> ticket \<Rightarrow> bool" where
  "query_hit idtext q t \<longleftrightarrow> (let pattern = [37] @ q @ [37];
     hit = (\<lambda>c. case c of None \<Rightarrow> False | Some s \<Rightarrow> ilike pattern s)
     in hit (Some (tk_title t)) \<or> hit (tk_desc t) \<or> hit (Some (idtext (tk_id t)))
        \<or> hit (map_option idtext (tk_conv t)) \<or> hit (tk_assignee t))"

definition build_filtered_query ::
  "(uuid \<Rightarrow> ustr) \<Rightarrow> uuid option \<Rightarrow> ticket_filter \<Rightarrow> ticket list \<Rightarrow> err + ticket list" where
  "build_filtered_query idtext u f rows =
     (case (given ticket_status_of (tf_status f), given priority_of (tf_priority f)) of
        (Some st, Some pr) \<Rightarrow> Inr (filter (\<lambda>t.
           (case u of None \<Rightarrow> True | Some x \<Rightarrow> tk_user t = x) \<and>
           (case st of None \<Rightarrow> True | Some s \<Rightarrow> tk_status t = s) \<and>
           (case pr of None \<Rightarrow> True | Some p \<Rightarrow> tk_priority t = p) \<and>
           (case tf_assignee f of None \<Rightarrow> True | Some a \<Rightarrow> a = [] \<or> tk_assignee t = Some a) \<and>
           (case tf_query f of None \<Rightarrow> True | Some q \<Rightarrow> q = [] \<or> query_hit idtext q t)) rows)
      | _ \<Rightarrow> Inl ValueErr)"

definition list_for_staff ::
  "(uuid \<Rightarrow> ustr) \<Rightarrow> nat \<Rightarrow> nat \<Rightarrow> ticket_filter \<Rightarrow> ticket list \<Rightarrow> err + ticket list" where
  "list_for_staff idtext limit offset f rows =
     (case build_filtered_query idtext None f rows of Inl e \<Rightarrow> Inl e
      | Inr rs \<Rightarrow> Inr (page limit offset (newest_first tk_created rs)))"

definition count_for_staff ::
  "(uuid \<Rightarrow> ustr) \<Rightarrow> ticket_filter \<Rightarrow> ticket list \<Rightarrow> err + nat" where
  "count_for_staff idtext f rows =
     (case build_filtered_query idtext None f rows of Inl e \<Rightarrow> Inl e | Inr rs \<Rightarrow> Inr (length rs))"

definition list_by_user ::
  "(uuid \<Rightarrow> ustr) \<Rightarrow> uuid \<Rightarrow> nat \<Rightarrow> nat \<Rightarrow> string option \<Rightarrow> ustr option \<Rightarrow> ticket list
   \<Rightarrow> err + ticket list" where
  "list_by_user idtext u limit offset st q rows =
     (case build_filtered_query idtext (Some u)
        \<lparr>tf_status = st, tf_priority = None, tf_assignee = None, tf_query = q\<rparr> rows of
        Inl e \<Rightarrow> Inl e
      | Inr rs \<Rightarrow> Inr (page limit offset (newest_first tk_created rs)))"

definition count_by_user ::
  "(uuid \<Rightarrow> ustr) \<Rightarrow> uuid \<Rightarrow> string option \<Rightarrow> ustr option \<Rightarrow> ticket list \<Rightarrow> err + nat" where
  "count_by_user idtext u st q rows =
     (case build_filtered_query idtext (Some u)
        \<lparr>tf_status = st, tf_priority = None, tf_assignee = None, tf_query = q\<rparr> rows of
        Inl e \<Rightarrow> Inl e | Inr rs \<Rightarrow> Inr (length rs))"

definition list_tickets_for_actor ::
  "(uuid \<Rightarrow> ustr) \<Rightarrow> user \<Rightarrow> nat \<Rightarrow> nat \<Rightarrow> ticket_filter \<Rightarrow> ticket list
   \<Rightarrow> err + ticket list \<times> nat" where
  "list_tickets_for_actor idtext actor limit offset f rows =
     (if is_staff actor then
        (case (list_for_staff idtext limit offset f rows, count_for_staff idtext f rows) of
           (Inr ts, Inr n) \<Rightarrow> Inr (ts, n) | (Inl e, _) \<Rightarrow> Inl e | (_, Inl e) \<Rightarrow> Inl e)
      else
        (case (list_by_user idtext (us_id actor) limit offset (tf_status f) (tf_query f) rows,
               count_by_user idtext (us_id actor) (tf_status f) (tf_query f) rows) of
           (Inr ts, Inr n) \<Rightarrow> Inr (ts, n) | (Inl e, _) \<Rightarrow> Inl e | (_, Inl e) \<Rightarrow> Inl e))"

definition count_by_status :: "ticket list \<Rightarrow> (ticket_status \<times> nat) list" where
  "count_by_status rows = map (\<lambda>s. (s, length (filter (\<lambda>t. tk_status t = s) rows)))
     (add_new [] (map tk_status rows))"

definition list_all_tickets ::
  "nat \<Rightarrow> nat \<Rightarrow> ticket_status option \<Rightarrow> ticket list \<Rightarrow> ticket list" where
  "list_all_tickets limit offset st rows = page limit offset
     (filter (\<lambda>t. case st of None \<Rightarrow> True | Some s \<Rightarrow> tk_status t = s) (newest_first tk_created rows))"

definition count_all_tickets :: "ticket_status option \<Rightarrow> ticket list \<Rightarrow> nat" where
  "count_all_tickets st rows =
     length (filter (\<lambda>t. case st of None \<Rightarrow> True | Some s \<Rightarrow> tk_status t = s) rows)"

subsection \<open>Updating\<close>

text \<open>A flush that would break the unique index raises \<open>IntegrityError\<close>.\<close>

definition ticket_flush :: "ticket list \<Rightarrow> err + ticket list" where
  "ticket_flush rows = (if uniq_on open_slot rows then Inr rows else Inl IntegrityError)"

definition with_status :: "int \<Rightarrow> ticket_status \<Rightarrow> ticket \<Rightarrow> ticket" where
  "with_status now s t = t\<lparr>tk_status := s, tk_resolved := (if s = TResolved then Some now else None)\<rparr>"

definition repo_update_status ::
  "int \<Rightarrow> uuid \<Rightarrow> ticket_status \<Rightarrow> ticket list \<Rightarrow> err + ticket option \<times> ticket list" where
  "repo_update_status now i s rows =
     (case row_of tk_id i rows of None \<Rightarrow> Inr (None, rows)
      | Some t \<Rightarrow> (case ticket_flush (set_row tk_id i (with_status now s) rows) of
          Inl e \<Rightarrow> Inl e | Inr rows' \<Rightarrow> Inr (Some (with_status now s t), rows')))"

definition service_update_status ::
  "int \<Rightarrow> uuid \<Rightarrow> string \<Rightarrow> ticket list \<Rightarrow> err + ticket option \<times> ticket list" where
  "service_update_status now i s rows =
     (case ticket_status_of s of None \<Rightarrow> Inl ValueErr
      | Some st \<Rightarrow> repo_update_status now i st rows)"

definition apply_update ::
  "int \<Rightarrow> ticket_status option \<Rightarrow> ustr option \<Rightarrow> priority option \<Rightarrow> json option \<Rightarrow> string list
   \<Rightarrow> ticket \<Rightarrow> ticket" where
  "apply_update now status assignee prio content sent t =
     (let t1 = (case status of Some s \<Rightarrow> if ''status'' \<in> set sent then with_status now s t else t
          | None \<Rightarrow> t);
          t2 = (if ''assignee'' \<in> set sent then t1\<lparr>tk_assignee := assignee\<rparr> else t1);
          t3 = (case prio of Some p \<Rightarrow> if ''priority'' \<in> set sent then t2\<lparr>tk_priority := p\<rparr> else t2
          | None \<Rightarrow> t2)
      in if ''content'' \<in> set sent then t3\<lparr>tk_content := content\<rparr> else t3)"

definition service_update ::
  "int \<Rightarrow> uuid \<Rightarrow> user \<Rightarrow> ticket_status option \<Rightarrow> ustr option \<Rightarrow> priority option \<Rightarrow> json option
   \<Rightarrow> string list \<Rightarrow> ticket list \<Rightarrow> err + ticket option \<times> ticket list" where
  "service_update now i actor status assignee prio content sent rows =
     (case get_ticket_for_actor i actor rows of None \<Rightarrow> Inr (None, rows)
      | Some t \<Rightarrow>
          if \<not> is_staff actor \<and> (''assignee'' \<in> set sent \<or> ''priority'' \<in> set sent)
          then Inl Forbidden
          else if \<not> is_staff actor \<and> ''status'' \<in> set sent \<and> status \<noteq> Some TClosed
          then Inl Forbidden
          else let f = apply_update now (if ''status'' \<in> set sent then status else None) assignee
                 (if ''priority'' \<in> set sent then prio else None) content sent
               in case ticket_flush (set_row tk_id i f rows) of
                 Inl e \<Rightarrow> Inl e | Inr rows' \<Rightarrow> Inr (Some (f t), rows'))"

subsection \<open>The router\<close>

text \<open>The body of a \<open>PUT\<close>: \<open>None\<close> for a field that was not sent.\<close>

record ticket_patch =
  up_status :: "ticket_status option option"
  up_assignee :: "ustr option option"
  up_priority :: "priority option option"
  up_content :: "json option option"

definition patch_fields :: "ticket_patch \<Rightarrow> string list" where
  "patch_fields b = (if up_status b = None then [] else [''status''])
     @ (if up_assignee b = None then [] else [''assignee''])
     @ (if up_priority b = None then [] else [''priority''])
     @ (if up_content b = None then [] else [''content''])"

definition patch_valid :: "ticket_patch \<Rightarrow> bool" where
  "patch_valid b \<longleftrightarrow> up_status b \<noteq> Some None \<and> up_priority b \<noteq> Some None"

fun status_name :: "ticket_status \<Rightarrow> string" where
  "status_name TPending = ''pending''"
| "status_name TProcessing = ''processing''"
| "status_name TResolved = ''resolved''"
| "status_name TClosed = ''closed''"

type_synonym notice = "uuid \<times> uuid \<times> ticket_status \<times> uuid option"

definition router_update_ticket ::
  "uuid \<Rightarrow> int \<Rightarrow> string \<Rightarrow> uuid \<Rightarrow> ticket_patch \<Rightarrow> user \<Rightarrow> ticket list \<times> audit list
   \<Rightarrow> (err + ticket \<times> notice list) \<times> ticket list \<times> audit list" where
  "router_update_ticket aid now tr i b u db =
     (let (rows, audits) = db in
      if \<not> patch_valid b then (Inl Unprocessable, db)
      else case get_ticket_for_actor i u rows of None \<Rightarrow> (Inl NotFound, db)
      | Some cur \<Rightarrow>
        (case service_update now i u (or_else (up_status b) None) (or_else (up_assignee b) None)
            (or_else (up_priority b) None) (or_else (up_content b) None) (patch_fields b) rows of
           Inl e \<Rightarrow> (Inl e, db)
         | Inr (None, _) \<Rightarrow> (Inl NotFound, db)
         | Inr (Some t, rows') \<Rightarrow>
             if up_status b \<noteq> None \<and> tk_status t \<noteq> tk_status cur
             then (Inr (t, [(tk_user t, tk_id t, tk_status t, tk_conv t)]), rows',
               record_audit aid now tr \<lparr>ax_actor = u, ax_action = ''ticket.status_change'',
                 ax_entity_type = ''ticket'', ax_entity = Some (tk_id t),
                 ax_detail = Some [(''from'', JStr (asc (status_name (tk_status cur)))),
                   (''to'', JStr (asc (status_name (tk_status t))))]\<rparr> audits)
             else (Inr (t, []), rows', audits)))"

definition router_create_ticket ::
  "(uuid \<times> (ticket list \<Rightarrow> ticket list)) \<Rightarrow> (uuid \<times> (ticket list \<Rightarrow> ticket list)) \<Rightarrow> ticket \<Rightarrow> user
   \<Rightarrow> conversation list \<Rightarrow> ticket list \<Rightarrow> (err + ticket) \<times> ticket list" where
  "router_create_ticket a b body u convs rows =
     (let allowed = (case tk_conv body of None \<Rightarrow> True
        | Some c \<Rightarrow> (case row_of cv_id c convs of None \<Rightarrow> False | Some cv \<Rightarrow> cv_user cv = us_id u))
      in if \<not> allowed then (Inl NotFound, rows)
         else case service_create a b (body\<lparr>tk_user := us_id u\<rparr>) rows of
           (Inl e, _, _) \<Rightarrow> (Inl e, rows) | (Inr t, rows', _) \<Rightarrow> (Inr t, rows'))"

definition router_get_ticket :: "uuid \<Rightarrow> user \<Rightarrow> ticket list \<Rightarrow> err + ticket" where
  "router_get_ticket i u rows =
     (case get_ticket_for_actor i u rows of None \<Rightarrow> Inl NotFound | Some t \<Rightarrow> Inr t)"

text \<open>The endpoint takes four filters and passes none of them on.\<close>

definition router_list_tickets ::
  "(uuid \<Rightarrow> ustr) \<Rightarrow> nat \<Rightarrow> nat \<Rightarrow> ticket_filter \<Rightarrow> user \<Rightarrow> ticket list
   \<Rightarrow> err + ticket list \<times> nat \<times> nat" where
  "router_list_tickets idtext limit offset f u rows =
     (if limit = 0 \<or> 100 < limit then Inl Unprocessable
      else case (list_by_user idtext (us_id u) limit offset None None rows,
                 count_by_user idtext (us_id u) None None rows) of
        (Inr ts, Inr n) \<Rightarrow> Inr (ts, n, offset div limit + 1)
      | (Inl e, _) \<Rightarrow> Inl e | (_, Inl e) \<Rightarrow> Inl e)"

subsection \<open>The table invariant\<close>

definition tickets_ok :: "ticket list \<Rightarrow> bool" where
  "tickets_ok rows \<longleftrightarrow> distinct (map tk_id rows) \<and> uniq_on open_slot rows
     \<and> list_all (\<lambda>t. (tk_resolved t \<noteq> None) = (tk_status t = TResolved)) rows"

interpretation tk: keyed_insert ticket_insert open_slot
  by (rule keyed_insertI) (simp add: ticket_insert_def)

lemma open_slot_Some:
  "open_slot t = Some (u, w) \<longleftrightarrow> tk_user t = u \<and> tk_title t = w
     \<and> (tk_status t = TPending \<or> tk_status t = TProcessing)"
  by (cases "tk_status t") (auto simp: open_slot_def is_open_def)

lemma find_open_duplicate_slot:
  "find_open_duplicate u w rows = find (\<lambda>t. open_slot t = Some (u, w)) rows"
  unfolding find_open_duplicate_def by (rule arg_cong2 [where f = find]) (auto simp: open_slot_Some)

lemma find_open_duplicate_iff:
  "find_open_duplicate u w rows = Some t \<Longrightarrow> t \<in> set rows \<and> open_slot t = Some (u, w)"
  "find_open_duplicate u w rows = None \<longleftrightarrow> (\<forall>t \<in> set rows. open_slot t \<noteq> Some (u, w))"
  by (auto simp: find_open_duplicate_slot find_None_iff' dest: hd_filter_find)

lemma find_duplicate_iff:
  "find_duplicate now u w h rows = Some t \<Longrightarrow> t \<in> set rows \<and> open_slot t = Some (u, w)"
  by (auto simp: find_duplicate_def open_slot_Some dest!: hd_filter_find)

lemma new_ticket_slot [simp]:
  "tk_status t = TPending \<Longrightarrow> open_slot (t\<lparr>tk_id := i\<rparr>) = Some (tk_user t, tk_title t)"
  by (simp add: open_slot_def is_open_def)

definition wants :: "ticket \<Rightarrow> bool" where
  "wants t \<longleftrightarrow> tk_status t = TPending \<and> tk_resolved t = None"

lemma new_ticket_wants: "wants (new_ticket now u ty w d p c j)"
  by (simp add: wants_def new_ticket_def)

lemma ticket_insert_ok:
  assumes "wants t" "tickets_ok rows" "i \<notin> tk_id ` set rows"
    and "ticket_insert (t\<lparr>tk_id := i\<rparr>) rows = Some rows'"
  shows "tickets_ok rows' \<and> rows' = rows @ [t\<lparr>tk_id := i\<rparr>]
     \<and> row_of tk_id i rows' = Some (t\<lparr>tk_id := i\<rparr>)"
proof -
  have eq: "rows' = rows @ [t\<lparr>tk_id := i\<rparr>]" using assms(4) by (rule tk.ins_Some)
  have "uniq_on open_slot rows'" using assms(2,4) tk.ins_uniq by (auto simp: tickets_ok_def)
  moreover have "row_of tk_id i rows = None" using assms(3) by (simp add: row_of_None)
  ultimately show ?thesis using eq assms(1-3)
    by (auto simp: tickets_ok_def wants_def row_of_append row_of_Cons)
qed

text \<open>Without interference the first attempt decides.\<close>

lemma ticket_create_quiet:
  assumes "wants t" "tickets_ok rows" "i \<notin> tk_id ` set rows"
  shows "\<exists>r rows'. ticket_create (i, id) b t rows = (Inr r, rows') \<and> tickets_ok rows'
     \<and> r \<in> set rows' \<and> open_slot r = Some (tk_user t, tk_title t)
     \<and> rows' = (if \<exists>x \<in> set rows. open_slot x = Some (tk_user t, tk_title t) then rows
         else rows @ [t\<lparr>tk_id := i\<rparr>])"
proof (cases "ticket_insert (t\<lparr>tk_id := i\<rparr>) rows")
  case None
  then obtain x where x: "x \<in> set rows" "open_slot x = Some (tk_user t, tk_title t)"
    using tk.ins_None [OF None] assms(1) by (auto simp: wants_def)
  then obtain e where e: "find_open_duplicate (tk_user t) (tk_title t) rows = Some e"
    using find_open_duplicate_iff(2) by (metis not_None_eq)
  then have "ticket_create (i, id) b t rows = (Inr e, rows)"
    using None by (simp add: ticket_create_def)
  then show ?thesis using x assms(2) find_open_duplicate_iff(1) [OF e] by auto
next
  case (Some rows')
  note ok = ticket_insert_ok [OF assms Some]
  have "\<not> (\<exists>x \<in> set rows. open_slot x = Some (tk_user t, tk_title t))"
  proof
    assume "\<exists>x \<in> set rows. open_slot x = Some (tk_user t, tk_title t)"
    then obtain x where "x \<in> set rows" "open_slot x = Some (tk_user t, tk_title t)" by blast
    then have "ticket_insert (t\<lparr>tk_id := i\<rparr>) rows = None"
      using tk.ins_taken assms(1) by (auto simp: wants_def)
    with Some show False by simp
  qed
  then show ?thesis using Some ok assms(1) by (auto simp: ticket_create_def wants_def)
qed

text \<open>
  C27: creating a ticket. With fresh ids and no concurrent commit in between, a request always
  gets a ticket: one that is open, belongs to the user and has the title asked for. If the user
  has an open ticket with that title the table is unchanged, otherwise the new row is appended;
  the invariant holds afterwards, so there is still at most one open ticket per user and title.
  The counter says "created" exactly when no recent duplicate was found, so it also counts a
  request that only found an open ticket older than a day.
\<close>

theorem service_create_contract:
  assumes "wants t" "tickets_ok rows" "i \<notin> tk_id ` set rows"
  shows "\<exists>r rows'. service_create (i, id) b t rows =
       (Inr r, rows', find_duplicate (tk_created t) (tk_user t) (tk_title t) 24 rows = None)
     \<and> tickets_ok rows' \<and> r \<in> set rows' \<and> open_slot r = Some (tk_user t, tk_title t)
     \<and> rows' = (if \<exists>x \<in> set rows. open_slot x = Some (tk_user t, tk_title t) then rows
         else rows @ [t\<lparr>tk_id := i\<rparr>])"
proof (cases "find_duplicate (tk_created t) (tk_user t) (tk_title t) 24 rows")
  case None
  obtain r rows' where c: "ticket_create (i, id) b t rows = (Inr r, rows')" and rest:
    "tickets_ok rows'" "r \<in> set rows'" "open_slot r = Some (tk_user t, tk_title t)"
    "rows' = (if \<exists>x \<in> set rows. open_slot x = Some (tk_user t, tk_title t) then rows
       else rows @ [t\<lparr>tk_id := i\<rparr>])"
    using ticket_create_quiet [OF assms, of b] by blast
  have "service_create (i, id) b t rows = (Inr r, rows', True)"
    using None c by (simp add: service_create_def)
  with None rest show ?thesis by (intro exI [of _ r] exI [of _ rows']) simp
next
  case (Some d)
  then show ?thesis using find_duplicate_iff [OF Some] assms(2)
    by (auto simp: service_create_def)
qed

definition sample_ticket :: ticket where
  "sample_ticket = new_ticket 90000 4 ''complaint'' (asc ''late'') None PHigh None None"

theorem service_create_contract_witness:
  "\<exists>r rows'. service_create (8, id) (9, id) sample_ticket [sample_ticket\<lparr>tk_id := 1, tk_created := 0\<rparr>]
     = (Inr r, rows', True) \<and> length rows' = 1"
proof -
  let ?rows = "[sample_ticket\<lparr>tk_id := 1, tk_created := 0\<rparr>]"
  have "wants sample_ticket" by (simp add: sample_ticket_def new_ticket_wants)
  moreover have "tickets_ok ?rows"
    by (simp add: tickets_ok_def sample_ticket_def new_ticket_def uniq_on_Cons open_slot_def is_open_def)
  moreover have "8 \<notin> tk_id ` set ?rows" by simp
  moreover have "find_duplicate (tk_created sample_ticket) (tk_user sample_ticket)
      (tk_title sample_ticket) 24 ?rows = None"
    by (simp add: find_duplicate_def sample_ticket_def new_ticket_def)
  moreover have "open_slot (sample_ticket\<lparr>tk_id := 1, tk_created := 0\<rparr>)
      = Some (tk_user sample_ticket, tk_title sample_ticket)"
    by (simp add: open_slot_def is_open_def sample_ticket_def new_ticket_def)
  ultimately show ?thesis
    using service_create_contract [of sample_ticket ?rows 8 "(9, id)"] by auto
qed

text \<open>
  With interference the outcome is still safe: a ticket that is returned is open for this user
  and title at that moment, and failing takes a conflicting ticket that vanishes twice.
\<close>

lemma create_attempts_sound:
  "wants t \<Longrightarrow> create_attempts as t rows = (Inr r, rows') \<Longrightarrow>
   r \<in> set rows' \<and> (open_slot r = Some (tk_user t, tk_title t) \<or> tk_id r \<in> fst ` set as)"
  by (induction as t rows rule: create_attempts.induct)
    (auto split: option.splits dest: row_of_Some find_open_duplicate_iff(1) simp: Let_def)

subsection \<open>Updates keep the invariant\<close>

lemma with_status_id [simp]: "tk_id (with_status now s t) = tk_id t"
  by (simp add: with_status_def)

lemma apply_update_id [simp]: "tk_id (apply_update now s a p c f t) = tk_id t"
  by (simp add: apply_update_def Let_def split: option.splits)

lemma apply_update_fields [simp]:
  "tk_user (apply_update now s a p c f t) = tk_user t"
  "tk_title (apply_update now s a p c f t) = tk_title t"
  "tk_type (apply_update now s a p c f t) = tk_type t"
  "tk_conv (apply_update now s a p c f t) = tk_conv t"
  "tk_desc (apply_update now s a p c f t) = tk_desc t"
  "tk_created (apply_update now s a p c f t) = tk_created t"
  by (simp_all add: apply_update_def with_status_def Let_def split: option.splits)

lemma apply_update_status:
  "tk_status (apply_update now s a p c f t) =
    (if ''status'' \<in> set f then or_else s (tk_status t) else tk_status t)"
  "tk_resolved (apply_update now s a p c f t) =
    (if ''status'' \<in> set f \<and> s \<noteq> None
     then (if s = Some TResolved then Some now else None) else tk_resolved t)"
  "tk_assignee (apply_update now s a p c f t) = (if ''assignee'' \<in> set f then a else tk_assignee t)"
  "tk_priority (apply_update now s a p c f t) =
    (if ''priority'' \<in> set f then or_else p (tk_priority t) else tk_priority t)"
  by (simp_all add: apply_update_def with_status_def Let_def split: option.splits)

lemma flush_keeps:
  assumes "tickets_ok rows" "\<And>t. tk_id (f t) = tk_id t"
    and "\<And>t. (tk_resolved t \<noteq> None) = (tk_status t = TResolved) \<Longrightarrow>
       (tk_resolved (f t) \<noteq> None) = (tk_status (f t) = TResolved)"
    and "ticket_flush (set_row tk_id i f rows) = Inr rows'"
  shows "tickets_ok rows' \<and> rows' = set_row tk_id i f rows"
proof -
  have eq: "rows' = set_row tk_id i f rows" "uniq_on open_slot rows'"
    using assms(4) by (auto simp: ticket_flush_def split: if_splits)
  have "list_all (\<lambda>t. (tk_resolved t \<noteq> None) = (tk_status t = TResolved)) rows'"
    unfolding eq(1) using assms(1,3) by (intro set_row_all) (auto simp: tickets_ok_def)
  then show ?thesis using assms(1) eq map_set_row [of tk_id f i rows, OF assms(2)]
    by (simp add: tickets_ok_def)
qed

lemma resolved_after [simp]:
  "(tk_resolved t \<noteq> None) = (tk_status t = TResolved) \<Longrightarrow>
   (tk_resolved (apply_update now s a p c f t) \<noteq> None)
     = (tk_status (apply_update now s a p c f t) = TResolved)"
  "(tk_resolved (with_status now st t) \<noteq> None) = (tk_status (with_status now st t) = TResolved)"
  by (cases s; auto simp: apply_update_status with_status_def)+

lemmas update_flush = flush_keeps [where f = "apply_update now s a p c f" for now s a p c f,
  OF _ apply_update_id resolved_after(1)]
lemmas status_flush = flush_keeps [where f = "with_status now s" for now s,
  OF _ with_status_id resolved_after(2)]

lemma service_update_keeps:
  "tickets_ok rows \<Longrightarrow> service_update now i u s a p c f rows = Inr (res, rows') \<Longrightarrow> tickets_ok rows'"
  by (auto simp: service_update_def Let_def split: option.splits if_splits sum.splits
      dest: update_flush)

lemma repo_update_status_keeps:
  "tickets_ok rows \<Longrightarrow> repo_update_status now i s rows = Inr (res, rows') \<Longrightarrow> tickets_ok rows'"
  by (auto simp: repo_update_status_def split: option.splits sum.splits dest: status_flush)

subsection \<open>Permissions\<close>

lemma get_for_actor_Some:
  "get_ticket_for_actor i u rows = Some t \<longleftrightarrow>
   row_of tk_id i rows = Some t \<and> (is_staff u \<or> tk_user t = us_id u)"
  by (auto simp: get_ticket_for_actor_def split: option.splits)

text \<open>What a change may do to a ticket, by who makes it.\<close>

definition allowed_change :: "user \<Rightarrow> ticket \<Rightarrow> ticket \<Rightarrow> bool" where
  "allowed_change u old t \<longleftrightarrow> tk_id t = tk_id old \<and> tk_user t = tk_user old
     \<and> tk_title t = tk_title old \<and> tk_type t = tk_type old \<and> tk_conv t = tk_conv old
     \<and> (is_staff u \<or> tk_assignee t = tk_assignee old \<and> tk_priority t = tk_priority old
          \<and> (tk_status t = tk_status old \<or> tk_status t = TClosed))"

lemma service_update_Some:
  assumes "service_update now i u s a p c f rows = Inr (Some t, rows')"
  shows "\<exists>old. row_of tk_id i rows = Some old \<and> (is_staff u \<or> tk_user old = us_id u)
     \<and> allowed_change u old t \<and> (''status'' \<notin> set f \<longrightarrow> tk_status t = tk_status old)
     \<and> row_of tk_id i rows' = Some t \<and> (\<forall>j. j \<noteq> i \<longrightarrow> row_of tk_id j rows' = row_of tk_id j rows)"
proof -
  obtain old where old: "row_of tk_id i rows = Some old" "is_staff u \<or> tk_user old = us_id u"
    and ok: "is_staff u \<or> ''assignee'' \<notin> set f \<and> ''priority'' \<notin> set f
       \<and> (''status'' \<in> set f \<longrightarrow> s = Some TClosed)"
    and t: "t = apply_update now (if ''status'' \<in> set f then s else None) a
       (if ''priority'' \<in> set f then p else None) c f old"
    and r: "rows' = set_row tk_id i (apply_update now (if ''status'' \<in> set f then s else None) a
       (if ''priority'' \<in> set f then p else None) c f) rows"
    using assms by (auto simp: service_update_def Let_def get_for_actor_Some ticket_flush_def
        split: option.splits if_splits sum.splits)
  have "allowed_change u old t"
    using ok by (auto simp: allowed_change_def t apply_update_status)
  moreover have "''status'' \<notin> set f \<longrightarrow> tk_status t = tk_status old"
    by (simp add: t apply_update_status)
  moreover have "row_of tk_id i rows' = Some t"
    "\<forall>j. j \<noteq> i \<longrightarrow> row_of tk_id j rows' = row_of tk_id j rows"
    using old(1) by (simp_all add: r t row_of_set_row)
  ultimately show ?thesis using old by blast
qed

lemma patch_status_sent: "''status'' \<in> set (patch_fields b) \<longleftrightarrow> up_status b \<noteq> None"
  by (auto simp: patch_fields_def)

text \<open>
  C28: who may change what. An update either fails and leaves the tickets and the audit trail as
  they were, or changes the one ticket it names, which the actor may see (their own, or any for
  staff). A customer can only close the ticket and replace its content: assignee and priority
  stay, and the status stays or becomes closed. An audit row and a notification to the owner are
  produced exactly when the status changed. The table invariant is kept.
\<close>

theorem update_ticket_permissions:
  assumes "tickets_ok rows"
  shows "case router_update_ticket aid now tr i b u (rows, audits) of
     (Inl e, rows', audits') \<Rightarrow> rows' = rows \<and> audits' = audits
   | (Inr (t, ns), rows', audits') \<Rightarrow>
       (\<exists>old. row_of tk_id i rows = Some old \<and> (is_staff u \<or> tk_user old = us_id u)
          \<and> allowed_change u old t \<and> row_of tk_id i rows' = Some t
          \<and> (\<forall>j. j \<noteq> i \<longrightarrow> row_of tk_id j rows' = row_of tk_id j rows)
          \<and> ns = (if tk_status t = tk_status old then []
              else [(tk_user old, tk_id t, tk_status t, tk_conv old)])
          \<and> length audits' = length audits + length ns)
       \<and> tickets_ok rows'"
proof (cases "get_ticket_for_actor i u rows")
  case None
  then show ?thesis by (simp add: router_update_ticket_def)
next
  case (Some cur)
  let ?r = "service_update now i u (or_else (up_status b) None) (or_else (up_assignee b) None)
    (or_else (up_priority b) None) (or_else (up_content b) None) (patch_fields b) rows"
  show ?thesis
  proof (cases ?r)
    case (Inr tr')
    obtain ot rows' where r: "tr' = (ot, rows')" by (cases tr')
    show ?thesis
    proof (cases ot)
      case None
      then show ?thesis using Some Inr r by (simp add: router_update_ticket_def)
    next
      case t: (Some t)
      have r': "?r = Inr (Some t, rows')" using Inr r t by simp
      note keep = service_update_keeps [OF assms r']
      from service_update_Some [OF r'] Some
      have "row_of tk_id i rows = Some cur" "is_staff u \<or> tk_user cur = us_id u"
        "allowed_change u cur t" "''status'' \<notin> set (patch_fields b) \<longrightarrow> tk_status t = tk_status cur"
        "row_of tk_id i rows' = Some t" "\<forall>j. j \<noteq> i \<longrightarrow> row_of tk_id j rows' = row_of tk_id j rows"
        by (auto simp: get_for_actor_Some)
      then show ?thesis using Some r' keep
        by (auto simp: router_update_ticket_def patch_status_sent record_audit_def allowed_change_def)
    qed
  qed (use Some in \<open>simp add: router_update_ticket_def\<close>)
qed

theorem update_ticket_permissions_witness:
  "case router_update_ticket 1 0 '''' 8 \<lparr>up_status = Some (Some TClosed), up_assignee = None,
       up_priority = None, up_content = None\<rparr>
       \<lparr>us_id = 4, us_name = [], us_role = RUser, us_active = True\<rparr>
       ([sample_ticket\<lparr>tk_id := 8\<rparr>], []) of
     (Inl e, rows', audits') \<Rightarrow> rows' = [sample_ticket\<lparr>tk_id := 8\<rparr>] \<and> audits' = []
   | (Inr (t, ns), rows', audits') \<Rightarrow> tickets_ok rows'"
proof -
  have "tickets_ok [sample_ticket\<lparr>tk_id := 8\<rparr>]"
    by (simp add: tickets_ok_def sample_ticket_def new_ticket_def uniq_on_Cons open_slot_def is_open_def)
  from update_ticket_permissions [OF this, where aid = 1 and now = 0 and tr = "[]" and i = 8
      and audits = "[]" and b = "\<lparr>up_status = Some (Some TClosed), up_assignee = None,
        up_priority = None, up_content = None\<rparr>"
      and u = "\<lparr>us_id = 4, us_name = [], us_role = RUser, us_active = True\<rparr>"]
  show ?thesis by (auto split: prod.splits sum.splits)
qed

subsection \<open>Visibility\<close>

lemma filtered_user:
  "build_filtered_query idtext (Some u) f rows = Inr rs \<Longrightarrow>
   set rs \<subseteq> {t \<in> set rows. tk_user t = u}"
  by (auto simp: build_filtered_query_def split: option.splits)

lemma filtered_sub: "build_filtered_query idtext w f rows = Inr rs \<Longrightarrow> set rs \<subseteq> set rows"
  by (auto simp: build_filtered_query_def split: option.splits)

lemma filtered_err: "build_filtered_query idtext w f rows = Inl e \<Longrightarrow> e = ValueErr"
  by (auto simp: build_filtered_query_def split: option.splits)

lemma list_tickets_value:
  "list_tickets_for_actor idtext u limit offset f rows =
    (case build_filtered_query idtext (if is_staff u then None else Some (us_id u))
       (if is_staff u then f else \<lparr>tf_status = tf_status f, tf_priority = None, tf_assignee = None,
          tf_query = tf_query f\<rparr>) rows of
       Inl e \<Rightarrow> Inl e
     | Inr rs \<Rightarrow> Inr (page limit offset (newest_first tk_created rs), length rs))"
  by (simp add: list_tickets_for_actor_def list_for_staff_def count_for_staff_def list_by_user_def
      count_by_user_def split: sum.splits)

text \<open>
  What a list request shows. For any actor, filters and page, the rows listed are at most
  \<open>limit\<close>, newest first, and come from the table; for a customer every one of them is their own;
  and the total returned is the number of rows a large enough page would hold. The request fails
  only for a status or priority that does not exist.
\<close>

theorem list_tickets_visibility:
  "case list_tickets_for_actor idtext u limit offset f rows of
     Inl e \<Rightarrow> e = ValueErr
   | Inr (ts, n) \<Rightarrow> length ts \<le> limit \<and> set ts \<subseteq> set rows
       \<and> sorted_wrt (\<lambda>x y. tk_created y \<le> tk_created x) ts
       \<and> (is_staff u \<or> (\<forall>t \<in> set ts. tk_user t = us_id u))
       \<and> (\<forall>l. n \<le> l \<longrightarrow> (\<exists>all. list_tickets_for_actor idtext u l 0 f rows = Inr (all, n)
            \<and> length all = n))"
proof (cases "build_filtered_query idtext (if is_staff u then None else Some (us_id u))
    (if is_staff u then f else \<lparr>tf_status = tf_status f, tf_priority = None, tf_assignee = None,
       tf_query = tf_query f\<rparr>) rows")
  case (Inl e)
  then show ?thesis using filtered_err [OF Inl] by (simp add: list_tickets_value)
next
  case (Inr rs)
  let ?ts = "page limit offset (newest_first tk_created rs)"
  have "set ?ts \<subseteq> set rs" using set_page [of limit offset "newest_first tk_created rs"] by simp
  moreover have "set rs \<subseteq> set rows" using Inr by (rule filtered_sub)
  moreover have "sorted_wrt (\<lambda>x y. tk_created y \<le> tk_created x) ?ts"
    by (simp add: page_def sorted_wrt_take sorted_wrt_drop sorted_newest_first)
  moreover have "is_staff u \<or> (\<forall>t \<in> set rs. tk_user t = us_id u)"
    using Inr filtered_user [of idtext "us_id u" _ rows rs] by fastforce
  moreover have "page l 0 (newest_first tk_created rs) = newest_first tk_created rs"
    if "length rs \<le> l" for l using that by (simp add: page_def)
  ultimately show ?thesis using Inr by (auto simp: list_tickets_value length_page)
qed

theorem list_tickets_visibility_witness:
  "case list_tickets_for_actor (\<lambda>_. []) \<lparr>us_id = 5, us_name = [], us_role = RUser, us_active = True\<rparr>
      20 0 \<lparr>tf_status = None, tf_priority = None, tf_assignee = None, tf_query = None\<rparr> [sample_ticket] of
     Inl e \<Rightarrow> e = ValueErr | Inr (ts, n) \<Rightarrow> length ts \<le> 20"
  (is "case ?l of Inl e \<Rightarrow> _ e | Inr q \<Rightarrow> _ q")
proof (cases ?l)
  case (Inl e)
  then show ?thesis using list_tickets_visibility [where rows = "[sample_ticket]" and limit = 20
      and offset = 0 and idtext = "\<lambda>_. []"
      and u = "\<lparr>us_id = 5, us_name = [], us_role = RUser, us_active = True\<rparr>"
      and f = "\<lparr>tf_status = None, tf_priority = None, tf_assignee = None, tf_query = None\<rparr>"]
    by simp
next
  case (Inr q)
  then show ?thesis using list_tickets_visibility [where rows = "[sample_ticket]" and limit = 20
      and offset = 0 and idtext = "\<lambda>_. []"
      and u = "\<lparr>us_id = 5, us_name = [], us_role = RUser, us_active = True\<rparr>"
      and f = "\<lparr>tf_status = None, tf_priority = None, tf_assignee = None, tf_query = None\<rparr>"]
    by (simp add: case_prod_beta)
qed

end
