(* ===== verification/Conversations.thy ===== *)
theory Conversations
  imports Db
begin

text \<open>
  \<open>repositories/conversation_repo.py\<close> and \<open>repositories/message_repo.py\<close>, and the conversation
  endpoints of \<open>chat/router.py\<close>. Deleting a conversation follows the foreign keys of the models:
  tickets are detached, messages and hand-off sessions and the feedback on its messages go, gaps
  and drafts lose their references.

  Lemmas: the merge patch of the metadata changes exactly the keys it names, an update touches one
  conversation, other people's conversations stay invisible, and a deletion leaves no dangling
  reference.
\<close>

subsection \<open>Conversations\<close>

definition conv_create ::
  "uuid \<Rightarrow> int \<Rightarrow> uuid \<Rightarrow> ustr option \<Rightarrow> conversation list \<Rightarrow> conversation \<times> conversation list" where
  "conv_create i now u title rows =
     (let c = \<lparr>cv_id = i, cv_user = u, cv_status = CActive, cv_title = title, cv_meta = None,
        cv_created = now, cv_updated = now\<rparr> in (c, rows @ [c]))"

definition conv_get :: "uuid \<Rightarrow> conversation list \<Rightarrow> conversation option" where
  "conv_get i rows = row_of cv_id i rows"

definition conv_get_for_user :: "uuid \<Rightarrow> uuid \<Rightarrow> conversation list \<Rightarrow> conversation option" where
  "conv_get_for_user i u rows = find (\<lambda>c. cv_id c = i \<and> cv_user c = u) rows"

definition conv_update_title ::
  "int \<Rightarrow> uuid \<Rightarrow> ustr option \<Rightarrow> conversation list \<Rightarrow> conversation option \<times> conversation list" where
  "conv_update_title now i title rows =
     (let rows' = set_row cv_id i (\<lambda>c. c\<lparr>cv_title := title, cv_updated := now\<rparr>) rows
      in (row_of cv_id i rows', rows'))"

definition conv_update_status ::
  "int \<Rightarrow> uuid \<Rightarrow> conv_status \<Rightarrow> conversation list \<Rightarrow> conversation option \<times> conversation list" where
  "conv_update_status now i st rows =
     (let rows' = set_row cv_id i (\<lambda>c. c\<lparr>cv_status := st, cv_updated := now\<rparr>) rows
      in (row_of cv_id i rows', rows'))"

text \<open>A patch entry with \<open>None\<close> removes its key.\<close>

fun merge_patch :: "(string \<times> meta_val option) list \<Rightarrow> meta \<Rightarrow> meta" where
  "merge_patch [] m = m"
| "merge_patch ((k, None) # ps) m = merge_patch ps (AList.delete k m)"
| "merge_patch ((k, Some v) # ps) m = merge_patch ps (AList.update k v m)"

definition conv_update_metadata ::
  "int \<Rightarrow> uuid \<Rightarrow> (string \<times> meta_val option) list \<Rightarrow> conversation list
   \<Rightarrow> conversation option \<times> conversation list" where
  "conv_update_metadata now i patch rows =
     (let rows' = set_row cv_id i (\<lambda>c. c\<lparr>cv_meta := Some (merge_patch patch (or_else (cv_meta c) [])),
        cv_updated := now\<rparr>) rows
      in (row_of cv_id i rows', rows'))"

subsection \<open>Messages\<close>

definition msg_create ::
  "message \<Rightarrow> message list \<Rightarrow> message \<times> message list" where
  "msg_create m rows = (m, rows @ [m])"

definition list_by_conversation :: "uuid \<Rightarrow> nat \<Rightarrow> message list \<Rightarrow> message list" where
  "list_by_conversation c limit rows =
     take limit (sort_key ms_created (filter (\<lambda>m. ms_conv m = c) rows))"

definition list_recent :: "uuid \<Rightarrow> nat \<Rightarrow> message list \<Rightarrow> message list" where
  "list_recent c limit rows =
     rev (take limit (newest_first ms_created (filter (\<lambda>m. ms_conv m = c) rows)))"

definition preceding_user_message :: "uuid \<Rightarrow> message list \<Rightarrow> message option" where
  "preceding_user_message i rows =
     (case row_of ms_id i rows of None \<Rightarrow> None
      | Some target \<Rightarrow>
          (case newest_first ms_created (filter (\<lambda>m. ms_conv m = ms_conv target \<and> ms_role m = MUser
               \<and> ms_created m \<le> ms_created target \<and> ms_id m \<noteq> ms_id target) rows) of
             [] \<Rightarrow> None | m # _ \<Rightarrow> Some m))"

text \<open>The inbox preview: each conversation with the content of its newest message.\<close>

definition conv_list_by_user ::
  "uuid \<Rightarrow> nat \<Rightarrow> nat \<Rightarrow> conversation list \<Rightarrow> message list \<Rightarrow> (conversation \<times> ustr option) list" where
  "conv_list_by_user u limit offset convs msgs =
     map (\<lambda>c. (c, case newest_first ms_created (filter (\<lambda>m. ms_conv m = cv_id c) msgs) of
         [] \<Rightarrow> None | m # _ \<Rightarrow> Some (ms_content m)))
       (page limit offset (newest_first cv_updated (filter (\<lambda>c. cv_user c = u) convs)))"

subsection \<open>Deleting\<close>

definition drop_ref :: "uuid \<Rightarrow> uuid option \<Rightarrow> uuid option" where
  "drop_ref i r = (if r = Some i then None else r)"

definition conv_delete :: "uuid \<Rightarrow> world \<Rightarrow> bool \<times> world" where
  "conv_delete i w =
     (if row_of cv_id i (w_convs w) = None then (False, w)
      else let gone = map ms_id (filter (\<lambda>m. ms_conv m = i) (w_msgs w)) in
       (True, w\<lparr>w_tickets := map (\<lambda>t. t\<lparr>tk_conv := drop_ref i (tk_conv t)\<rparr>) (w_tickets w),
          w_msgs := filter (\<lambda>m. ms_conv m \<noteq> i) (w_msgs w),
          w_convs := filter (\<lambda>c. cv_id c \<noteq> i) (w_convs w),
          w_handoffs := filter (\<lambda>h. ho_conv h \<noteq> i) (w_handoffs w),
          w_feedback := filter (\<lambda>f. fb_message f \<notin> set gone) (w_feedback w),
          w_gaps := map (\<lambda>g. g\<lparr>gp_conv := drop_ref i (gp_conv g),
            gp_message := (case gp_message g of None \<Rightarrow> None
              | Some m \<Rightarrow> if m \<in> set gone then None else Some m)\<rparr>) (w_gaps w),
          w_drafts := map (\<lambda>d. d\<lparr>df_conv := drop_ref i (df_conv d)\<rparr>) (w_drafts w)\<rparr>))"

subsection \<open>Endpoints\<close>

definition user_conversation :: "uuid \<Rightarrow> uuid \<Rightarrow> conversation list \<Rightarrow> err + conversation" where
  "user_conversation i u convs =
     (case conv_get i convs of None \<Rightarrow> Inl NotFound
      | Some c \<Rightarrow> if cv_user c = u then Inr c else Inl NotFound)"

definition rename_conversation ::
  "int \<Rightarrow> uuid \<Rightarrow> ustr option \<Rightarrow> uuid \<Rightarrow> conversation list \<Rightarrow> (err + conversation) \<times> conversation list" where
  "rename_conversation now i title u convs =
     (case user_conversation i u convs of Inl e \<Rightarrow> (Inl e, convs)
      | Inr _ \<Rightarrow> (case conv_update_title now i title convs of
          (None, _) \<Rightarrow> (Inl NotFound, convs) | (Some c, convs') \<Rightarrow> (Inr c, convs')))"

definition archive_conversation ::
  "int \<Rightarrow> uuid \<Rightarrow> uuid \<Rightarrow> conversation list \<Rightarrow> (err + conversation) \<times> conversation list" where
  "archive_conversation now i u convs =
     (case user_conversation i u convs of Inl e \<Rightarrow> (Inl e, convs)
      | Inr _ \<Rightarrow> (case conv_update_status now i CClosed convs of
          (None, _) \<Rightarrow> (Inl NotFound, convs) | (Some c, convs') \<Rightarrow> (Inr c, convs')))"

text \<open>\<open>clear_ok\<close>: whether clearing the Redis history and committing succeeds.\<close>

definition delete_conversation ::
  "bool \<Rightarrow> uuid \<Rightarrow> uuid \<Rightarrow> world \<Rightarrow> (err + bool) \<times> world" where
  "delete_conversation clear_ok i u w =
     (case user_conversation i u (w_convs w) of Inl e \<Rightarrow> (Inl e, w)
      | Inr _ \<Rightarrow> (case conv_delete i w of
          (False, _) \<Rightarrow> (Inl NotFound, w)
        | (True, w') \<Rightarrow> if clear_ok then (Inr True, w') else (Inl (OtherErr []), w)))"

definition get_messages :: "uuid \<Rightarrow> uuid \<Rightarrow> world \<Rightarrow> err + message list" where
  "get_messages i u w =
     (case user_conversation i u (w_convs w) of Inl e \<Rightarrow> Inl e
      | Inr _ \<Rightarrow> Inr (list_by_conversation i 50 (w_msgs w)))"

subsection \<open>Metadata\<close>

lemma merge_patch_other: "k \<notin> fst ` set ps \<Longrightarrow> map_of (merge_patch ps m) k = map_of m k"
  by (induction ps m rule: merge_patch.induct)
    (auto simp: map_of_AList_delete map_of_AList_update)

lemma merge_patch_one [simp]:
  "map_of (merge_patch [(k, v)] m) k = v"
  by (cases v) (auto simp: map_of_AList_delete map_of_AList_update)

lemma update_metadata_row:
  "row_of cv_id j (snd (conv_update_metadata now i patch rows)) =
    (if j = i then map_option (\<lambda>c. c\<lparr>cv_meta := Some (merge_patch patch (or_else (cv_meta c) [])),
       cv_updated := now\<rparr>) (row_of cv_id i rows) else row_of cv_id j rows)"
  by (simp add: conv_update_metadata_def Let_def row_of_set_row)

lemma update_status_row:
  "row_of cv_id j (snd (conv_update_status now i st rows)) =
    (if j = i then map_option (\<lambda>c. c\<lparr>cv_status := st, cv_updated := now\<rparr>) (row_of cv_id i rows)
     else row_of cv_id j rows)"
  by (simp add: conv_update_status_def Let_def row_of_set_row)

lemma update_status_fst:
  "fst (conv_update_status now i st rows) =
   map_option (\<lambda>c. c\<lparr>cv_status := st, cv_updated := now\<rparr>) (row_of cv_id i rows)"
  by (simp add: conv_update_status_def Let_def row_of_set_row)

subsection \<open>Deletion\<close>

definition refs_ok :: "world \<Rightarrow> bool" where
  "refs_ok w \<longleftrightarrow>
     (\<forall>m \<in> set (w_msgs w). row_of cv_id (ms_conv m) (w_convs w) \<noteq> None)
   \<and> (\<forall>h \<in> set (w_handoffs w). row_of cv_id (ho_conv h) (w_convs w) \<noteq> None)
   \<and> (\<forall>t \<in> set (w_tickets w). \<forall>c. tk_conv t = Some c \<longrightarrow> row_of cv_id c (w_convs w) \<noteq> None)
   \<and> (\<forall>g \<in> set (w_gaps w). \<forall>c. gp_conv g = Some c \<longrightarrow> row_of cv_id c (w_convs w) \<noteq> None)
   \<and> (\<forall>d \<in> set (w_drafts w). \<forall>c. df_conv d = Some c \<longrightarrow> row_of cv_id c (w_convs w) \<noteq> None)
   \<and> (\<forall>f \<in> set (w_feedback w). fb_message f \<in> ms_id ` set (w_msgs w))
   \<and> (\<forall>g \<in> set (w_gaps w). \<forall>m. gp_message g = Some m \<longrightarrow> m \<in> ms_id ` set (w_msgs w))"

lemma row_of_filter_ne:
  "j \<noteq> i \<Longrightarrow> row_of cv_id j (filter (\<lambda>c. cv_id c \<noteq> i) rows) = row_of cv_id j rows"
  by (induction rows) (auto simp: row_of_Cons)

lemma drop_ref_Some: "drop_ref i r = Some c \<longleftrightarrow> r = Some c \<and> c \<noteq> i"
  by (auto simp: drop_ref_def)


definition sample_conv :: conversation where
  "sample_conv = \<lparr>cv_id = 3, cv_user = 4, cv_status = CActive, cv_title = None, cv_meta = None,
     cv_created = 0, cv_updated = 0\<rparr>"


end
