(* ===== verification/Session.thy ===== *)
theory Session
  imports Db
begin

text \<open>
  \<open>chat/session.py\<close>: the Redis list of the last twenty messages of a conversation. The store is
  a function from conversations to lists; the expiry after a day is the operation \<open>clear\<close>.

  Lemmas: a list never holds more than twenty messages, and it holds the newest ones.
\<close>

type_synonym store = "uuid \<Rightarrow> history"

definition MAX_HISTORY :: nat where
  "MAX_HISTORY = 20"

definition get_history :: "uuid \<Rightarrow> store \<Rightarrow> history" where
  "get_history c st = take MAX_HISTORY (st c)"

definition add_message :: "uuid \<Rightarrow> ustr \<Rightarrow> ustr \<Rightarrow> store \<Rightarrow> store" where
  "add_message c role content st = st(c := last_n MAX_HISTORY (st c @ [(role, content)]))"

definition clear_history :: "uuid \<Rightarrow> store \<Rightarrow> store" where
  "clear_history c st = st(c := [])"

definition store_ok :: "store \<Rightarrow> bool" where
  "store_ok st \<longleftrightarrow> (\<forall>c. length (st c) \<le> MAX_HISTORY)"

lemma add_message_ok: "store_ok st \<Longrightarrow> store_ok (add_message c r t st)"
  by (simp add: store_ok_def add_message_def)

lemma clear_history_ok: "store_ok st \<Longrightarrow> store_ok (clear_history c st)"
  by (simp add: store_ok_def clear_history_def)

lemma get_history_ok: "store_ok st \<Longrightarrow> get_history c st = st c"
  by (simp add: store_ok_def get_history_def)

lemma add_message_other: "d \<noteq> c \<Longrightarrow> add_message c r t st d = st d"
  by (simp add: add_message_def)

lemma add_message_last: "last (add_message c r t st c) = (r, t)" "add_message c r t st c \<noteq> []"
  by (simp_all add: add_message_def last_n_append MAX_HISTORY_def)

text \<open>Adding many messages to an empty list keeps the last twenty of them, in order.\<close>

lemma add_many:
  "fold (\<lambda>m. add_message c (fst m) (snd m)) ms st c =
   (if ms = [] then st c else last_n MAX_HISTORY (st c @ ms))"
proof (induction ms arbitrary: st)
  case (Cons m ms)
  have "fold (\<lambda>m. add_message c (fst m) (snd m)) (m # ms) st c =
      (if ms = [] then last_n MAX_HISTORY (st c @ [m])
       else last_n MAX_HISTORY (last_n MAX_HISTORY (st c @ [m]) @ ms))"
    using Cons [of "add_message c (fst m) (snd m) st"] by simp (simp add: add_message_def)
  then show ?case by (simp add: last_n_absorb)
qed simp

end
