(* ===== verification/Handoffs.thy ===== *)
theory Handoffs
  imports Tickets Conversations Session
begin

text \<open>
  Human hand-off: \<open>repositories/handoff_repo.py\<close>, \<open>agent/handoff.py\<close> and the inbox of
  \<open>admin/handoff_router.py\<close>. A session is queued, claimed by one member of staff, and closed; a
  conversation has at most one open session (the partial unique index is \<open>ho_slot\<close>). The summary
  is what the model answered within the time limit, or nothing.

  Lemmas: the life cycle as a step relation that every operation refines, one winner per claim,
  the table invariant over every reachable table, and the sweep that turns a waiting session into
  a ticket and gives the conversation back.
\<close>

subsection \<open>The repository\<close>

definition ho_open :: "ho_status \<Rightarrow> bool" where
  "ho_open s \<longleftrightarrow> s = HQueued \<or> s = HClaimed"

definition ho_slot :: "handoff \<Rightarrow> uuid option" where
  "ho_slot h = (if ho_open (ho_status h) then Some (ho_conv h) else None)"

definition ho_insert :: "handoff \<Rightarrow> handoff list \<Rightarrow> handoff list option" where
  "ho_insert h rows = insert_guarded ho_slot h rows"

definition find_open_by_conversation :: "uuid \<Rightarrow> handoff list \<Rightarrow> handoff option" where
  "find_open_by_conversation c rows = find (\<lambda>h. ho_conv h = c \<and> ho_open (ho_status h)) rows"

definition ho_create ::
  "uuid \<Rightarrow> int \<Rightarrow> (handoff list \<Rightarrow> handoff list) \<Rightarrow> uuid \<Rightarrow> ustr \<Rightarrow> payload \<Rightarrow> handoff list
   \<Rightarrow> (err + handoff) \<times> handoff list" where
  "ho_create i now others c summary pl rows =
     (case ho_insert \<lparr>ho_id = i, ho_conv = c, ho_status = HQueued, ho_summary = summary,
          ho_payload = pl, ho_assignee = None, ho_claimed = None, ho_closed = None,
          ho_created = now\<rparr> rows of
        Some rows' \<Rightarrow>
          (case row_of ho_id i rows' of
             None \<Rightarrow> (Inl (RuntimeErr ''handoff_insert_lost_after_returning''), rows')
           | Some h \<Rightarrow> (Inr h, rows'))
      | None \<Rightarrow> (let rows2 = others rows in
          case find_open_by_conversation c rows2 of
            Some h \<Rightarrow> (Inr h, rows2)
          | None \<Rightarrow> (Inl (RuntimeErr ''handoff_create_conflict_unresolved''), rows2)))"

definition list_sessions :: "ho_status option \<Rightarrow> nat \<Rightarrow> nat \<Rightarrow> handoff list \<Rightarrow> handoff list" where
  "list_sessions st limit offset rows = page limit offset (newest_first ho_created
     (filter (\<lambda>h. case st of None \<Rightarrow> True | Some s \<Rightarrow> ho_status h = s) rows))"

definition count_sessions :: "ho_status option \<Rightarrow> handoff list \<Rightarrow> nat" where
  "count_sessions st rows =
     length (filter (\<lambda>h. case st of None \<Rightarrow> True | Some s \<Rightarrow> ho_status h = s) rows)"

text \<open>\<open>UPDATE ... WHERE id = i AND status = from ... RETURNING\<close>.\<close>

definition cond_update ::
  "uuid \<Rightarrow> ho_status \<Rightarrow> (handoff \<Rightarrow> handoff) \<Rightarrow> handoff list \<Rightarrow> handoff option \<times> handoff list" where
  "cond_update i from f rows =
     (case row_of ho_id i rows of None \<Rightarrow> (None, rows)
      | Some h \<Rightarrow> if ho_status h = from then (Some (f h), set_row ho_id i f rows) else (None, rows))"

definition ho_claim ::
  "uuid \<Rightarrow> uuid \<Rightarrow> int \<Rightarrow> handoff list \<Rightarrow> handoff option \<times> handoff list" where
  "ho_claim i who now rows = cond_update i HQueued
     (\<lambda>h. h\<lparr>ho_status := HClaimed, ho_assignee := Some who, ho_claimed := Some now\<rparr>) rows"

definition ho_close ::
  "uuid \<Rightarrow> ho_status \<Rightarrow> ho_status \<Rightarrow> int \<Rightarrow> handoff list \<Rightarrow> handoff option \<times> handoff list" where
  "ho_close i from to now rows =
     cond_update i from (\<lambda>h. h\<lparr>ho_status := to, ho_closed := Some now\<rparr>) rows"

text \<open>\<open>FOR UPDATE SKIP LOCKED\<close>: rows another sweeper holds are passed over.\<close>

definition sweep_expired :: "int \<Rightarrow> int \<Rightarrow> uuid list \<Rightarrow> handoff list \<Rightarrow> handoff list" where
  "sweep_expired now minutes locked rows = filter (\<lambda>h. ho_status h = HQueued
     \<and> ho_created h < now - minutes * 60 \<and> ho_id h \<notin> set locked) rows"

subsection \<open>Queueing a conversation\<close>

definition build_payload :: "idstr \<Rightarrow> uuid \<Rightarrow> world \<Rightarrow> payload" where
  "build_payload uid c w =
     (let msgs = list_recent c 10 (w_msgs w) in
      \<lparr>pl_recent = map (\<lambda>m. (ms_role m, ms_content m, ms_created m)) msgs,
       pl_intents = add_new [] (map the (filter (\<lambda>i. i \<noteq> None \<and> i \<noteq> Some '''') (map ms_intent msgs))),
       pl_user = uid, pl_start = map_option cv_created (row_of cv_id c (w_convs w)),
       pl_tickets = map tk_id (filter (\<lambda>t. tk_conv t = Some c) (w_tickets w)), pl_flags = None\<rparr>)"

definition summarize :: "ustr option \<Rightarrow> ustr option" where
  "summarize answer = (case answer of None \<Rightarrow> None
     | Some a \<Rightarrow> if strip a = [] then None else Some (strip a))"

definition enqueue ::
  "uuid \<Rightarrow> int \<Rightarrow> (handoff list \<Rightarrow> handoff list) \<Rightarrow> ustr option \<Rightarrow> agent_state \<Rightarrow> world
   \<Rightarrow> (err + handoff option) \<times> world" where
  "enqueue i now others answer s w =
     (case parse_uuid (conversation_id s) of None \<Rightarrow> (Inr None, w)
      | Some c \<Rightarrow>
        (let pl = build_payload (user_id s) c w; sm = summarize answer;
             pl' = (if sm = None
               then pl\<lparr>pl_flags := Some (or_else (pl_flags pl) [] @ [''summary_failed''])\<rparr> else pl);
             (r, rows) = ho_create i now others c (or_else sm []) pl' (w_handoffs w)
         in (case r of Inl e \<Rightarrow> Inl e | Inr h \<Rightarrow> Inr (Some h), w\<lparr>w_handoffs := rows\<rparr>)))"

subsection \<open>Sweeping\<close>

record sweep_env =
  sw_now :: int
  sw_fresh :: "uuid \<Rightarrow> uuid \<times> uuid"
  sw_text :: "uuid \<Rightarrow> ustr"

definition escalation_title :: "(uuid \<Rightarrow> ustr) \<Rightarrow> uuid \<Rightarrow> ustr" where
  "escalation_title idtext c = [20154, 24037, 25509, 31649, 36229, 26102, 65306, 20250, 35805, 32] @ idtext c"

definition escalation_ticket :: "sweep_env \<Rightarrow> conversation \<Rightarrow> handoff \<Rightarrow> ticket" where
  "escalation_ticket e c h = new_ticket (sw_now e) (cv_user c) ''handoff_timeout''
     (escalation_title (sw_text e) (ho_conv h))
     (Some (if ho_summary h = [] then [36716, 25509, 21518, 38271, 26102, 38388, 26080, 20154, 35748, 39046, 65292, 24050, 33258, 21160, 21319, 32423,
     20026, 24037, 21333, 36319, 36827, 12290] else ho_summary h))
     PHigh (Some (ho_conv h)) (Some (JDict [(''handoff_session_id'', JStr (sw_text e (ho_id h)))]))"

type_synonym push = "uuid \<times> frame"

definition escalate_expired ::
  "sweep_env \<Rightarrow> handoff \<Rightarrow> world \<Rightarrow> (err + push list) \<times> world" where
  "escalate_expired e h w =
     (let closed = snd (ho_close (ho_id h) HQueued HTimedOut (sw_now e) (w_handoffs w)) in
      case conv_get (ho_conv h) (w_convs w) of
        None \<Rightarrow> (Inr [], w\<lparr>w_handoffs := closed\<rparr>)
      | Some c \<Rightarrow>
         (let (a, b) = sw_fresh e (ho_id h) in
          case ticket_create (a, id) (b, id) (escalation_ticket e c h) (w_tickets w) of
            (Inl err, _) \<Rightarrow> (Inl err, w)
          | (Inr t, ts) \<Rightarrow>
              (Inr [(cv_user c, FHandoffUpdate (ho_conv h) ''timed_out'' None (Some (tk_id t)))],
               w\<lparr>w_tickets := ts, w_handoffs := closed,
                 w_convs := snd (conv_update_status (sw_now e) (ho_conv h) CActive (w_convs w))\<rparr>)))"

fun escalate_all :: "sweep_env \<Rightarrow> handoff list \<Rightarrow> world \<Rightarrow> (err + push list) \<times> world" where
  "escalate_all e [] w = (Inr [], w)"
| "escalate_all e (h # hs) w =
     (case escalate_expired e h w of
        (Inl err, w') \<Rightarrow> (Inl err, w')
      | (Inr ps, w') \<Rightarrow> (case escalate_all e hs w' of
          (Inl err, w2) \<Rightarrow> (Inl err, w2) | (Inr qs, w2) \<Rightarrow> (Inr (ps @ qs), w2)))"

text \<open>One transaction: an exception leaves the database as it was.\<close>

definition sweep_expired_handoffs ::
  "sweep_env \<Rightarrow> int \<Rightarrow> uuid list \<Rightarrow> world \<Rightarrow> (err + nat \<times> push list) \<times> world" where
  "sweep_expired_handoffs e minutes locked w =
     (let expired = sweep_expired (sw_now e) minutes locked (w_handoffs w) in
      case escalate_all e expired w of
        (Inl err, _) \<Rightarrow> (Inl err, w) | (Inr ps, w') \<Rightarrow> (Inr (length expired, ps), w'))"

subsection \<open>The inbox\<close>

fun ho_name :: "ho_status \<Rightarrow> string" where
  "ho_name HQueued = ''queued''"
| "ho_name HClaimed = ''claimed''"
| "ho_name HResolved = ''resolved''"
| "ho_name HReturned = ''returned''"
| "ho_name HTimedOut = ''timed_out''"

definition get_session :: "uuid \<Rightarrow> handoff list \<Rightarrow> err + handoff" where
  "get_session i rows = (case row_of ho_id i rows of None \<Rightarrow> Inl NotFound | Some h \<Rightarrow> Inr h)"

definition require_assignee :: "uuid \<Rightarrow> user \<Rightarrow> handoff list \<Rightarrow> err + handoff" where
  "require_assignee i u rows =
     (case get_session i rows of Inl e \<Rightarrow> Inl e
      | Inr h \<Rightarrow> if ho_status h \<noteq> HClaimed then Inl Conflict
          else if ho_assignee h \<noteq> Some (us_id u) then Inl Forbidden else Inr h)"

definition push_to_owner :: "world \<Rightarrow> handoff \<Rightarrow> frame \<Rightarrow> push list" where
  "push_to_owner w h f =
     (case conv_get (ho_conv h) (w_convs w) of None \<Rightarrow> [] | Some c \<Rightarrow> [(cv_user c, f)])"

definition list_handoffs ::
  "ho_status option \<Rightarrow> nat \<Rightarrow> nat \<Rightarrow> user \<Rightarrow> world \<Rightarrow> err + handoff list \<times> nat \<times> nat" where
  "list_handoffs st limit offset u w =
     (if \<not> is_staff u then Inl Forbidden
      else if limit = 0 \<or> 100 < limit then Inl Unprocessable
      else Inr (list_sessions st limit offset (w_handoffs w), count_sessions st (w_handoffs w),
        offset div limit + 1))"

definition get_handoff :: "uuid \<Rightarrow> user \<Rightarrow> world \<Rightarrow> err + handoff \<times> message list" where
  "get_handoff i u w =
     (if \<not> is_staff u then Inl Forbidden
      else case get_session i (w_handoffs w) of Inl e \<Rightarrow> Inl e
      | Inr h \<Rightarrow> Inr (h, list_by_conversation (ho_conv h) 50 (w_msgs w)))"

definition claim_handoff :: "int \<Rightarrow> uuid \<Rightarrow> user \<Rightarrow> world \<Rightarrow> (err + handoff \<times> push list) \<times> world" where
  "claim_handoff now i u w =
     (if \<not> is_staff u then (Inl Forbidden, w)
      else case get_session i (w_handoffs w) of Inl e \<Rightarrow> (Inl e, w)
      | Inr _ \<Rightarrow> (case ho_claim i (us_id u) now (w_handoffs w) of
          (None, _) \<Rightarrow> (Inl Conflict, w)
        | (Some h, rows) \<Rightarrow> (let w' = w\<lparr>w_handoffs := rows\<rparr> in
            (Inr (h, push_to_owner w' h
               (FHandoffUpdate (ho_conv h) (ho_name (ho_status h)) None None)), w'))))"

definition reply_handoff ::
  "uuid \<Rightarrow> int \<Rightarrow> uuid \<Rightarrow> ustr \<Rightarrow> user \<Rightarrow> world \<times> store
   \<Rightarrow> (err + handoff \<times> push list) \<times> world \<times> store" where
  "reply_handoff mid now i content u ws =
     (let (w, st) = ws in
      if \<not> is_staff u then (Inl Forbidden, ws)
      else if strip content = [] then (Inl Unprocessable, ws)
      else case require_assignee i u (w_handoffs w) of Inl e \<Rightarrow> (Inl e, ws)
      | Inr h \<Rightarrow>
         (let m = \<lparr>ms_id = mid, ms_conv = ho_conv h, ms_role = MStaff, ms_content = content,
                ms_intent = None, ms_confidence = None, ms_sources = None, ms_extra = None,
                ms_created = now\<rparr>;
              w' = w\<lparr>w_msgs := snd (msg_create m (w_msgs w))\<rparr>
          in (Inr (h, push_to_owner w' h (FStaff (ho_conv h) content (us_name u))), w',
              add_message (ho_conv h) (asc ''assistant'') content st)))"

definition resolve_handoff ::
  "int \<Rightarrow> uuid \<Rightarrow> ho_status \<Rightarrow> bool \<Rightarrow> user \<Rightarrow> world \<Rightarrow> (err + handoff \<times> push list) \<times> world" where
  "resolve_handoff now i to close u w =
     (if \<not> is_staff u then (Inl Forbidden, w)
      else if to \<noteq> HResolved \<and> to \<noteq> HReturned then (Inl Unprocessable, w)
      else case require_assignee i u (w_handoffs w) of Inl e \<Rightarrow> (Inl e, w)
      | Inr s \<Rightarrow> (case ho_close i HClaimed to now (w_handoffs w) of
          (None, _) \<Rightarrow> (Inl Conflict, w)
        | (Some h, rows) \<Rightarrow>
            (let w' = w\<lparr>w_handoffs := rows, w_convs := snd (conv_update_status now (ho_conv s)
                  (if close then CClosed else CActive) (w_convs w))\<rparr>
             in (Inr (h, push_to_owner w' h
                  (FHandoffUpdate (ho_conv h) (ho_name (ho_status h)) None None)), w'))))"

subsection \<open>The life cycle\<close>

inductive ho_step :: "ho_status \<Rightarrow> ho_status \<Rightarrow> bool" where
  claim: "ho_step HQueued HClaimed"
| resolve: "ho_step HClaimed HResolved"
| return: "ho_step HClaimed HReturned"
| expire: "ho_step HQueued HTimedOut"

code_pred ho_step .

inductive_simps ho_step_iff: "ho_step a b"
inductive_cases ho_stepE: "ho_step a b"

lemma ho_step_closed: "\<not> ho_open a \<Longrightarrow> \<not> ho_step a b"
  by (auto simp: ho_open_def elim: ho_stepE)

interpretation ho: keyed_insert ho_insert ho_slot
  by (rule keyed_insertI) (simp add: ho_insert_def)

text \<open>What the columns of a row say in each state.\<close>

definition ho_row_ok :: "handoff \<Rightarrow> bool" where
  "ho_row_ok h \<longleftrightarrow> (case ho_status h of
      HQueued \<Rightarrow> ho_assignee h = None \<and> ho_claimed h = None \<and> ho_closed h = None
    | HClaimed \<Rightarrow> ho_assignee h \<noteq> None \<and> ho_claimed h \<noteq> None \<and> ho_closed h = None
    | HTimedOut \<Rightarrow> ho_assignee h = None \<and> ho_closed h \<noteq> None
    | _ \<Rightarrow> ho_assignee h \<noteq> None \<and> ho_closed h \<noteq> None)"

definition handoffs_ok :: "handoff list \<Rightarrow> bool" where
  "handoffs_ok rows \<longleftrightarrow> distinct (map ho_id rows) \<and> uniq_on ho_slot rows \<and> list_all ho_row_ok rows"

lemma find_open_slot:
  "find_open_by_conversation c rows = find (\<lambda>h. ho_slot h = Some c) rows"
  unfolding find_open_by_conversation_def by (rule arg_cong2 [where f = find]) (auto simp: ho_slot_def)

lemma find_open_iff:
  "find_open_by_conversation c rows = Some h \<Longrightarrow> h \<in> set rows \<and> ho_slot h = Some c"
  "find_open_by_conversation c rows = None \<longleftrightarrow> (\<forall>h \<in> set rows. ho_slot h \<noteq> Some c)"
  by (auto simp: find_open_slot find_None_iff' dest: hd_filter_find)

lemma cond_update_ok:
  assumes "handoffs_ok rows" "\<And>h. ho_id (f h) = ho_id h"
    and "\<And>h. ho_row_ok h \<Longrightarrow> ho_status h = from \<Longrightarrow> ho_row_ok (f h)"
    and "\<And>h. ho_status h = from \<Longrightarrow> ho_slot (f h) = ho_slot h \<or> ho_slot (f h) = None"
  shows "handoffs_ok (snd (cond_update i from f rows))"
proof (cases "row_of ho_id i rows")
  case (Some h)
  show ?thesis
  proof (cases "ho_status h = from")
    case True
    have only: "ho_status x = from" if "x \<in> set rows" "ho_id x = i" for x
      using row_of_unique [of ho_id rows x] that assms(1) Some True by (simp add: handoffs_ok_def)
    let ?g = "\<lambda>x. if ho_id x = i then f x else x"
    have "uniq_on ho_slot (map ?g rows)"
      using assms(1,4) only by (intro uniq_on_map) (auto simp: handoffs_ok_def)
    moreover have "list_all ho_row_ok (map ?g rows)"
      using assms(1,3) only by (auto simp: handoffs_ok_def list_all_iff)
    moreover have "map ho_id (map ?g rows) = map ho_id rows"
      using assms(2) map_set_row [of ho_id f i rows] by (simp only: set_row_def)
    ultimately show ?thesis using Some True assms(1)
      by (simp add: cond_update_def handoffs_ok_def set_row_def del: map_map)
  qed (use Some assms(1) in \<open>simp add: cond_update_def\<close>)
qed (use assms(1) in \<open>simp add: cond_update_def\<close>)

lemma ho_claim_ok: "handoffs_ok rows \<Longrightarrow> handoffs_ok (snd (ho_claim i who now rows))"
  unfolding ho_claim_def by (rule cond_update_ok) (auto simp: ho_row_ok_def ho_slot_def ho_open_def)

lemma ho_close_ok:
  "handoffs_ok rows \<Longrightarrow> ho_step from to \<Longrightarrow> \<not> ho_open to \<Longrightarrow> handoffs_ok (snd (ho_close i from to now rows))"
  unfolding ho_close_def by (rule cond_update_ok)
    (auto simp: ho_row_ok_def ho_slot_def ho_open_def ho_step_iff)

lemma ho_create_ok:
  assumes "handoffs_ok rows" "i \<notin> ho_id ` set rows"
  shows "\<exists>h rows'. ho_create i now id c sm pl rows = (Inr h, rows') \<and> handoffs_ok rows'
     \<and> h \<in> set rows' \<and> ho_slot h = Some c
     \<and> (if \<exists>x \<in> set rows. ho_slot x = Some c then rows' = rows
        else rows' = rows @ [h] \<and> ho_id h = i \<and> ho_status h = HQueued)"
proof -
  let ?h = "\<lparr>ho_id = i, ho_conv = c, ho_status = HQueued, ho_summary = sm, ho_payload = pl,
    ho_assignee = None, ho_claimed = None, ho_closed = None, ho_created = now\<rparr>"
  have slot: "ho_slot ?h = Some c" by (simp add: ho_slot_def ho_open_def)
  show ?thesis
  proof (cases "ho_insert ?h rows")
    case None
    then obtain x where x: "x \<in> set rows" "ho_slot x = Some c"
      using ho.ins_None [OF None] slot by auto
    then obtain e where e: "find_open_by_conversation c rows = Some e"
      using find_open_iff(2) by (metis not_None_eq)
    then show ?thesis using None x assms(1) find_open_iff(1) [OF e] by (auto simp: ho_create_def)
  next
    case (Some rows')
    have eq: "rows' = rows @ [?h]" using Some by (rule ho.ins_Some)
    have no: "\<not> (\<exists>x \<in> set rows. ho_slot x = Some c)"
      using Some slot ho.ins_taken [of _ rows ?h c] by auto
    have "row_of ho_id i rows = None" using assms(2) by (simp add: row_of_None)
    then have r: "row_of ho_id i rows' = Some ?h" by (simp add: eq row_of_append row_of_Cons)
    have "uniq_on ho_slot rows'" using assms(1) Some ho.ins_uniq by (auto simp: handoffs_ok_def)
    then have "handoffs_ok rows'" using assms eq by (auto simp: handoffs_ok_def ho_row_ok_def)
    then show ?thesis using Some eq no r slot by (auto simp: ho_create_def)
  qed
qed

subsection \<open>Every reachable table\<close>

text \<open>What any sequence of requests and sweeps, from any worker, can do to the table.\<close>

inductive ho_reach :: "handoff list \<Rightarrow> bool" where
  start: "ho_reach []"
| queue: "ho_reach rows \<Longrightarrow> i \<notin> ho_id ` set rows \<Longrightarrow>
    ho_reach (snd (ho_create i now id c sm pl rows))"
| claimed: "ho_reach rows \<Longrightarrow> ho_reach (snd (ho_claim i who now rows))"
| resolved: "ho_reach rows \<Longrightarrow> ho_reach (snd (ho_close i HClaimed HResolved now rows))"
| returned: "ho_reach rows \<Longrightarrow> ho_reach (snd (ho_close i HClaimed HReturned now rows))"
| expired: "ho_reach rows \<Longrightarrow> ho_reach (snd (ho_close i HQueued HTimedOut now rows))"
| deleted: "ho_reach rows \<Longrightarrow> ho_reach (filter (\<lambda>h. ho_conv h \<noteq> c) rows)"

lemma ho_reach_ok: "ho_reach rows \<Longrightarrow> handoffs_ok rows"
proof (induction rule: ho_reach.induct)
  case start
  then show ?case by (simp add: handoffs_ok_def)
next
  case (queue rows i now c sm pl)
  then show ?case using ho_create_ok [of rows i now c sm pl] by auto
next
  case (deleted rows c)
  then show ?case
    by (auto simp: handoffs_ok_def uniq_on_filter list_all_iff distinct_map_filter)
qed (simp_all add: ho_claim_ok ho_close_ok ho_step_iff ho_open_def)

lemma cond_update_row:
  assumes "\<And>h. ho_id (f h) = ho_id h"
  shows "row_of ho_id j (snd (cond_update i from f rows)) =
    (case row_of ho_id j rows of None \<Rightarrow> None
     | Some h \<Rightarrow> Some (if j = i \<and> ho_status h = from then f h else h))"
  using assms by (auto simp: cond_update_def row_of_set_row split: option.splits)

lemma claim_row:
  "row_of ho_id j (snd (ho_claim i who now rows)) =
    (case row_of ho_id j rows of None \<Rightarrow> None
     | Some h \<Rightarrow> Some (if j = i \<and> ho_status h = HQueued
         then h\<lparr>ho_status := HClaimed, ho_assignee := Some who, ho_claimed := Some now\<rparr> else h))"
  unfolding ho_claim_def by (rule cond_update_row) simp

lemma close_row:
  "row_of ho_id j (snd (ho_close i from to now rows)) =
    (case row_of ho_id j rows of None \<Rightarrow> None
     | Some h \<Rightarrow> Some (if j = i \<and> ho_status h = from
         then h\<lparr>ho_status := to, ho_closed := Some now\<rparr> else h))"
  unfolding ho_close_def by (rule cond_update_row) simp

lemma claim_result:
  "fst (ho_claim i who now rows) = None \<longleftrightarrow>
   (\<forall>h. row_of ho_id i rows = Some h \<longrightarrow> ho_status h \<noteq> HQueued)"
  by (auto simp: ho_claim_def cond_update_def split: option.splits)

text \<open>
  C11: the hand-off table in every reachable state. A conversation has at most one session that
  is queued or claimed; ids are distinct; a queued session has no assignee, a claimed one has an
  assignee and no closing time, and a closed one has a closing time. Claiming takes a queued
  session or nothing, closing only follows the life cycle, and a closed session never changes.
\<close>

theorem handoff_table_reachable:
  assumes "ho_reach rows"
  shows "handoffs_ok rows
     \<and> (\<forall>x \<in> set rows. \<forall>y \<in> set rows. ho_open (ho_status x) \<longrightarrow> ho_open (ho_status y) \<longrightarrow>
          ho_conv x = ho_conv y \<longrightarrow> x = y)
     \<and> (\<forall>h h'. row_of ho_id j rows = Some h \<longrightarrow>
          row_of ho_id j (snd (ho_claim i who now rows)) = Some h' \<longrightarrow>
          h' = h \<or> ho_step (ho_status h) (ho_status h'))
     \<and> (\<forall>h h' to. ho_step from to \<longrightarrow> row_of ho_id j rows = Some h \<longrightarrow>
          row_of ho_id j (snd (ho_close i from to now rows)) = Some h' \<longrightarrow>
          h' = h \<or> ho_step (ho_status h) (ho_status h'))"
proof -
  note ok = ho_reach_ok [OF assms]
  have "x = y" if "x \<in> set rows" "y \<in> set rows" "ho_open (ho_status x)" "ho_open (ho_status y)"
    "ho_conv x = ho_conv y" for x y
    using uniq_on_same [of ho_slot rows x y "ho_conv x"] ok that
    by (simp add: handoffs_ok_def ho_slot_def)
  with ok show ?thesis
    by (auto simp: claim_row close_row ho_step_iff split: option.splits if_splits)
qed

definition sample_payload :: payload where
  "sample_payload = \<lparr>pl_recent = [], pl_intents = [], pl_user = Raw [], pl_start = None,
     pl_tickets = [], pl_flags = None\<rparr>"

theorem handoff_table_reachable_witness:
  "handoffs_ok (snd (ho_claim 5 9 2 (snd (ho_create 5 1 id 3 [] sample_payload []))))"
proof -
  have "ho_reach (snd (ho_claim 5 9 2 (snd (ho_create 5 1 id 3 [] sample_payload []))))"
    by (intro ho_reach.intros) simp
  from handoff_table_reachable [OF this] show ?thesis by blast
qed

text \<open>One request of \<open>claim\<close>, by the member of staff \<open>who\<close> at \<open>now\<close>.\<close>

definition claim_try :: "uuid \<times> int \<Rightarrow> uuid \<Rightarrow> handoff list \<Rightarrow> bool \<times> handoff list" where
  "claim_try a i rows = (case ho_claim i (fst a) (snd a) rows of (h, rows') \<Rightarrow> (h \<noteq> None, rows'))"

definition claimed_by :: "uuid \<times> int \<Rightarrow> handoff \<Rightarrow> handoff" where
  "claimed_by a h = h\<lparr>ho_status := HClaimed, ho_assignee := Some (fst a), ho_claimed := Some (snd a)\<rparr>"

lemma claim_try_simps:
  "fst (claim_try a i rows) \<longleftrightarrow> (\<exists>h. row_of ho_id i rows = Some h \<and> ho_status h = HQueued)"
  "snd (claim_try a i rows) = snd (ho_claim i (fst a) (snd a) rows)"
  by (auto simp: claim_try_def ho_claim_def cond_update_def split: option.splits)

interpretation claims: guarded_move ho_id claim_try "\<lambda>_ h. ho_status h = HQueued" claimed_by handoffs_ok
  by unfold_locales
    (auto simp: claim_try_simps claim_row claimed_by_def ho_claim_ok split: option.splits)

text \<open>
  C12: the race for the sessions. Let any number of members of staff claim any sessions, in any
  order. For each session at most one of them is told that it is theirs: the first who asked,
  if it was queued, and nobody otherwise. The session then is assigned to that person, as of
  that claim; a session that was not queued or that nobody asked for is as it was, and the
  table's invariant still holds.
\<close>

theorem claim_race_one_winner:
  assumes "handoffs_ok rows" "row_of ho_id i rows = Some h"
  shows "winners i as (fst (attempts claim_try as rows))
       = (if ho_status h = HQueued then take 1 (tries i as) else [])
     \<and> row_of ho_id i (snd (attempts claim_try as rows))
       = Some (if ho_status h = HQueued then (case tries i as of [] \<Rightarrow> h | a # _ \<Rightarrow> claimed_by a h) else h)
     \<and> handoffs_ok (snd (attempts claim_try as rows))"
  using claims.race [OF assms, of as] claims.attempts_fine [OF assms(1), of as]
  by (auto split: if_splits)

definition queued_row :: handoff where
  "queued_row = \<lparr>ho_id = 5, ho_conv = 3, ho_status = HQueued, ho_summary = [],
      ho_payload = sample_payload, ho_assignee = None, ho_claimed = None, ho_closed = None,
      ho_created = 1\<rparr>"

definition three_claims :: "((uuid \<times> int) \<times> uuid) list" where
  "three_claims = [((9, 2), 5), ((8, 2), 6), ((7, 3), 5)]"

theorem claim_race_one_winner_witness:
  "winners 5 three_claims (fst (attempts claim_try three_claims [queued_row])) = [(9, 2)]"
proof -
  have ok: "handoffs_ok [queued_row]"
    by (simp add: handoffs_ok_def queued_row_def uniq_on_Cons ho_slot_def ho_row_ok_def)
  have r: "row_of ho_id 5 [queued_row] = Some queued_row" "ho_status queued_row = HQueued"
    by (simp_all add: row_of_Cons queued_row_def)
  have "tries 5 three_claims = [(9, 2), (7, 3)]" by (simp add: three_claims_def)
  with claim_race_one_winner [OF ok r(1), of three_claims] r(2) show ?thesis by simp
qed

subsection \<open>The sweep\<close>

definition escalated :: "sweep_env \<Rightarrow> handoff \<Rightarrow> world \<Rightarrow> bool" where
  "escalated e h w \<longleftrightarrow>
     map_option ho_status (row_of ho_id (ho_id h) (w_handoffs w)) = Some HTimedOut
   \<and> (\<exists>c t. row_of cv_id (ho_conv h) (w_convs w) = Some c \<and> cv_status c = CActive
       \<and> t \<in> set (w_tickets w)
       \<and> open_slot t = Some (cv_user c, escalation_title (sw_text e) (ho_conv h)))"

text \<open>Owners stay, and a conversation that is active stays active.\<close>

definition convs_kept :: "conversation list \<Rightarrow> conversation list \<Rightarrow> bool" where
  "convs_kept cs cs' \<longleftrightarrow> (\<forall>c. map_option cv_user (row_of cv_id c cs') = map_option cv_user (row_of cv_id c cs)
     \<and> (map_option cv_status (row_of cv_id c cs) = Some CActive \<longrightarrow>
          map_option cv_status (row_of cv_id c cs') = Some CActive))"

lemma convs_kept_trans: "convs_kept a b \<Longrightarrow> convs_kept b c \<Longrightarrow> convs_kept a c"
  by (simp add: convs_kept_def)

lemma convs_kept_refl: "convs_kept a a"
  by (simp add: convs_kept_def)

lemma convs_kept_row:
  assumes "convs_kept a b" "row_of cv_id c a = Some r" "cv_status r = CActive"
  shows "\<exists>r'. row_of cv_id c b = Some r' \<and> cv_status r' = CActive \<and> cv_user r' = cv_user r"
proof -
  have "map_option cv_user (row_of cv_id c b) = map_option cv_user (row_of cv_id c a)"
    "map_option cv_status (row_of cv_id c a) = Some CActive \<longrightarrow>
     map_option cv_status (row_of cv_id c b) = Some CActive"
    using assms(1) unfolding convs_kept_def by blast+
  then show ?thesis using assms(2,3) by auto
qed

text \<open>What a sweep needs of the world: invariants, existing conversations, fresh ticket ids.\<close>

definition sweepable :: "sweep_env \<Rightarrow> handoff list \<Rightarrow> world \<Rightarrow> bool" where
  "sweepable e hs w \<longleftrightarrow> handoffs_ok (w_handoffs w) \<and> tickets_ok (w_tickets w)
     \<and> distinct (map ho_id hs) \<and> distinct (map (\<lambda>h. fst (sw_fresh e (ho_id h))) hs)
     \<and> (\<forall>h \<in> set hs. row_of ho_id (ho_id h) (w_handoffs w) = Some h \<and> ho_status h = HQueued
          \<and> row_of cv_id (ho_conv h) (w_convs w) \<noteq> None
          \<and> fst (sw_fresh e (ho_id h)) \<notin> tk_id ` set (w_tickets w))"

lemma escalation_wants: "wants (escalation_ticket e c h)"
  by (simp add: escalation_ticket_def new_ticket_wants)

lemma escalation_key:
  "tk_user (escalation_ticket e c h) = cv_user c"
  "tk_title (escalation_ticket e c h) = escalation_title (sw_text e) (ho_conv h)"
  by (simp_all add: escalation_ticket_def new_ticket_def)

lemma escalate_one:
  assumes "sweepable e (h # hs) w"
  shows "\<exists>p w'. escalate_expired e h w = (Inr [p], w') \<and> sweepable e hs w' \<and> escalated e h w'
     \<and> (\<forall>j. j \<noteq> ho_id h \<longrightarrow> row_of ho_id j (w_handoffs w') = row_of ho_id j (w_handoffs w))
     \<and> set (w_tickets w) \<subseteq> set (w_tickets w')
     \<and> convs_kept (w_convs w) (w_convs w')"
proof -
  obtain c where c: "row_of cv_id (ho_conv h) (w_convs w) = Some c"
    using assms by (auto simp: sweepable_def)
  obtain a b where ab: "sw_fresh e (ho_id h) = (a, b)" by (cases "sw_fresh e (ho_id h)")
  have h: "row_of ho_id (ho_id h) (w_handoffs w) = Some h" "ho_status h = HQueued"
    "a \<notin> tk_id ` set (w_tickets w)" "tickets_ok (w_tickets w)" "handoffs_ok (w_handoffs w)"
    using assms ab by (auto simp: sweepable_def)
  from ticket_create_quiet [OF escalation_wants [of e c h] h(4,3), of "(b, id)"]
  obtain t ts where t: "ticket_create (a, id) (b, id) (escalation_ticket e c h) (w_tickets w) = (Inr t, ts)"
    "tickets_ok ts" "t \<in> set ts"
    "open_slot t = Some (cv_user c, escalation_title (sw_text e) (ho_conv h))"
    and ts0: "ts = (if \<exists>x \<in> set (w_tickets w). open_slot x = Some (tk_user (escalation_ticket e c h),
         tk_title (escalation_ticket e c h)) then w_tickets w
       else w_tickets w @ [(escalation_ticket e c h)\<lparr>tk_id := a\<rparr>])"
    unfolding escalation_key by blast
  have ts: "ts = w_tickets w \<or> ts = w_tickets w @ [(escalation_ticket e c h)\<lparr>tk_id := a\<rparr>]"
    unfolding ts0 by simp
  let ?hs = "snd (ho_close (ho_id h) HQueued HTimedOut (sw_now e) (w_handoffs w))"
  let ?w = "w\<lparr>w_tickets := ts, w_handoffs := ?hs,
    w_convs := snd (conv_update_status (sw_now e) (ho_conv h) CActive (w_convs w))\<rparr>"
  have run: "\<exists>p. escalate_expired e h w = (Inr [p], ?w)"
    using c ab t(1) by (simp add: escalate_expired_def conv_get_def Let_def)
  have "handoffs_ok ?hs" using h(5) by (rule ho_close_ok) (simp_all add: ho_step_iff ho_open_def)
  moreover have "fst (sw_fresh e (ho_id x)) \<notin> tk_id ` set ts" if "x \<in> set hs" for x
  proof -
    have "a \<notin> (\<lambda>h. fst (sw_fresh e (ho_id h))) ` set hs" using assms ab by (simp add: sweepable_def)
    then have "a \<noteq> fst (sw_fresh e (ho_id x))" using that by (metis imageI)
    moreover have "fst (sw_fresh e (ho_id x)) \<notin> tk_id ` set (w_tickets w)"
      using assms that by (simp add: sweepable_def)
    ultimately show ?thesis using ts by auto
  qed
  moreover have "ho_id h \<notin> ho_id ` set hs" using assms by (simp add: sweepable_def)
  moreover have "row_of ho_id (ho_id x) ?hs = Some x" if "x \<in> set hs" for x
  proof -
    have "ho_id x \<noteq> ho_id h" using that \<open>ho_id h \<notin> ho_id ` set hs\<close> by (metis imageI)
    then show ?thesis using assms that by (simp add: sweepable_def close_row)
  qed
  moreover have "row_of cv_id (ho_conv x) (w_convs ?w) \<noteq> None" if "x \<in> set hs" for x
    using assms that c by (simp add: sweepable_def update_status_row)
  ultimately have sw: "sweepable e hs ?w"
    using assms t(2) by (simp add: sweepable_def)
  have esc: "escalated e h ?w"
    using c h t by (auto simp: escalated_def close_row update_status_row)
  have others: "row_of ho_id j ?hs = row_of ho_id j (w_handoffs w)" if "j \<noteq> ho_id h" for j
    using that by (simp add: close_row split: option.splits)
  have kept: "convs_kept (w_convs w) (w_convs ?w)"
    using c by (auto simp: convs_kept_def update_status_row)
  have "set (w_tickets w) \<subseteq> set ts" using ts by auto
  with run sw esc others kept show ?thesis by (auto simp del: split_paired_Ex)
qed

lemma escalate_all_ok:
  "sweepable e hs w \<Longrightarrow> \<exists>ps w'. escalate_all e hs w = (Inr ps, w') \<and> length ps = length hs
     \<and> handoffs_ok (w_handoffs w') \<and> tickets_ok (w_tickets w')
     \<and> (\<forall>h \<in> set hs. escalated e h w')
     \<and> (\<forall>j. j \<notin> ho_id ` set hs \<longrightarrow> row_of ho_id j (w_handoffs w') = row_of ho_id j (w_handoffs w))
     \<and> set (w_tickets w) \<subseteq> set (w_tickets w')
     \<and> convs_kept (w_convs w) (w_convs w')"
proof (induction hs arbitrary: w)
  case Nil
  then show ?case by (simp add: sweepable_def convs_kept_refl)
next
  case (Cons h hs)
  obtain p w1 where one: "escalate_expired e h w = (Inr [p], w1)" "sweepable e hs w1"
    "escalated e h w1"
    "\<forall>j. j \<noteq> ho_id h \<longrightarrow> row_of ho_id j (w_handoffs w1) = row_of ho_id j (w_handoffs w)"
    "set (w_tickets w) \<subseteq> set (w_tickets w1)"
    "convs_kept (w_convs w) (w_convs w1)"
    using escalate_one [OF Cons.prems] by blast
  obtain ps w2 where rest: "escalate_all e hs w1 = (Inr ps, w2)" "length ps = length hs"
    "handoffs_ok (w_handoffs w2)" "tickets_ok (w_tickets w2)" "\<forall>h \<in> set hs. escalated e h w2"
    "\<forall>j. j \<notin> ho_id ` set hs \<longrightarrow> row_of ho_id j (w_handoffs w2) = row_of ho_id j (w_handoffs w1)"
    "set (w_tickets w1) \<subseteq> set (w_tickets w2)"
    "convs_kept (w_convs w1) (w_convs w2)"
    using Cons.IH [OF one(2)] by blast
  have "ho_id h \<notin> ho_id ` set hs" using Cons.prems by (auto simp: sweepable_def)
  moreover obtain c t where c: "row_of cv_id (ho_conv h) (w_convs w1) = Some c" "cv_status c = CActive"
    "t \<in> set (w_tickets w1)"
    "open_slot t = Some (cv_user c, escalation_title (sw_text e) (ho_conv h))"
    using one(3) by (auto simp: escalated_def)
  moreover obtain c2 where "row_of cv_id (ho_conv h) (w_convs w2) = Some c2"
    "cv_status c2 = CActive" "cv_user c2 = cv_user c"
    using convs_kept_row [OF rest(8) c(1,2)] by blast
  ultimately have "escalated e h w2"
    using one(3) rest(6,7) by (auto simp: escalated_def)
  moreover have "escalate_all e (h # hs) w = (Inr (p # ps), w2)" using one(1) rest(1) by simp
  moreover have "set (w_tickets w) \<subseteq> set (w_tickets w2)" using one(5) rest(7) by blast
  moreover have "\<forall>j. j \<notin> ho_id ` set (h # hs) \<longrightarrow>
      row_of ho_id j (w_handoffs w2) = row_of ho_id j (w_handoffs w)"
    using one(4) rest(6) by simp
  moreover have "\<forall>h' \<in> set (h # hs). escalated e h' w2"
    using rest(5) \<open>escalated e h w2\<close> by simp
  moreover have "convs_kept (w_convs w) (w_convs w2)" using one(6) rest(8) by (rule convs_kept_trans)
  ultimately show ?case using rest(2,3,4)
    by (intro exI [of _ "p # ps"] exI [of _ w2] conjI)
      (assumption | simp)+
qed

text \<open>
  C13: the time-out sweep. Every queued session older than the limit that no other sweeper holds
  becomes a ticket: the session is timed out, the conversation is active again so that the
  assistant answers it, and the owner has an open ticket with the escalation title. The sweep
  reports their number, tells each owner once, leaves every other session alone, and keeps both
  tables' invariants.
\<close>

theorem sweep_escalates:
  assumes "handoffs_ok (w_handoffs w)" "tickets_ok (w_tickets w)"
    and "\<forall>h \<in> set (w_handoffs w). row_of cv_id (ho_conv h) (w_convs w) \<noteq> None"
    and "inj (\<lambda>i. fst (sw_fresh e i))"
    and "\<forall>i. fst (sw_fresh e i) \<notin> tk_id ` set (w_tickets w)"
  shows "\<exists>ps w'. sweep_expired_handoffs e minutes locked w =
       (Inr (length (sweep_expired (sw_now e) minutes locked (w_handoffs w)), ps), w')
     \<and> length ps = length (sweep_expired (sw_now e) minutes locked (w_handoffs w))
     \<and> handoffs_ok (w_handoffs w') \<and> tickets_ok (w_tickets w')
     \<and> (\<forall>h \<in> set (w_handoffs w). ho_status h = HQueued \<and> ho_created h < sw_now e - minutes * 60
          \<and> ho_id h \<notin> set locked \<longrightarrow> escalated e h w')
     \<and> (\<forall>h \<in> set (w_handoffs w). \<not> (ho_status h = HQueued \<and> ho_created h < sw_now e - minutes * 60
          \<and> ho_id h \<notin> set locked) \<longrightarrow> row_of ho_id (ho_id h) (w_handoffs w') = Some h)"
proof -
  let ?hs = "sweep_expired (sw_now e) minutes locked (w_handoffs w)"
  have ids: "distinct (map ho_id (w_handoffs w))" using assms(1) by (simp add: handoffs_ok_def)
  have dist: "distinct (map ho_id ?hs)"
    using ids by (simp add: sweep_expired_def distinct_map_filter)
  have "distinct (map (\<lambda>i. fst (sw_fresh e i)) (map ho_id ?hs))"
    using dist assms(4) by (simp add: distinct_map inj_on_def inj_def)
  then have "sweepable e ?hs w"
    using assms dist row_of_unique [OF ids] by (auto simp: sweepable_def sweep_expired_def comp_def)
  from escalate_all_ok [OF this] obtain ps w' where r: "escalate_all e ?hs w = (Inr ps, w')"
    "length ps = length ?hs" "handoffs_ok (w_handoffs w')" "tickets_ok (w_tickets w')"
    "\<forall>h \<in> set ?hs. escalated e h w'"
    "\<forall>j. j \<notin> ho_id ` set ?hs \<longrightarrow> row_of ho_id j (w_handoffs w') = row_of ho_id j (w_handoffs w)"
    by blast
  have "row_of ho_id (ho_id h) (w_handoffs w') = Some h" if "h \<in> set (w_handoffs w)" "h \<notin> set ?hs" for h
  proof -
    have "ho_id h \<notin> ho_id ` set ?hs"
      using that ids by (auto simp: sweep_expired_def dest: distinct_map [THEN iffD1] inj_onD)
    then show ?thesis using r(6) row_of_unique [OF ids that(1)] by simp
  qed
  then show ?thesis using r
    by (auto simp: sweep_expired_handoffs_def Let_def sweep_expired_def intro!: exI)
qed

theorem sweep_escalates_witness:
  "\<exists>ps w'. sweep_expired_handoffs \<lparr>sw_now = 7200, sw_fresh = \<lambda>i. (i, i), sw_text = \<lambda>_. []\<rparr> 15 []
      (empty_world\<lparr>w_convs := [sample_conv], w_handoffs := snd (ho_create 5 0 id 3 [] sample_payload [])\<rparr>)
     = (Inr (1, ps), w') \<and> length ps = 1"
proof -
  let ?w = "empty_world\<lparr>w_convs := [sample_conv],
    w_handoffs := snd (ho_create 5 0 id 3 [] sample_payload [])\<rparr>"
  let ?e = "\<lparr>sw_now = 7200, sw_fresh = \<lambda>i. (i, i), sw_text = \<lambda>_. []\<rparr>"
  have rows: "w_handoffs ?w = [\<lparr>ho_id = 5, ho_conv = 3, ho_status = HQueued, ho_summary = [],
      ho_payload = sample_payload, ho_assignee = None, ho_claimed = None, ho_closed = None, ho_created = 0\<rparr>]"
    by (simp add: ho_create_def ho_insert_def insert_guarded_def row_of_def)
  have 1: "handoffs_ok (w_handoffs ?w)"
    unfolding rows by (simp add: handoffs_ok_def uniq_on_Cons ho_slot_def ho_open_def ho_row_ok_def)
  have 2: "tickets_ok (w_tickets ?w)" by (simp add: empty_world_def tickets_ok_def)
  have 3: "\<forall>h \<in> set (w_handoffs ?w). row_of cv_id (ho_conv h) (w_convs ?w) \<noteq> None"
    unfolding rows by (simp add: sample_conv_def row_of_def)
  have 4: "inj (\<lambda>i. fst (sw_fresh ?e i))" by (simp add: inj_def)
  have 5: "\<forall>i. fst (sw_fresh ?e i) \<notin> tk_id ` set (w_tickets ?w)" by (simp add: empty_world_def)
  have n: "length (sweep_expired 7200 15 [] (w_handoffs ?w)) = 1"
    unfolding rows by (simp add: sweep_expired_def)
  show ?thesis using sweep_escalates [OF 1 2 3 4 5, of 15 "[]"] n by auto
qed

subsection \<open>Replying and resolving\<close>

lemma require_assignee_Inr:
  "require_assignee i u rows = Inr h \<longleftrightarrow>
   row_of ho_id i rows = Some h \<and> ho_status h = HClaimed \<and> ho_assignee h = Some (us_id u)"
  by (auto simp: require_assignee_def get_session_def split: option.splits)

text \<open>
  Who may speak and close in a hand-off. A reply or a resolution succeeds only for staff and
  only for the person the session is assigned to; everybody else gets an error and nothing
  changes. A reply is stored once under the role staff and mirrored as an assistant message at
  the end of the session history, so the assistant later sees it. A resolution closes the session
  and makes the conversation active again, or closed when asked to.
\<close>

theorem assignee_operates:
  "(case reply_handoff mid now i content u (w, st) of
      (Inl e, w', st') \<Rightarrow> w' = w \<and> st' = st
    | (Inr (h, ps), w', st') \<Rightarrow> is_staff u \<and> ho_status h = HClaimed \<and> ho_assignee h = Some (us_id u)
        \<and> row_of ho_id i (w_handoffs w) = Some h \<and> strip content \<noteq> []
        \<and> (\<exists>m. w_msgs w' = w_msgs w @ [m] \<and> ms_role m = MStaff \<and> ms_content m = content
             \<and> ms_conv m = ho_conv h)
        \<and> last (st' (ho_conv h)) = (asc ''assistant'', content)
        \<and> w_handoffs w' = w_handoffs w)
   \<and> (case resolve_handoff now i to close u w of
      (Inl e, w') \<Rightarrow> w' = w
    | (Inr (h, ps), w') \<Rightarrow> is_staff u \<and> (to = HResolved \<or> to = HReturned)
        \<and> (\<exists>old. row_of ho_id i (w_handoffs w) = Some old \<and> ho_status old = HClaimed
             \<and> ho_assignee old = Some (us_id u) \<and> ho_conv h = ho_conv old)
        \<and> row_of ho_id i (w_handoffs w') = Some h \<and> ho_status h = to
        \<and> map_option cv_status (row_of cv_id (ho_conv h) (w_convs w')) =
            map_option (\<lambda>_. if close then CClosed else CActive) (row_of cv_id (ho_conv h) (w_convs w)))"
proof
  show "case reply_handoff mid now i content u (w, st) of
      (Inl e, w', st') \<Rightarrow> w' = w \<and> st' = st
    | (Inr (h, ps), w', st') \<Rightarrow> is_staff u \<and> ho_status h = HClaimed \<and> ho_assignee h = Some (us_id u)
        \<and> row_of ho_id i (w_handoffs w) = Some h \<and> strip content \<noteq> []
        \<and> (\<exists>m. w_msgs w' = w_msgs w @ [m] \<and> ms_role m = MStaff \<and> ms_content m = content
             \<and> ms_conv m = ho_conv h)
        \<and> last (st' (ho_conv h)) = (asc ''assistant'', content)
        \<and> w_handoffs w' = w_handoffs w"
  proof (cases "require_assignee i u (w_handoffs w)")
    case (Inr h)
    then have "row_of ho_id i (w_handoffs w) = Some h \<and> ho_status h = HClaimed
        \<and> ho_assignee h = Some (us_id u)" by (simp add: require_assignee_Inr)
    with Inr show ?thesis
      by (simp add: reply_handoff_def add_message_last msg_create_def Let_def)
  qed (simp add: reply_handoff_def)
next
  have close: "ho_close i HClaimed to now rows =
      (Some (h\<lparr>ho_status := to, ho_closed := Some now\<rparr>),
       set_row ho_id i (\<lambda>h. h\<lparr>ho_status := to, ho_closed := Some now\<rparr>) rows)"
    if "row_of ho_id i rows = Some h" "ho_status h = HClaimed" for h and rows :: "handoff list"
    using that by (simp add: ho_close_def cond_update_def)
  show "case resolve_handoff now i to close u w of
      (Inl e, w') \<Rightarrow> w' = w
    | (Inr (h, ps), w') \<Rightarrow> is_staff u \<and> (to = HResolved \<or> to = HReturned)
        \<and> (\<exists>old. row_of ho_id i (w_handoffs w) = Some old \<and> ho_status old = HClaimed
             \<and> ho_assignee old = Some (us_id u) \<and> ho_conv h = ho_conv old)
        \<and> row_of ho_id i (w_handoffs w') = Some h \<and> ho_status h = to
        \<and> map_option cv_status (row_of cv_id (ho_conv h) (w_convs w')) =
            map_option (\<lambda>_. if close then CClosed else CActive) (row_of cv_id (ho_conv h) (w_convs w))"
  proof (cases "require_assignee i u (w_handoffs w)")
    case (Inr h)
    then have "row_of ho_id i (w_handoffs w) = Some h" "ho_status h = HClaimed"
        "ho_assignee h = Some (us_id u)" by (simp_all add: require_assignee_Inr)
    with Inr close show ?thesis
      by (cases "row_of cv_id (ho_conv h) (w_convs w)")
        (simp_all add: resolve_handoff_def Let_def row_of_set_row update_status_row)
  qed (simp add: resolve_handoff_def)
qed

theorem assignee_operates_witness:
  "case resolve_handoff 9 5 HResolved False \<lparr>us_id = 8, us_name = [], us_role = RAgent, us_active = True\<rparr>
     (empty_world\<lparr>w_convs := [sample_conv],
        w_handoffs := snd (ho_claim 5 8 2 (snd (ho_create 5 0 id 3 [] sample_payload [])))\<rparr>) of
     (Inl e, w') \<Rightarrow> False | (Inr (h, ps), w') \<Rightarrow> ho_status h = HResolved"
proof -
  let ?u = "\<lparr>us_id = 8, us_name = [], us_role = RAgent, us_active = True\<rparr>"
  let ?w = "empty_world\<lparr>w_convs := [sample_conv],
    w_handoffs := snd (ho_claim 5 8 2 (snd (ho_create 5 0 id 3 [] sample_payload [])))\<rparr>"
  have "\<exists>h ps w'. resolve_handoff 9 5 HResolved False ?u ?w = (Inr (h, ps), w')"
    by (simp add: resolve_handoff_def is_staff_def require_assignee_def get_session_def ho_claim_def
        ho_close_def cond_update_def ho_create_def ho_insert_def insert_guarded_def row_of_def
        set_row_def Let_def)
  then obtain h ps w' where r: "resolve_handoff 9 5 HResolved False ?u ?w = (Inr (h, ps), w')" by blast
  show ?thesis
    using assignee_operates [where now = 9 and i = 5 and to = HResolved
        and close = False and u = ?u and w = ?w, THEN conjunct2] unfolding r by simp
qed

end
