(* ===== verification/Slots.thy ===== *)
theory Slots
  imports Tools Conversations
begin

text \<open>
  \<open>agent/slots.py\<close>: the order number that a tool still waits for is kept as a pending record in
  the conversation's metadata, and three rules advance it: resume when the pattern finds a number,
  ask again or give up after a classification, and record or clear after a tool ran.

  The environment says whether a repository was passed in and whether writing to it fails.

  Lemmas: the record survives the round trip through the metadata and leaves the other keys alone;
  which rule fires when; how the waiting counter moves.
\<close>

record slot_env =
  se_repo :: bool
  se_fails :: bool
  se_now :: int

definition MAX_SLOT_TURNS :: int where
  "MAX_SLOT_TURNS = 3"

definition RESUME_SLOT_CONFIDENCE :: real where
  "RESUME_SLOT_CONFIDENCE = 9 / 10"

definition ABANDON_CONFIDENCE :: real where
  "ABANDON_CONFIDENCE = 7 / 10"

subsection \<open>The stored record\<close>

definition read_pending_tool :: "meta option \<Rightarrow> pending option" where
  "read_pending_tool m = (case map_of (or_else m []) ''pending_tool'' of
     Some (MPending p) \<Rightarrow> Some p | _ \<Rightarrow> None)"

definition save_pending_tool ::
  "slot_env \<Rightarrow> idstr \<Rightarrow> pending option \<Rightarrow> conversation list \<Rightarrow> conversation list" where
  "save_pending_tool e cid rec convs =
     (if \<not> se_repo e \<or> \<not> id_given cid then convs
      else case parse_uuid cid of None \<Rightarrow> convs
      | Some u \<Rightarrow> if se_fails e then convs
          else snd (conv_update_metadata (se_now e) u
            [(''pending_tool'', map_option MPending rec)] convs))"

subsection \<open>The three rules\<close>

definition resume_pending_route ::
  "agent_state \<Rightarrow> pending option \<Rightarrow> agent_state \<times> string option" where
  "resume_pending_route s pend =
     (if \<not> pending_given pend then (s, None)
      else let s1 = s\<lparr>pending_tool := pend\<rparr> in
       if \<not> rx_found ORDER_ID_PATTERN (question s) then (s1, None)
       else (s1\<lparr>intent := Some \<lparr>label = (case pend of None \<Rightarrow> ''order_query''
                 | Some p \<Rightarrow> or_else (p_intent p) ''order_query''),
               confidence = RESUME_SLOT_CONFIDENCE, needs_clarification = False\<rparr>,
             harness_trace := (harness_trace s)
               \<lparr>t_flags := Some (append_new ''slot_resume'' (flags_of (harness_trace s)))\<rparr>\<rparr>,
           Some ''tool''))"

definition settle_pending ::
  "slot_env \<Rightarrow> agent_state \<Rightarrow> conversation list \<Rightarrow> agent_state \<times> conversation list \<times> string option" where
  "settle_pending e s convs =
     (if \<not> pending_given (pending_tool s) then (s, convs, None)
      else case pending_tool s of None \<Rightarrow> (s, convs, None)
      | Some p \<Rightarrow>
       (if (\<exists>i \<in> set_option (intent s). Some (label i) = p_intent p)
        then (if MAX_SLOT_TURNS \<le> or_else (p_turns p) 0 + 1
              then (s\<lparr>pending_tool := None\<rparr>, save_pending_tool e (conversation_id s) None convs,
                Some ''clarify'')
              else (s, convs, Some ''tool''))
        else if (\<exists>i \<in> set_option (intent s). ABANDON_CONFIDENCE \<le> confidence i)
        then (s\<lparr>pending_tool := None\<rparr>, save_pending_tool e (conversation_id s) None convs, None)
        else (s, convs, None)))"

definition next_pending_record :: "agent_state \<Rightarrow> tool_result \<Rightarrow> string \<Rightarrow> pending" where
  "next_pending_record s r slot =
     (let cur = or_else (pending_tool s) \<lparr>p_tool = None, p_slot = None, p_intent = None, p_turns = None\<rparr>
      in if p_slot cur = Some slot \<and> p_tool cur = Some (tr_tool r)
         then cur\<lparr>p_turns := Some (or_else (p_turns cur) 0 + 1)\<rparr>
         else \<lparr>p_tool = Some (tr_tool r), p_slot = Some slot,
           p_intent = Some (case intent s of None \<Rightarrow> ''order_query'' | Some i \<Rightarrow> label i),
           p_turns = Some 0\<rparr>)"

definition sync_pending ::
  "slot_env \<Rightarrow> agent_state \<Rightarrow> tool_result \<Rightarrow> conversation list \<Rightarrow> agent_state \<times> conversation list" where
  "sync_pending e s r convs =
     (case tr_needs_slot r of
        Some slot \<Rightarrow>
          if slot \<noteq> '''' then
            (let rec = next_pending_record s r slot
             in (s\<lparr>pending_tool := Some rec\<rparr>,
                 save_pending_tool e (conversation_id s) (Some rec) convs))
          else if pending_tool s \<noteq> None
          then (s\<lparr>pending_tool := None\<rparr>, save_pending_tool e (conversation_id s) None convs)
          else (s, convs)
      | None \<Rightarrow>
          if pending_tool s \<noteq> None
          then (s\<lparr>pending_tool := None\<rparr>, save_pending_tool e (conversation_id s) None convs)
          else (s, convs))"

subsection \<open>Lemmas\<close>

lemma read_saved [simp]:
  "read_pending_tool (Some (merge_patch [(''pending_tool'', map_option MPending rec)] m)) = rec"
  by (cases rec) (simp_all add: read_pending_tool_def del: merge_patch.simps)

lemma save_pending_row:
  "row_of cv_id j (save_pending_tool e cid rec convs) =
    (if se_repo e \<and> \<not> se_fails e \<and> cid = Hex j
     then map_option (\<lambda>c. c\<lparr>cv_meta := Some (merge_patch [(''pending_tool'', map_option MPending rec)]
         (or_else (cv_meta c) [])), cv_updated := se_now e\<rparr>) (row_of cv_id j convs)
     else row_of cv_id j convs)"
  by (cases cid) (auto simp: save_pending_tool_def update_metadata_row)

text \<open>
  The pending record in the metadata. Saving a record and reading the conversation's
  metadata gives that record back, or nothing after a clearing save; the other keys, the owner and
  the status of the conversation and all other conversations are unchanged. Without a repository,
  with an id that is not a UUID or when the write fails, nothing changes at all.
\<close>

theorem pending_record_roundtrip:
  assumes "row_of cv_id u convs = Some c"
  shows "(se_repo e \<and> \<not> se_fails e \<longrightarrow>
       (\<exists>c'. row_of cv_id u (save_pending_tool e (Hex u) rec convs) = Some c'
          \<and> read_pending_tool (cv_meta c') = rec \<and> cv_user c' = cv_user c \<and> cv_status c' = cv_status c
          \<and> (\<forall>k. k \<noteq> ''pending_tool'' \<longrightarrow>
               map_of (or_else (cv_meta c') []) k = map_of (or_else (cv_meta c) []) k)))
     \<and> (\<forall>j. j \<noteq> u \<longrightarrow> row_of cv_id j (save_pending_tool e (Hex u) rec convs) = row_of cv_id j convs)
     \<and> (\<not> se_repo e \<or> se_fails e \<longrightarrow> save_pending_tool e (Hex u) rec convs = convs)
     \<and> save_pending_tool e (Raw s) rec convs = convs"
  using assms
  by (auto simp: save_pending_tool_def update_metadata_row merge_patch_other simp del: merge_patch.simps)

theorem pending_record_roundtrip_witness:
  "\<exists>c'. row_of cv_id 3 (save_pending_tool \<lparr>se_repo = True, se_fails = False, se_now = 9\<rparr> (Hex 3)
      (Some \<lparr>p_tool = Some ''search_order'', p_slot = Some ''order_id'', p_intent = None, p_turns = Some 1\<rparr>)
      [sample_conv]) = Some c'
    \<and> read_pending_tool (cv_meta c') =
      Some \<lparr>p_tool = Some ''search_order'', p_slot = Some ''order_id'', p_intent = None, p_turns = Some 1\<rparr>"
proof -
  have "row_of cv_id 3 [sample_conv] = Some sample_conv" by (simp add: row_of_def sample_conv_def)
  from pending_record_roundtrip [OF this, where s = "[]"
      and e = "\<lparr>se_repo = True, se_fails = False, se_now = 9\<rparr>"
      and rec = "Some \<lparr>p_tool = Some ''search_order'', p_slot = Some ''order_id'', p_intent = None,
        p_turns = Some 1\<rparr>"]
  show ?thesis by auto
qed

lemma resume_route:
  "snd (resume_pending_route s p) = (if pending_given p \<and> rx_found ORDER_ID_PATTERN (question s)
     then Some ''tool'' else None)"
  by (simp add: resume_pending_route_def Let_def)

lemma resume_fields:
  "question (fst (resume_pending_route s p)) = question s"
  "conversation_id (fst (resume_pending_route s p)) = conversation_id s"
  "pending_tool (fst (resume_pending_route s p)) = (if pending_given p then p else pending_tool s)"
  "snd (resume_pending_route s p) = Some r \<Longrightarrow>
   \<exists>i. intent (fst (resume_pending_route s p)) = Some i \<and> confidence i = 9 / 10"
  by (auto simp: resume_pending_route_def Let_def RESUME_SLOT_CONFIDENCE_def split: if_splits)

lemma settle_route_values:
  "snd (snd (settle_pending e s convs)) \<in> {None, Some ''tool'', Some ''clarify''}"
  by (auto simp: settle_pending_def split: option.splits)

text \<open>
  What happens to a waiting order number after a classification. The tool is asked again
  exactly when the intent is the one that waits and fewer than three turns were spent; on the
  third the record is dropped and the route is \<open>clarify\<close>; a different intent with confidence
  of at least 0.7 drops the record and routes normally; a weaker one keeps it.
\<close>

lemma settle_decision_table:
  assumes "pending_tool s = Some p" "pending_given (Some p)" "intent s = Some i"
  shows "settle_pending e s convs =
    (let dropped = (s\<lparr>pending_tool := None\<rparr>, save_pending_tool e (conversation_id s) None convs) in
     if p_intent p = Some (label i)
     then (if 2 \<le> or_else (p_turns p) 0 then (fst dropped, snd dropped, Some ''clarify'')
           else (s, convs, Some ''tool''))
     else if 7 / 10 \<le> confidence i then (fst dropped, snd dropped, None)
     else (s, convs, None))"
  using assms by (auto simp: settle_pending_def MAX_SLOT_TURNS_def ABANDON_CONFIDENCE_def Let_def)

text \<open>The counter after a tool that asks again.\<close>

lemma next_pending_turns:
  "p_turns (next_pending_record s r slot) =
    (case pending_tool s of
       Some c \<Rightarrow> if p_slot c = Some slot \<and> p_tool c = Some (tr_tool r)
         then Some (or_else (p_turns c) 0 + 1) else Some 0
     | None \<Rightarrow> Some 0)"
  by (auto simp: next_pending_record_def Let_def split: option.splits)

lemma sync_pending_state:
  "pending_tool (fst (sync_pending e s r convs)) =
    (case tr_needs_slot r of Some slot \<Rightarrow>
        if slot \<noteq> '''' then Some (next_pending_record s r slot) else None
     | None \<Rightarrow> None)"
  by (auto simp: sync_pending_def Let_def split: option.splits)

end
