(* ===== verification/Retrieval.thy ===== *)
theory Retrieval
  imports PyRegex AgentState "HOL-Library.Multiset"
begin

text \<open>
  Retrieval: \<open>rag/filters.py\<close>, \<open>rag/bm25.py\<close>, \<open>rag/retriever.py\<close> and \<open>rag/reranker.py\<close>. The
  metadata of a chunk is a record with one optional field per key. What Chroma returns for a query,
  the BM25 scores (tokenizer and \<open>rank_bm25\<close>) and the answer of the re-ranking model are arguments.

  Lemmas: the two forms of a filter agree, a saved index is read back, a fused ranking is sorted
  and carries the sum of the reciprocal ranks, one failing channel leaves the other, and
  re-ranking only permutes.
\<close>

subsection \<open>Chunks and filters\<close>

record chunk_meta =
  cm_doc_id :: "ustr option"
  cm_title :: "ustr option"
  cm_source :: "ustr option"
  cm_index :: "int option"
  cm_epoch :: "int option"

definition no_meta :: chunk_meta where
  "no_meta = \<lparr>cm_doc_id = None, cm_title = None, cm_source = None, cm_index = None, cm_epoch = None\<rparr>"

text \<open>The two instants are what \<open>int(datetime.timestamp())\<close> makes of them.\<close>

record filters =
  rf_sources :: "ustr list option"
  rf_doc_ids :: "ustr list option"
  rf_after :: "int option"
  rf_before :: "int option"

definition filters_empty :: "filters \<Rightarrow> bool" where
  "filters_empty f \<longleftrightarrow> or_else (rf_sources f) [] = [] \<and> or_else (rf_doc_ids f) [] = []
     \<and> rf_after f = None \<and> rf_before f = None"

datatype where_clause = WIn string "ustr list" | WGte string int | WLte string int
  | WAnd "where_clause list"

definition to_chroma_where :: "filters \<Rightarrow> where_clause option" where
  "to_chroma_where f =
     (let clauses = (if or_else (rf_sources f) [] = [] then []
            else [WIn ''source'' (or_else (rf_sources f) [])])
        @ (if or_else (rf_doc_ids f) [] = [] then []
            else [WIn ''doc_id'' (or_else (rf_doc_ids f) [])])
        @ (case rf_after f of None \<Rightarrow> [] | Some a \<Rightarrow> [WGte ''indexed_at_epoch'' a])
        @ (case rf_before f of None \<Rightarrow> [] | Some b \<Rightarrow> [WLte ''indexed_at_epoch'' b])
      in case clauses of [] \<Rightarrow> None | [c] \<Rightarrow> Some c | _ \<Rightarrow> Some (WAnd clauses))"

definition matches_metadata :: "filters \<Rightarrow> chunk_meta \<Rightarrow> bool" where
  "matches_metadata f m =
     (if or_else (rf_sources f) [] \<noteq> [] \<and> cm_source m \<notin> Some ` set (or_else (rf_sources f) []) then False
      else if or_else (rf_doc_ids f) [] \<noteq> [] \<and> cm_doc_id m \<notin> Some ` set (or_else (rf_doc_ids f) [])
      then False
      else if (case rf_after f of None \<Rightarrow> False
        | Some a \<Rightarrow> (case cm_epoch m of None \<Rightarrow> True | Some ts \<Rightarrow> ts < a)) then False
      else if (case rf_before f of None \<Rightarrow> False
        | Some b \<Rightarrow> (case cm_epoch m of None \<Rightarrow> True | Some ts \<Rightarrow> b < ts)) then False
      else True)"

subsection \<open>The BM25 index\<close>

record snapshot =
  sn_ids :: "ustr list"
  sn_corpus :: "ustr list"
  sn_metas :: "chunk_meta list"

type_synonym index = "snapshot option"

datatype rag_err = IndexErr | EmbedErr | TemplateErr | LlmErr

record hit =
  hit_id :: ustr
  hit_doc :: ustr
  hit_meta :: chunk_meta
  hit_score :: real
  hit_source :: string
  hit_raw :: "(string \<times> real) list"

definition bm25_build :: "ustr list \<Rightarrow> ustr list \<Rightarrow> chunk_meta list \<Rightarrow> index" where
  "bm25_build ids docs metas = Some \<lparr>sn_ids = ids, sn_corpus = docs,
     sn_metas = (if metas = [] then map (\<lambda>_. no_meta) docs else metas)\<rparr>"

definition bm25_size :: "index \<Rightarrow> nat" where
  "bm25_size ix = (case ix of None \<Rightarrow> 0 | Some sn \<Rightarrow> length (sn_corpus sn))"

text \<open>\<open>score corpus query\<close> is \<open>BM25Okapi(corpus).get_scores(query)\<close> after tokenizing both.\<close>

definition passes :: "(chunk_meta \<Rightarrow> bool) option \<Rightarrow> chunk_meta \<Rightarrow> bool" where
  "passes pred m = (case pred of None \<Rightarrow> True | Some p \<Rightarrow> p m)"

definition bm25_search ::
  "(ustr list \<Rightarrow> ustr \<Rightarrow> real list) \<Rightarrow> index \<Rightarrow> ustr \<Rightarrow> nat \<Rightarrow> (chunk_meta \<Rightarrow> bool) option
   \<Rightarrow> rag_err + hit list" where
  "bm25_search score ix q k pred =
     (case ix of None \<Rightarrow> Inr []
      | Some sn \<Rightarrow>
         if sn_corpus sn = [] then Inr []
         else
          let scores = score (sn_corpus sn) q;
              positive = filter (\<lambda>p. 0 < snd p) (zip [0 ..< length scores] scores);
              bad = (pred \<noteq> None \<and> list_ex (\<lambda>p. length (sn_metas sn) \<le> fst p) positive);
              kept = filter (\<lambda>p. passes pred (sn_metas sn ! fst p)) positive;
              top = take k (sort_desc snd kept)
          in if bad \<or> list_ex (\<lambda>p. length (sn_metas sn) \<le> fst p \<or> length (sn_ids sn) \<le> fst p) top
             then Inl IndexErr
             else Inr (map (\<lambda>p. \<lparr>hit_id = sn_ids sn ! fst p, hit_doc = sn_corpus sn ! fst p,
                hit_meta = sn_metas sn ! fst p, hit_score = snd p, hit_source = ''bm25'',
                hit_raw = []\<rparr>) top))"

text \<open>A pickle file, and whether the file lock could be taken.\<close>

datatype pickle = NoFile | Corrupt | Payload nat "ustr list" "ustr list" "chunk_meta list"

definition save_to_file :: "bool \<Rightarrow> index \<Rightarrow> pickle \<Rightarrow> pickle" where
  "save_to_file locked ix file =
     (if \<not> locked then file
      else case ix of None \<Rightarrow> Payload 1 [] [] []
      | Some sn \<Rightarrow> Payload 1 (sn_ids sn) (sn_corpus sn) (sn_metas sn))"

definition load_from_file :: "bool \<Rightarrow> pickle \<Rightarrow> index \<Rightarrow> bool \<times> index" where
  "load_from_file locked file ix =
     (case file of NoFile \<Rightarrow> (False, ix)
      | Corrupt \<Rightarrow> (False, ix)
      | Payload v ids docs metas \<Rightarrow>
          if \<not> locked \<or> v \<noteq> 1 \<or> length ids \<noteq> length docs then (False, ix)
          else (True, bm25_build ids docs metas))"

text \<open>The chunks of the vector store, or nothing when reading it fails.\<close>

definition rebuild_from_vector_store ::
  "(ustr list \<times> ustr list \<times> chunk_meta list) option \<Rightarrow> index \<Rightarrow> nat \<times> index" where
  "rebuild_from_vector_store chunks ix =
     (case chunks of None \<Rightarrow> (0, ix)
      | Some (ids, docs, metas) \<Rightarrow> (length ids, bm25_build ids docs metas))"

subsection \<open>Hybrid retrieval\<close>

text \<open>A row of Chroma's answer: id, document, metadata, distance.\<close>

type_synonym vector_row = "ustr \<times> ustr \<times> chunk_meta \<times> real"

definition vector_hits :: "vector_row list \<Rightarrow> hit list" where
  "vector_hits rows = map (\<lambda>(i, d, m, dist). \<lparr>hit_id = i, hit_doc = d, hit_meta = m,
     hit_score = 1 - dist, hit_source = ''vector'', hit_raw = []\<rparr>) rows"

fun rrf_scores :: "real \<Rightarrow> nat \<Rightarrow> hit list \<Rightarrow> (ustr \<times> real) list \<Rightarrow> (ustr \<times> real) list" where
  "rrf_scores weight rank [] acc = acc"
| "rrf_scores weight rank (h # hs) acc = rrf_scores weight (Suc rank) hs
     (AList.update (hit_id h)
        (or_else (map_of acc (hit_id h)) 0 + weight / (60 + real rank + 1)) acc)"

definition doc_map :: "hit list \<Rightarrow> hit list \<Rightarrow> (ustr \<times> hit) list" where
  "doc_map vs bs =
     fold (\<lambda>h acc. if map_of acc (hit_id h) = None then AList.update (hit_id h) h acc else acc) bs
       (fold (\<lambda>h acc. AList.update (hit_id h) h acc) vs [])"

definition raw_scores :: "hit list \<Rightarrow> hit list \<Rightarrow> ustr \<Rightarrow> (string \<times> real) list" where
  "raw_scores vs bs i =
     (case find (\<lambda>h. hit_id h = i) (rev vs) of None \<Rightarrow> [] | Some h \<Rightarrow> [(''vector'', hit_score h)])
     @ (case find (\<lambda>h. hit_id h = i) (rev bs) of None \<Rightarrow> [] | Some h \<Rightarrow> [(''bm25'', hit_score h)])"

definition rrf_fuse :: "hit list \<Rightarrow> hit list \<Rightarrow> nat \<Rightarrow> real \<Rightarrow> real \<Rightarrow> hit list" where
  "rrf_fuse vs bs k vw bw =
     (let scores = rrf_scores bw 0 bs (rrf_scores vw 0 vs []);
          docs = doc_map vs bs
      in map (\<lambda>(i, sc). let d = the (map_of docs i) in
           \<lparr>hit_id = hit_id d, hit_doc = hit_doc d, hit_meta = hit_meta d, hit_score = sc,
            hit_source = ''fused'', hit_raw = raw_scores vs bs i\<rparr>)
         (take k (sort_desc snd scores)))"

record retrieve_env =
  re_vector :: "ustr \<Rightarrow> nat \<Rightarrow> where_clause option \<Rightarrow> vector_row list option"
  re_score :: "ustr list \<Rightarrow> ustr \<Rightarrow> real list"
  re_index :: index

definition bm25_hits ::
  "retrieve_env \<Rightarrow> ustr \<Rightarrow> nat \<Rightarrow> filters option \<Rightarrow> rag_err + hit list" where
  "bm25_hits e q k f = bm25_search (re_score e) (re_index e) q k
     (case f of None \<Rightarrow> None | Some g \<Rightarrow> if filters_empty g then None else Some (matches_metadata g))"

definition retrieve ::
  "retrieve_env \<Rightarrow> ustr \<Rightarrow> nat \<Rightarrow> real \<Rightarrow> real \<Rightarrow> bool \<Rightarrow> bool \<Rightarrow> filters option
   \<Rightarrow> rag_err + hit list" where
  "retrieve e q k vw bw vector_only bm25_only f =
     (let answer = (if bm25_only then Some []
            else re_vector e q k (case f of None \<Rightarrow> None | Some g \<Rightarrow> to_chroma_where g));
          vs = vector_hits (or_else answer []);
          bm_only = (bm25_only \<or> answer = None)
      in case (if \<not> vector_only \<and> 0 < bm25_size (re_index e) then bm25_hits e q k f else Inr []) of
           Inl err \<Rightarrow> Inl err
         | Inr bs \<Rightarrow>
             if vector_only \<or> bs = [] then Inr (take k vs)
             else if bm_only \<or> vs = [] then Inr (take k bs)
             else Inr (rrf_fuse vs bs k vw bw))"

subsection \<open>Re-ranking\<close>

text \<open>
  The indices the model's answer names, in its order: \<open>None\<close> when a token that looks like a
  number is not one \<open>int\<close> reads, which raises and is caught by the caller.
\<close>

fun parse_tokens :: "nat \<Rightarrow> ustr list \<Rightarrow> nat list \<Rightarrow> nat list option" where
  "parse_tokens n [] acc = Some acc"
| "parse_tokens n (t # ts) acc =
     (let w = strip_chars [91, 93] t in
      if isdigit w then
        (case int_of_digits w of None \<Rightarrow> None
         | Some i \<Rightarrow> parse_tokens n ts (if i < n \<and> i \<notin> set acc then acc @ [i] else acc))
      else parse_tokens n ts acc)"

definition parse_ranking :: "nat \<Rightarrow> ustr \<Rightarrow> nat list option" where
  "parse_ranking n answer = parse_tokens n (split_on 44 (filter (\<lambda>c. c \<noteq> 32) (strip answer))) []"

definition apply_ranking :: "'a list \<Rightarrow> nat list \<Rightarrow> 'a list" where
  "apply_ranking xs idx = map ((!) xs) (idx @ filter (\<lambda>i. i \<notin> set idx) [0 ..< length xs])"

text \<open>No configured model passes the results through; so does any failure of the call.\<close>

definition rerank :: "(ustr \<Rightarrow> 'a list \<Rightarrow> ustr option) option \<Rightarrow> ustr \<Rightarrow> 'a list \<Rightarrow> nat \<Rightarrow> 'a list" where
  "rerank model q xs k =
     (if xs = [] then []
      else case model of None \<Rightarrow> take k xs
      | Some ask \<Rightarrow> (case ask q xs of None \<Rightarrow> take k xs
          | Some answer \<Rightarrow> (case parse_ranking (length xs) answer of None \<Rightarrow> take k xs
              | Some idx \<Rightarrow> take k (apply_ranking xs idx))))"

subsection \<open>Filters agree\<close>

text \<open>What Chroma documents for the operators the filters use.\<close>

fun chroma_holds :: "where_clause \<Rightarrow> chunk_meta \<Rightarrow> bool" where
  "chroma_holds (WIn f vs) m = (if f = ''source'' then cm_source m \<in> Some ` set vs
     else if f = ''doc_id'' then cm_doc_id m \<in> Some ` set vs else False)"
| "chroma_holds (WGte f n) m = (f = ''indexed_at_epoch'' \<and> (\<exists>t \<in> set_option (cm_epoch m). n \<le> t))"
| "chroma_holds (WLte f n) m = (f = ''indexed_at_epoch'' \<and> (\<exists>t \<in> set_option (cm_epoch m). t \<le> n))"
| "chroma_holds (WAnd cs) m = list_all (\<lambda>c. chroma_holds c m) cs"

text \<open>
  The two forms of a retrieval filter agree. For any evaluation of \<open>where\<close> clauses that
  treats the four operators as Chroma documents them, a chunk passes the clause built from a
  filter exactly when it passes the in-memory predicate; no clause is built exactly for the
  empty filter, which every chunk passes. So the vector channel and the BM25 channel search the
  same chunks.
\<close>

theorem filters_agree:
  assumes "\<And>f vs m. sat (WIn f vs) m = chroma_holds (WIn f vs) m"
    and "\<And>f n m. sat (WGte f n) m = chroma_holds (WGte f n) m"
    and "\<And>f n m. sat (WLte f n) m = chroma_holds (WLte f n) m"
    and "\<And>cs m. sat (WAnd cs) m = (\<forall>c \<in> set cs. sat c m)"
  shows "(to_chroma_where f = None) = filters_empty f
     \<and> (filters_empty f \<longrightarrow> matches_metadata f m)
     \<and> (\<forall>w. to_chroma_where f = Some w \<longrightarrow> sat w m = matches_metadata f m)"
proof -
  let ?s = "or_else (rf_sources f) [] = []" and ?d = "or_else (rf_doc_ids f) [] = []"
  show ?thesis
    by (cases ?s; cases ?d; cases "rf_after f"; cases "rf_before f"; cases "cm_epoch m")
      (auto simp: to_chroma_where_def filters_empty_def matches_metadata_def assms)
qed

theorem filters_agree_witness:
  "\<not> chroma_holds (WAnd [WIn ''source'' [asc ''faq''], WGte ''indexed_at_epoch'' 5]) no_meta"
proof -
  let ?f = "\<lparr>rf_sources = Some [asc ''faq''], rf_doc_ids = None, rf_after = Some 5, rf_before = None\<rparr>"
  have all: "chroma_holds (WAnd cs) m = (\<forall>c \<in> set cs. chroma_holds c m)" for cs m
    by (simp add: list_all_iff)
  note agree = filters_agree [of chroma_holds, OF refl refl refl all]
  have "to_chroma_where ?f = Some (WAnd [WIn ''source'' [asc ''faq''], WGte ''indexed_at_epoch'' 5])"
    by (simp add: to_chroma_where_def)
  moreover have "\<not> matches_metadata ?f no_meta" by (simp add: matches_metadata_def no_meta_def)
  ultimately show ?thesis using agree [of ?f no_meta] by blast
qed

subsection \<open>The index survives a restart\<close>

definition snapshot_ok :: "snapshot \<Rightarrow> bool" where
  "snapshot_ok sn \<longleftrightarrow> length (sn_ids sn) = length (sn_corpus sn)
     \<and> length (sn_metas sn) = length (sn_corpus sn)"

lemma build_ok:
  "length ids = length docs \<Longrightarrow> metas = [] \<or> length metas = length docs \<Longrightarrow>
   \<exists>sn. bm25_build ids docs metas = Some sn \<and> snapshot_ok sn"
  by (auto simp: bm25_build_def snapshot_ok_def)

text \<open>
  The BM25 index survives a restart. What a worker saves of a consistent index, another
  loads back unchanged, whatever it held before; a missing, corrupt or inconsistent file, another
  version or a lock that cannot be taken leave the old index in place and report failure.
\<close>

theorem index_roundtrip:
  assumes "snapshot_ok sn"
  shows "load_from_file True (save_to_file True (Some sn) file) old = (True, Some sn)
     \<and> save_to_file False (Some sn) file = file
     \<and> load_from_file True NoFile old = (False, old)
     \<and> load_from_file True Corrupt old = (False, old)
     \<and> (\<forall>f. load_from_file False f old = (False, old))
     \<and> (\<forall>v ids docs metas. v \<noteq> 1 \<or> length ids \<noteq> length docs \<longrightarrow>
          load_from_file True (Payload v ids docs metas) old = (False, old))"
proof -
  have "bm25_build (sn_ids sn) (sn_corpus sn) (sn_metas sn) = Some sn"
    using assms by (cases sn) (auto simp: bm25_build_def snapshot_ok_def)
  then show ?thesis using assms
    by (auto simp: save_to_file_def load_from_file_def snapshot_ok_def split: pickle.splits)
qed

theorem index_roundtrip_witness:
  "load_from_file True (save_to_file True (Some \<lparr>sn_ids = [[1]], sn_corpus = [[2]], sn_metas = [no_meta]\<rparr>)
     Corrupt) None = (True, Some \<lparr>sn_ids = [[1]], sn_corpus = [[2]], sn_metas = [no_meta]\<rparr>)"
proof -
  have "snapshot_ok \<lparr>sn_ids = [[1]], sn_corpus = [[2]], sn_metas = [no_meta]\<rparr>"
    by (simp add: snapshot_ok_def)
  from index_roundtrip [OF this, of Corrupt None] show ?thesis by blast
qed

subsection \<open>The best matches\<close>

definition hit_of :: "snapshot \<Rightarrow> real list \<Rightarrow> nat \<Rightarrow> hit" where
  "hit_of sn scores i = \<lparr>hit_id = sn_ids sn ! i, hit_doc = sn_corpus sn ! i, hit_meta = sn_metas sn ! i,
     hit_score = scores ! i, hit_source = ''bm25'', hit_raw = []\<rparr>"

lemma sort_desc_take_drop:
  "x \<in> set (take k (sort_desc f xs)) \<Longrightarrow> y \<in> set (drop k (sort_desc f xs)) \<Longrightarrow> f y \<le> f x"
proof -
  have "sorted_wrt (\<lambda>x y. f y \<le> f x) (take k (sort_desc f xs) @ drop k (sort_desc f xs))"
    by (simp add: sorted_sort_desc)
  then show "x \<in> set (take k (sort_desc f xs)) \<Longrightarrow> y \<in> set (drop k (sort_desc f xs)) \<Longrightarrow> f y \<le> f x"
    unfolding sorted_wrt_append by blast
qed

lemma bm25_search_value:
  assumes "snapshot_ok sn" "length scores = length (sn_corpus sn)" "score (sn_corpus sn) q = scores"
  shows "bm25_search score (Some sn) q k pred = Inr (map (\<lambda>p. hit_of sn scores (fst p))
    (take k (sort_desc snd (filter (\<lambda>p. 0 < snd p \<and> passes pred (sn_metas sn ! fst p))
       (zip [0 ..< length scores] scores)))))"
proof (cases "sn_corpus sn = []")
  case True
  then show ?thesis using assms by (simp add: bm25_search_def sort_desc_def)
next
  case False
  let ?pos = "filter (\<lambda>p. 0 < snd p) (zip [0 ..< length scores] scores)"
  let ?kept = "filter (\<lambda>p. passes pred (sn_metas sn ! fst p)) ?pos"
  have inb: "fst p < length (sn_corpus sn) \<and> snd p = scores ! fst p" if "p \<in> set ?pos" for p
    using that assms(2) in_enum [of p scores] by simp
  have bad: "\<not> list_ex (\<lambda>p. length (sn_metas sn) \<le> fst p) ?pos"
  proof -
    have "\<forall>p \<in> set ?pos. fst p < length (sn_corpus sn)" using inb by blast
    then show ?thesis using assms(1) unfolding list_ex_iff snapshot_ok_def by (metis not_le)
  qed
  have top: "p \<in> set ?pos" if "p \<in> set (take k (sort_desc snd ?kept))" for p
    using set_take_subset [of k "sort_desc snd ?kept"] that by auto
  have bad2: "\<not> list_ex (\<lambda>p. length (sn_metas sn) \<le> fst p \<or> length (sn_ids sn) \<le> fst p)
      (take k (sort_desc snd ?kept))"
  proof -
    have "\<forall>p \<in> set (take k (sort_desc snd ?kept)). fst p < length (sn_corpus sn)"
      using top inb by blast
    then show ?thesis using assms(1) unfolding list_ex_iff snapshot_ok_def by (metis not_le)
  qed
  have kept: "?kept = filter (\<lambda>p. 0 < snd p \<and> passes pred (sn_metas sn ! fst p)) (zip [0 ..< length scores] scores)"
    by (simp add: conj_commute)
  have "map (\<lambda>p. \<lparr>hit_id = sn_ids sn ! fst p, hit_doc = sn_corpus sn ! fst p,
      hit_meta = sn_metas sn ! fst p, hit_score = snd p, hit_source = ''bm25'', hit_raw = []\<rparr>)
      (take k (sort_desc snd ?kept)) = map (\<lambda>p. hit_of sn scores (fst p)) (take k (sort_desc snd ?kept))"
  proof (rule map_cong [OF refl])
    fix p assume "p \<in> set (take k (sort_desc snd ?kept))"
    then have "snd p = scores ! fst p" using top inb by blast
    then show "\<lparr>hit_id = sn_ids sn ! fst p, hit_doc = sn_corpus sn ! fst p,
      hit_meta = sn_metas sn ! fst p, hit_score = snd p, hit_source = ''bm25'', hit_raw = []\<rparr>
      = hit_of sn scores (fst p)" by (simp add: hit_of_def)
  qed
  then have "bm25_search score (Some sn) q k pred =
      Inr (map (\<lambda>p. hit_of sn scores (fst p)) (take k (sort_desc snd ?kept)))"
    unfolding bm25_search_def Let_def assms(3) option.case if_not_P [OF False]
    using bad bad2 by (simp only: if_False de_Morgan_disj de_Morgan_conj simp_thms)
  then show ?thesis unfolding kept .
qed

text \<open>
  C19: BM25 search returns the best matches. On a consistent index it never fails; the hits are
  at most k, best first, and each is a document of the index with a positive score that passes the
  filter; a document that passes with a positive score and is not returned scores no better than
  any of the k that are. The filter is applied before the cut, so it never costs matches.
\<close>

theorem bm25_search_best:
  assumes "snapshot_ok sn" "length scores = length (sn_corpus sn)" "score (sn_corpus sn) q = scores"
  shows "\<exists>hs. bm25_search score (Some sn) q k pred = Inr hs \<and> length hs \<le> k
     \<and> sorted_wrt (\<lambda>x y. hit_score y \<le> hit_score x) hs
     \<and> (\<forall>h \<in> set hs. \<exists>i < length scores. h = hit_of sn scores i \<and> 0 < scores ! i
          \<and> passes pred (sn_metas sn ! i))
     \<and> (\<forall>i < length scores. 0 < scores ! i \<and> passes pred (sn_metas sn ! i) \<longrightarrow>
          hit_of sn scores i \<in> set hs
          \<or> length hs = k \<and> (\<forall>h \<in> set hs. scores ! i \<le> hit_score h))"
proof -
  define ks where "ks = filter (\<lambda>p. 0 < snd p \<and> passes pred (sn_metas sn ! fst p))
    (zip [0 ..< length scores] scores)"
  define sorted_ks where "sorted_ks = sort_desc snd ks"
  let ?top = "take k sorted_ks"
  let ?f = "\<lambda>p. hit_of sn scores (fst p)"
  have kept: "p \<in> set ks \<longleftrightarrow> (\<exists>i < length scores. p = (i, scores ! i) \<and> 0 < scores ! i
      \<and> passes pred (sn_metas sn ! i))" for p
    using in_enum [of p scores] unfolding ks_def by (cases p) auto
  have mem: "set sorted_ks = set ks" by (simp add: sorted_ks_def)
  have sub: "p \<in> set ks" if "p \<in> set ?top" for p
    using that set_take_subset [of k sorted_ks] mem by blast
  have sc: "hit_score (?f p) = snd p" if "p \<in> set ks" for p
    using that unfolding kept by (auto simp: hit_of_def)
  have desc: "sorted_wrt (\<lambda>x y. snd y \<le> snd x) ?top"
    by (simp add: sorted_ks_def sorted_wrt_take sorted_sort_desc)
  have sorted: "sorted_wrt (\<lambda>x y. hit_score y \<le> hit_score x) (map ?f ?top)"
    unfolding sorted_wrt_map
  proof (rule sorted_wrt_mono_rel [OF _ desc])
    fix x y assume "x \<in> set ?top" "y \<in> set ?top" "snd y \<le> snd x"
    then show "hit_score (?f y) \<le> hit_score (?f x)" using sc [OF sub [of x]] sc [OF sub [of y]] by simp
  qed
  have from_index: "\<forall>h \<in> set (map ?f ?top). \<exists>i < length scores. h = hit_of sn scores i \<and> 0 < scores ! i
      \<and> passes pred (sn_metas sn ! i)"
  proof
    fix h assume "h \<in> set (map ?f ?top)"
    then obtain p where p: "p \<in> set ?top" "h = ?f p" by auto
    from sub [OF p(1)] obtain i where "i < length scores" "p = (i, scores ! i)" "0 < scores ! i"
      "passes pred (sn_metas sn ! i)" unfolding kept by blast
    then show "\<exists>i < length scores. h = hit_of sn scores i \<and> 0 < scores ! i
      \<and> passes pred (sn_metas sn ! i)" using p(2) by auto
  qed
  have best: "hit_of sn scores i \<in> set (map ?f ?top)
      \<or> length (map ?f ?top) = k \<and> (\<forall>h \<in> set (map ?f ?top). scores ! i \<le> hit_score h)"
    if "i < length scores" "0 < scores ! i" "passes pred (sn_metas sn ! i)" for i
  proof -
    let ?p = "(i, scores ! i)"
    have "?p \<in> set sorted_ks" unfolding mem kept using that by blast
    then consider "?p \<in> set ?top" | "?p \<in> set (drop k sorted_ks)"
      by (metis append_take_drop_id Un_iff set_append)
    then show ?thesis
    proof cases
      case 1
      then have "?f ?p \<in> ?f ` set ?top" by (rule imageI)
      then show ?thesis by simp
    next
      case 2
      then have "k < length sorted_ks" by (cases "k < length sorted_ks") simp_all
      then have "length (map ?f ?top) = k" by simp
      moreover have "scores ! i \<le> hit_score (?f p)" if "p \<in> set ?top" for p
        using sort_desc_take_drop [of p k snd ks ?p] that 2 sc [OF sub [OF that]]
        unfolding sorted_ks_def by simp
      ultimately show ?thesis by simp
    qed
  qed
  show ?thesis
  proof (intro exI conjI)
    show "bm25_search score (Some sn) q k pred = Inr (map ?f ?top)"
      unfolding sorted_ks_def ks_def
      by (rule bm25_search_value [where score = score and q = q, OF assms])
    show "length (map ?f ?top) \<le> k" by simp
    show "\<forall>i < length scores. 0 < scores ! i \<and> passes pred (sn_metas sn ! i) \<longrightarrow>
          hit_of sn scores i \<in> set (map ?f ?top)
          \<or> length (map ?f ?top) = k \<and> (\<forall>h \<in> set (map ?f ?top). scores ! i \<le> hit_score h)"
      using best by blast
  qed (fact sorted, fact from_index)
qed

theorem bm25_search_best_witness:
  "\<exists>hs. bm25_search (\<lambda>_ _. [1, 3, 2])
     (Some \<lparr>sn_ids = [[1], [2], [3]], sn_corpus = [[7], [8], [9]], sn_metas = [no_meta, no_meta, no_meta]\<rparr>)
     [7] 2 None = Inr hs \<and> length hs \<le> 2"
proof -
  let ?sn = "\<lparr>sn_ids = [[1], [2], [3]], sn_corpus = [[7], [8], [9]], sn_metas = [no_meta, no_meta, no_meta]\<rparr>"
  have "snapshot_ok ?sn" "length [1, 3, 2 :: real] = length (sn_corpus ?sn)"
    by (simp_all add: snapshot_ok_def)
  from bm25_search_best [where score = "\<lambda>_ _. [1, 3, 2]" and q = "[7]" and k = 2 and pred = None,
      OF this refl] show ?thesis by auto
qed

subsection \<open>Reciprocal rank fusion\<close>

text \<open>What one ranking contributes to an id: \<open>weight / (60 + rank + 1)\<close> for each of its hits.\<close>

fun contrib :: "real \<Rightarrow> nat \<Rightarrow> hit list \<Rightarrow> ustr \<Rightarrow> real" where
  "contrib weight rank [] i = 0"
| "contrib weight rank (h # hs) i =
     (if hit_id h = i then weight / (60 + real rank + 1) else 0) + contrib weight (Suc rank) hs i"

lemma map_of_rrf_scores:
  "map_of (rrf_scores w r hs acc) i =
     (if i \<in> hit_id ` set hs \<or> map_of acc i \<noteq> None
      then Some (or_else (map_of acc i) 0 + contrib w r hs i) else None)"
proof (induction hs arbitrary: r acc)
  case Nil
  then show ?case by (cases "map_of acc i") auto
next
  case (Cons h hs)
  show ?case unfolding rrf_scores.simps Cons.IH
    by (cases "hit_id h = i") (auto simp: map_of_AList_update)
qed

lemma distinct_rrf_scores:
  "distinct (map fst acc) \<Longrightarrow> distinct (map fst (rrf_scores w r hs acc))"
  by (induction hs arbitrary: r acc) (simp_all add: distinct_update)

lemma contrib_absent: "i \<notin> hit_id ` set hs \<Longrightarrow> contrib w r hs i = 0"
  by (induction hs arbitrary: r) auto

lemma contrib_bound:
  "0 \<le> w \<Longrightarrow> distinct (map hit_id hs) \<Longrightarrow> 0 \<le> contrib w r hs i \<and> contrib w r hs i \<le> w / (61 + real r)"
proof (induction hs arbitrary: r)
  case (Cons h hs)
  show ?case
  proof (cases "hit_id h = i")
    case True
    then have "contrib w (Suc r) hs i = 0" using Cons.prems by (intro contrib_absent) auto
    then show ?thesis using True Cons.prems(1) by (simp add: add.commute)
  next
    case False
    have "w / (61 + real (Suc r)) \<le> w / (61 + real r)" using Cons.prems(1)
      by (intro divide_left_mono) auto
    moreover have "0 \<le> contrib w (Suc r) hs i \<and> contrib w (Suc r) hs i \<le> w / (61 + real (Suc r))"
      using Cons.IH [of "Suc r"] Cons.prems by simp
    ultimately show ?thesis using False by auto
  qed
qed simp

lemma find_snoc:
  "find P (xs @ [y]) = (case find P xs of None \<Rightarrow> if P y then Some y else None | Some z \<Rightarrow> Some z)"
  by (induction xs) auto

lemma doc_map_vs:
  "map_of (fold (\<lambda>h acc. AList.update (hit_id h) h acc) vs acc) i =
     (case find (\<lambda>h. hit_id h = i) (rev vs) of None \<Rightarrow> map_of acc i | Some h \<Rightarrow> Some h)"
proof (induction vs arbitrary: acc)
  case (Cons h vs)
  show ?case unfolding fold.simps o_apply Cons.IH rev.simps find_snoc
    by (simp add: map_of_AList_update split: option.splits)
qed simp

lemma doc_map_bs:
  "map_of (fold (\<lambda>h acc. if map_of acc (hit_id h) = None then AList.update (hit_id h) h acc else acc) bs acc) i =
     (case map_of acc i of None \<Rightarrow> find (\<lambda>h. hit_id h = i) bs | Some h \<Rightarrow> Some h)"
  by (induction bs arbitrary: acc) (auto simp: map_of_AList_update split: option.splits)

lemma doc_map_some:
  assumes "i \<in> hit_id ` (set vs \<union> set bs)"
  shows "\<exists>d \<in> set vs \<union> set bs. map_of (doc_map vs bs) i = Some d \<and> hit_id d = i
     \<and> (i \<in> hit_id ` set vs \<longrightarrow> d \<in> set vs)"
proof (cases "find (\<lambda>h. hit_id h = i) (rev vs)")
  case None
  then have no: "i \<notin> hit_id ` set vs" by (auto simp: find_None_iff')
  then have "find (\<lambda>h. hit_id h = i) bs \<noteq> None" using assms by (auto simp: find_None_iff')
  then obtain d where "find (\<lambda>h. hit_id h = i) bs = Some d" by blast
  with hd_filter_find [OF this] None no show ?thesis
    unfolding doc_map_def doc_map_bs doc_map_vs by auto
next
  case (Some d)
  with hd_filter_find [OF Some] show ?thesis
    unfolding doc_map_def doc_map_bs doc_map_vs by auto
qed

text \<open>The k best entries of a dictionary of scores.\<close>

lemma top_scores:
  fixes sc :: "('a \<times> real) list"
  assumes dist: "distinct (map fst sc)"
    and val: "\<And>i. map_of sc i = (if i \<in> ids then Some (s i) else None)"
  shows "distinct (map fst (take k (sort_desc snd sc)))"
    and "length (take k (sort_desc snd sc)) = min k (card ids)"
    and "sorted_wrt (\<lambda>p q. snd q \<le> snd p) (take k (sort_desc snd sc))"
    and "p \<in> set (take k (sort_desc snd sc)) \<Longrightarrow> fst p \<in> ids \<and> snd p = s (fst p)"
    and "i \<in> ids \<Longrightarrow> i \<notin> fst ` set (take k (sort_desc snd sc)) \<Longrightarrow>
         p \<in> set (take k (sort_desc snd sc)) \<Longrightarrow> s i \<le> snd p"
proof -
  let ?srt = "sort_desc snd sc"
  have mem: "q \<in> set sc \<longleftrightarrow> fst q \<in> ids \<and> snd q = s (fst q)" for q
  proof -
    have "q \<in> set sc \<longleftrightarrow> map_of sc (fst q) = Some (snd q)" using map_of_eq_Some_iff [OF dist] by simp
    then show ?thesis unfolding val by auto
  qed
  have dist_srt: "distinct (map fst ?srt)" using dist by (simp add: distinct_map)
  show "distinct (map fst (take k ?srt))" using distinct_take [OF dist_srt] by (simp add: take_map)
  have "ids = fst ` set ?srt" using mem by force
  then have "card ids = length ?srt" using distinct_card [OF dist_srt] by simp
  then show "length (take k ?srt) = min k (card ids)" by (simp add: min.commute)
  show "sorted_wrt (\<lambda>p q. snd q \<le> snd p) (take k ?srt)"
    by (simp add: sorted_wrt_take sorted_sort_desc)
  show top: "p \<in> set (take k ?srt) \<Longrightarrow> fst p \<in> ids \<and> snd p = s (fst p)"
    using set_take_subset [of k ?srt] mem [of p] by auto
  assume i: "i \<in> ids" "i \<notin> fst ` set (take k ?srt)" "p \<in> set (take k ?srt)"
  have "(i, s i) \<in> set ?srt" using i(1) mem by simp
  moreover have "(i, s i) \<notin> set (take k ?srt)" using i(2) by force
  ultimately have "(i, s i) \<in> set (drop k ?srt)" by (metis Un_iff append_take_drop_id set_append)
  from sort_desc_take_drop [OF i(3) this] show "s i \<le> snd p" by simp
qed

text \<open>
  C18: fusing is a ranking by the sum of the reciprocal ranks. Each id of the two channels has at
  most one fused hit, there are k of them or all, best first; a hit's score is the sum of what the
  two rankings give its id, its content is that of a channel (the vector channel's when it found
  the id), and an id left out scores no better than any that is kept. With weights that are not
  negative and channels without duplicates, a score never exceeds \<open>(vw + bw) / 61\<close>.
\<close>

theorem rrf_fuse_ranking:
  fixes vs bs :: "hit list" and vw bw :: real
  defines "score \<equiv> \<lambda>i. contrib vw 0 vs i + contrib bw 0 bs i"
    and "ids \<equiv> hit_id ` (set vs \<union> set bs)"
  shows "let fused = rrf_fuse vs bs k vw bw in
     distinct (map hit_id fused) \<and> length fused = min k (card ids)
     \<and> sorted_wrt (\<lambda>x y. hit_score y \<le> hit_score x) fused
     \<and> (\<forall>h \<in> set fused. hit_score h = score (hit_id h)
          \<and> (\<exists>d \<in> set vs \<union> set bs. hit_id d = hit_id h \<and> hit_doc d = hit_doc h \<and> hit_meta d = hit_meta h
               \<and> (hit_id h \<in> hit_id ` set vs \<longrightarrow> d \<in> set vs)))
     \<and> (\<forall>i \<in> ids. i \<notin> hit_id ` set fused \<longrightarrow> (\<forall>h \<in> set fused. score i \<le> hit_score h))
     \<and> (0 \<le> vw \<and> 0 \<le> bw \<and> distinct (map hit_id vs) \<and> distinct (map hit_id bs) \<longrightarrow>
          (\<forall>h \<in> set fused. 0 \<le> hit_score h \<and> hit_score h \<le> (vw + bw) / 61))"
proof -
  define sc where "sc = rrf_scores bw 0 bs (rrf_scores vw 0 vs [])"
  define top where "top = take k (sort_desc snd sc)"
  define mk where "mk = (\<lambda>p :: ustr \<times> real. let d = the (map_of (doc_map vs bs) (fst p)) in
     \<lparr>hit_id = hit_id d, hit_doc = hit_doc d, hit_meta = hit_meta d, hit_score = snd p,
      hit_source = ''fused'', hit_raw = raw_scores vs bs (fst p)\<rparr>)"
  have fused: "rrf_fuse vs bs k vw bw = map mk top"
    by (simp add: rrf_fuse_def sc_def top_def mk_def Let_def case_prod_beta)
  have dist: "distinct (map fst sc)" unfolding sc_def by (intro distinct_rrf_scores) simp
  have val: "map_of sc i = (if i \<in> ids then Some (score i) else None)" for i
    unfolding sc_def map_of_rrf_scores ids_def score_def by (auto simp: contrib_absent)
  note tops = top_scores [where k = k, OF dist val, folded top_def]
  have mk: "hit_id (mk p) = fst p" "hit_score (mk p) = score (fst p)"
      "\<exists>d \<in> set vs \<union> set bs. hit_id d = fst p \<and> hit_doc d = hit_doc (mk p) \<and> hit_meta d = hit_meta (mk p)
         \<and> (fst p \<in> hit_id ` set vs \<longrightarrow> d \<in> set vs)" "snd p = score (fst p)" if "p \<in> set top" for p
    using doc_map_some [of "fst p" vs bs] tops(4) [OF that] unfolding ids_def
    by (auto simp: mk_def Let_def)
  have "map hit_id (map mk top) = map fst top" using mk(1) by simp
  then have distinct: "distinct (map hit_id (map mk top))" using tops(1) by (simp only:)
  have sorted: "sorted_wrt (\<lambda>x y. hit_score y \<le> hit_score x) (map mk top)"
    unfolding sorted_wrt_map by (rule sorted_wrt_mono_rel [OF _ tops(3)]) (simp add: mk)
  have best: "\<forall>i \<in> ids. i \<notin> hit_id ` set (map mk top) \<longrightarrow> (\<forall>h \<in> set (map mk top). score i \<le> hit_score h)"
    using tops(5) mk(1,2,4) by (auto simp: image_iff)
  have bound: "0 \<le> vw \<and> 0 \<le> bw \<and> distinct (map hit_id vs) \<and> distinct (map hit_id bs) \<longrightarrow>
      0 \<le> score i \<and> score i \<le> (vw + bw) / 61" for i
    using contrib_bound [of vw vs 0 i] contrib_bound [of bw bs 0 i]
    by (auto simp: score_def add_divide_distrib)
  have hits: "\<forall>h \<in> set (map mk top). hit_score h = score (hit_id h)
      \<and> (\<exists>d \<in> set vs \<union> set bs. hit_id d = hit_id h \<and> hit_doc d = hit_doc h \<and> hit_meta d = hit_meta h
           \<and> (hit_id h \<in> hit_id ` set vs \<longrightarrow> d \<in> set vs))"
  proof
    fix h assume "h \<in> set (map mk top)"
    then obtain p where p: "p \<in> set top" "h = mk p" by auto
    show "hit_score h = score (hit_id h)
      \<and> (\<exists>d \<in> set vs \<union> set bs. hit_id d = hit_id h \<and> hit_doc d = hit_doc h \<and> hit_meta d = hit_meta h
           \<and> (hit_id h \<in> hit_id ` set vs \<longrightarrow> d \<in> set vs))"
      using mk [OF p(1)] unfolding p(2) by metis
  qed
  show ?thesis unfolding Let_def fused length_map
    by (intro conjI distinct sorted hits best tops(2)) (metis hits bound)
qed

definition sample_hit :: "ustr \<Rightarrow> string \<Rightarrow> real \<Rightarrow> hit" where
  "sample_hit i src sc = \<lparr>hit_id = i, hit_doc = asc ''text'', hit_meta = no_meta, hit_score = sc,
     hit_source = src, hit_raw = []\<rparr>"

theorem rrf_fuse_ranking_witness:
  "length (rrf_fuse [sample_hit [1] ''vector'' 1] [sample_hit [2] ''bm25'' 9] 5 (3/5) (2/5)) = 2
     \<and> list_all (\<lambda>h. 0 \<le> hit_score h \<and> hit_score h \<le> 1 / 61)
        (rrf_fuse [sample_hit [1] ''vector'' 1] [sample_hit [2] ''bm25'' 9] 5 (3/5) (2/5))"
proof -
  let ?v = "sample_hit [1] ''vector'' 1" and ?b = "sample_hit [2] ''bm25'' 9"
  have "card (hit_id ` (set [?v] \<union> set [?b])) = 2" by (simp add: sample_hit_def)
  with rrf_fuse_ranking [of "[?v]" "[?b]" 5 "3/5" "2/5"] show ?thesis
    unfolding Let_def list_all_iff by simp
qed

subsection \<open>Retrieval degrades\<close>

definition env_ok :: "retrieve_env \<Rightarrow> bool" where
  "env_ok e \<longleftrightarrow> (case re_index e of None \<Rightarrow> True | Some sn \<Rightarrow> snapshot_ok sn
     \<and> (\<forall>q. length (re_score e (sn_corpus sn) q) = length (sn_corpus sn)))"

lemma bm25_hits_ok:
  assumes "env_ok e"
  shows "\<exists>bs. bm25_hits e q k f = Inr bs \<and> length bs \<le> k"
proof (cases "re_index e")
  case None
  then show ?thesis by (simp add: bm25_hits_def bm25_search_def)
next
  case (Some sn)
  with assms have "snapshot_ok sn" "length (re_score e (sn_corpus sn) q) = length (sn_corpus sn)"
    by (simp_all add: env_ok_def)
  from bm25_search_value [where score = "re_score e" and q = q, OF this refl] Some
  show ?thesis by (simp add: bm25_hits_def)
qed

lemma bm25_hits_empty: "bm25_size (re_index e) = 0 \<Longrightarrow> bm25_hits e q k f = Inr []"
  by (auto simp: bm25_hits_def bm25_search_def bm25_size_def split: option.splits)

lemma length_rrf_fuse: "length (rrf_fuse vs bs k vw bw) \<le> k"
  by (simp add: rrf_fuse_def Let_def)

text \<open>
  C17: one failing channel leaves the other. With a consistent index retrieval always answers, with
  at most k hits. When the vector channel fails or finds nothing, the answer is the BM25 one; when
  BM25 has no index or finds nothing, it is the vector one; the channel a mode excludes has no
  influence, whatever it would have answered; and both channels with hits are fused.
\<close>

theorem retrieve_degrades:
  assumes "env_ok e"
  shows "\<exists>bs. bm25_hits e q k f = Inr bs
     \<and> (let rows = re_vector e q k (case f of None \<Rightarrow> None | Some g \<Rightarrow> to_chroma_where g);
            vs = vector_hits (or_else rows [])
        in retrieve e q k vw bw True False f = Inr (take k vs)
         \<and> retrieve e q k vw bw False True f = Inr bs
         \<and> retrieve e q k vw bw True True f = Inr []
         \<and> (rows = None \<or> vs = [] \<longrightarrow> retrieve e q k vw bw False False f = Inr bs)
         \<and> (bs = [] \<longrightarrow> retrieve e q k vw bw False False f = Inr (take k vs))
         \<and> (vs \<noteq> [] \<and> bs \<noteq> [] \<longrightarrow>
              retrieve e q k vw bw False False f = Inr (rrf_fuse vs bs k vw bw)))
     \<and> (\<forall>vonly bonly hs. retrieve e q k vw bw vonly bonly f = Inr hs \<longrightarrow> length hs \<le> k)"
proof -
  obtain bs where bs: "bm25_hits e q k f = Inr bs" "length bs \<le> k" using bm25_hits_ok [OF assms] by blast
  have called: "(if 0 < bm25_size (re_index e) then bm25_hits e q k f else Inr []) = Inr bs"
    using bs bm25_hits_empty [of e q k f] by auto
  have len: "length hs \<le> k" if "retrieve e q k vw bw vonly bonly f = Inr hs" for vonly bonly hs
    using that called by (auto simp: retrieve_def Let_def length_rrf_fuse split: if_splits sum.splits)
  show ?thesis
  proof (intro exI conjI allI impI)
    show "bm25_hits e q k f = Inr bs" by (rule bs)
    show "let rows = re_vector e q k (case f of None \<Rightarrow> None | Some g \<Rightarrow> to_chroma_where g);
            vs = vector_hits (or_else rows [])
        in retrieve e q k vw bw True False f = Inr (take k vs)
         \<and> retrieve e q k vw bw False True f = Inr bs
         \<and> retrieve e q k vw bw True True f = Inr []
         \<and> (rows = None \<or> vs = [] \<longrightarrow> retrieve e q k vw bw False False f = Inr bs)
         \<and> (bs = [] \<longrightarrow> retrieve e q k vw bw False False f = Inr (take k vs))
         \<and> (vs \<noteq> [] \<and> bs \<noteq> [] \<longrightarrow>
              retrieve e q k vw bw False False f = Inr (rrf_fuse vs bs k vw bw))"
      using called bs(2) by (auto simp: retrieve_def Let_def vector_hits_def)
  qed (rule len)
qed

theorem retrieve_degrades_witness:
  "\<exists>e bs. re_index e \<noteq> None \<and> (\<forall>q k w. re_vector e q k w = None)
     \<and> bm25_hits e [7] 3 None = Inr bs \<and> retrieve e [7] 3 (3/5) (2/5) False False None = Inr bs"
proof -
  let ?e = "\<lparr>re_vector = \<lambda>_ _ _. None, re_score = \<lambda>c _. map (\<lambda>_. 1) c,
     re_index = Some \<lparr>sn_ids = [[1]], sn_corpus = [[7]], sn_metas = [no_meta]\<rparr>\<rparr>"
  have "env_ok ?e" by (simp add: env_ok_def snapshot_ok_def)
  from retrieve_degrades [OF this, of "[7]" 3 None "3/5" "2/5"] show ?thesis
    by (intro exI [of _ ?e]) (auto simp: Let_def)
qed

subsection \<open>Re-ranking permutes\<close>

lemma parse_tokens_sound:
  "parse_tokens n ts acc = Some idx \<Longrightarrow> distinct acc \<Longrightarrow> (\<forall>i \<in> set acc. i < n) \<Longrightarrow>
   distinct idx \<and> (\<forall>i \<in> set idx. i < n) \<and> (\<exists>more. idx = acc @ more)"
proof (induction ts arbitrary: acc)
  case (Cons t ts)
  let ?w = "strip_chars [91, 93] t"
  show ?case
  proof (cases "isdigit ?w \<and> (\<exists>i. int_of_digits ?w = Some i \<and> i < n \<and> i \<notin> set acc)")
    case True
    then obtain i where "isdigit ?w" "int_of_digits ?w = Some i" "i < n" "i \<notin> set acc" by blast
    then show ?thesis using Cons.prems Cons.IH [of "acc @ [i]"] by (auto simp: Let_def)
  next
    case False
    then have "parse_tokens n ts acc = Some idx" using Cons.prems(1)
      by (auto simp: Let_def split: if_splits option.splits)
    then show ?thesis using Cons.prems Cons.IH by blast
  qed
qed simp

lemma apply_ranking_mset:
  assumes "distinct idx" "\<forall>i \<in> set idx. i < length xs"
  shows "mset (apply_ranking xs idx) = mset xs"
proof -
  have "mset (idx @ filter (\<lambda>i. i \<notin> set idx) [0 ..< length xs]) = mset [0 ..< length xs]"
    using assms by (intro set_eq_iff_mset_eq_distinct [THEN iffD1]) auto
  then have "mset (apply_ranking xs idx) = image_mset ((!) xs) (mset [0 ..< length xs])"
    unfolding apply_ranking_def mset_map by simp
  also have "\<dots> = mset xs" by (metis map_nth mset_map)
  finally show ?thesis .
qed

text \<open>
  Re-ranking only permutes. Whatever the model answers, the result is the first k entries of
  a permutation of the hits; an answer that names indices puts those first, in the order of their
  first mention, and keeps the order of the rest; without a model, on a failed call or an
  unreadable answer the order is unchanged.
\<close>

theorem rerank_permutes:
  "\<exists>ys. rerank model q xs k = take k ys \<and> mset ys = mset xs
     \<and> (model = None \<or> (\<exists>ask. model = Some ask \<and> ask q xs = None) \<longrightarrow> ys = xs)
     \<and> (\<forall>ask answer. model = Some ask \<and> ask q xs = Some answer \<and> xs \<noteq> [] \<longrightarrow>
          (case parse_ranking (length xs) answer of None \<Rightarrow> ys = xs
           | Some idx \<Rightarrow> distinct idx \<and> (\<forall>i \<in> set idx. i < length xs)
               \<and> ys = map ((!) xs) idx @ map ((!) xs) (filter (\<lambda>i. i \<notin> set idx) [0 ..< length xs])))"
proof (cases "xs = []")
  case True
  then show ?thesis by (simp add: rerank_def)
next
  case False
  have sound: "distinct idx \<and> (\<forall>i \<in> set idx. i < length xs)"
    if "parse_ranking (length xs) answer = Some idx" for answer idx
    using parse_tokens_sound [OF that [unfolded parse_ranking_def]] by simp
  show ?thesis
  proof (cases "model = None \<or> (\<exists>ask. model = Some ask \<and> ask q xs = None)")
    case True
    then show ?thesis using False by (auto simp: rerank_def intro!: exI [of _ xs])
  next
    case called: False
    then obtain ask answer where a: "model = Some ask" "ask q xs = Some answer" by auto
    show ?thesis
    proof (cases "parse_ranking (length xs) answer")
      case None
      then show ?thesis using a False by (intro exI [of _ xs]) (simp add: rerank_def)
    next
      case (Some idx)
      then show ?thesis using a False sound [OF Some] apply_ranking_mset [of idx xs]
        by (intro exI [of _ "apply_ranking xs idx"]) (simp add: rerank_def apply_ranking_def)
    qed
  qed
qed

theorem rerank_permutes_witness:
  "\<exists>ys. rerank (None :: (ustr \<Rightarrow> nat list \<Rightarrow> ustr option) option) [7] [4, 5, 6] 2 = take 2 ys \<and> ys = [4, 5, 6]"
  using rerank_permutes [where model = "None :: (ustr \<Rightarrow> nat list \<Rightarrow> ustr option) option" and q = "[7]"
      and xs = "[4, 5, 6]" and k = 2] by auto

end
