(* ===== verification/Grounding.thy ===== *)
theory Grounding
  imports Retrieval Db
begin

text \<open>
  Honest answers: \<open>rag/grounding.py\<close> (is the evidence strong enough to answer),
  \<open>rag/verifier.py\<close> (are the citations supported) and \<open>chat/confidence.py\<close> (the badge of an
  answer). The judge model's answer and \<open>json.loads\<close> are arguments.

  Lemmas: confidences lie between zero and one, the refusal threshold of each channel, the marker
  scanner keeps exactly the markers of the text, the verdict bands, and the rounding error.
\<close>

subsection \<open>Strength of the evidence\<close>

definition GROUNDED_CONFIDENCE_THRESHOLD :: real where "GROUNDED_CONFIDENCE_THRESHOLD = 35 / 100"
definition MIN_GROUNDED_RESULTS :: nat where "MIN_GROUNDED_RESULTS = 1"
definition BM25_MIDPOINT :: real where "BM25_MIDPOINT = 8"
definition BM25_SCALE :: real where "BM25_SCALE = 4"
definition FUSED_LOOKBACK :: nat where "FUSED_LOOKBACK = 3"
definition REFUSAL_MAX_SOURCES :: nat where "REFUSAL_MAX_SOURCES = 2"

definition REFUSAL_RESPONSE :: ustr where
  "REFUSAL_RESPONSE = [36825, 20010, 38382, 39064, 25105, 22312, 30693, 35782, 24211, 20013, 27809, 26377, 25214, 21040, 36275, 22815,
     21487, 38752, 30340, 20381, 25454, 65292, 20026, 36991, 20813, 35823, 23548, 23601, 19981, 29468, 27979, 20102,
     12290, 24744, 21487, 20197, 25442, 20010, 35828, 27861, 20877, 38382, 65292, 25110, 32773, 25105, 21487, 20197,
     20026, 24744, 36716, 25509, 20154, 24037, 23458, 26381, 12290]"

record grounding =
  g_confidence :: real
  g_grounded :: bool
  g_top_score :: real
  g_channel :: string

definition clamp01 :: "real \<Rightarrow> real" where
  "clamp01 v = max 0 (min 1 v)"

definition squash_bm25 :: "real \<Rightarrow> real" where
  "squash_bm25 raw = 1 / (1 + exp (- (raw - BM25_MIDPOINT) / BM25_SCALE))"

fun max_of :: "real list \<Rightarrow> real" where
  "max_of [] = 0"
| "max_of [x] = x"
| "max_of (x # y # ys) = max x (max_of (y # ys))"

definition fused_confidence :: "hit list \<Rightarrow> real" where
  "fused_confidence hs =
     (let lookback = take FUSED_LOOKBACK hs;
          scores = (\<lambda>ch. List.map_filter (\<lambda>h. map_of (hit_raw h) ch) lookback)
      in if scores ''vector'' \<noteq> [] then clamp01 (max_of (scores ''vector''))
         else if scores ''bm25'' \<noteq> [] then squash_bm25 (max_of (scores ''bm25''))
         else 0)"

definition assess_grounding :: "hit list \<Rightarrow> grounding" where
  "assess_grounding hs =
     (case hs of [] \<Rightarrow> \<lparr>g_confidence = 0, g_grounded = False, g_top_score = 0, g_channel = ''empty''\<rparr>
      | h # _ \<Rightarrow>
          let c = (if hit_source h = ''bm25'' then squash_bm25 (hit_score h)
                else if hit_source h = ''fused'' then fused_confidence hs
                else clamp01 (hit_score h))
          in \<lparr>g_confidence = c,
              g_grounded = (GROUNDED_CONFIDENCE_THRESHOLD \<le> c \<and> MIN_GROUNDED_RESULTS \<le> length hs),
              g_top_score = hit_score h, g_channel = hit_source h\<rparr>)"

definition record_grounding_trace :: "trace \<Rightarrow> grounding \<Rightarrow> trace" where
  "record_grounding_trace t g =
     t\<lparr>t_flags := Some (if g_grounded g then flags_of t
         else append_new ''weak_retrieval_refusal'' (flags_of t)),
       t_retrieval_confidence := Some (g_confidence g),
       t_retrieval_channel := Some (g_channel g)\<rparr>"

lemma clamp01_bounds: "0 \<le> clamp01 v \<and> clamp01 v \<le> 1"
  by (simp add: clamp01_def)

lemma squash_bm25_bounds: "0 < squash_bm25 r \<and> squash_bm25 r < 1"
  by (simp add: squash_bm25_def add_pos_pos)

lemma squash_bm25_mono: "r \<le> r' \<Longrightarrow> squash_bm25 r \<le> squash_bm25 r'"
  by (auto simp: squash_bm25_def BM25_SCALE_def intro!: divide_left_mono add_pos_pos mult_pos_pos)

text \<open>The BM25 channel answers from a raw score of \<open>8 - 4 ln (13/7)\<close> (about 5.52) on.\<close>

lemma squash_bm25_threshold:
  "GROUNDED_CONFIDENCE_THRESHOLD \<le> squash_bm25 r \<longleftrightarrow> 8 - 4 * ln (13 / 7) \<le> r"
proof -
  let ?e = "exp (- (r - 8) / 4)"
  have pos: "0 < 1 + ?e" by (simp add: add_pos_pos)
  have "35 / 100 \<le> 1 / (1 + ?e) \<longleftrightarrow> ?e \<le> 13 / 7" using pos by (simp add: field_simps)
  also have "\<dots> \<longleftrightarrow> - (r - 8) / 4 \<le> ln (13 / 7)" by (rule ln_ge_iff [symmetric]) simp
  also have "\<dots> \<longleftrightarrow> 8 - 4 * ln (13 / 7) \<le> r" by auto
  finally show ?thesis
    by (simp add: squash_bm25_def GROUNDED_CONFIDENCE_THRESHOLD_def BM25_MIDPOINT_def BM25_SCALE_def)
qed

lemma assess_grounding_bounds:
  "0 \<le> g_confidence (assess_grounding hs) \<and> g_confidence (assess_grounding hs) \<le> 1"
  using clamp01_bounds squash_bm25_bounds
  by (auto simp: assess_grounding_def fused_confidence_def Let_def less_imp_le split: list.splits)

text \<open>
  The answer-or-refuse verdict. The normalised confidence of any ranking lies between zero
  and one, and no hits always refuse. Vector hits answer exactly from a score of 0.35, BM25 hits
  exactly from the raw score the logistic curve maps to 0.35, and for fused hits only the raw
  channel scores of the first three matter, never the fused score. The trace records confidence
  and channel and gains the refusal flag exactly on a refusal.
\<close>

theorem grounding_verdict:
  "0 \<le> g_confidence (assess_grounding hs) \<and> g_confidence (assess_grounding hs) \<le> 1
   \<and> \<not> g_grounded (assess_grounding [])
   \<and> (hs \<noteq> [] \<and> hit_source (hd hs) = ''vector'' \<longrightarrow>
        (g_grounded (assess_grounding hs) \<longleftrightarrow> 35 / 100 \<le> hit_score (hd hs)))
   \<and> (hs \<noteq> [] \<and> hit_source (hd hs) = ''bm25'' \<longrightarrow>
        (g_grounded (assess_grounding hs) \<longleftrightarrow> 8 - 4 * ln (13 / 7) \<le> hit_score (hd hs)))
   \<and> (hs \<noteq> [] \<and> hs' \<noteq> [] \<and> hit_source (hd hs) = ''fused'' \<and> hit_source (hd hs') = ''fused''
        \<and> map hit_raw (take 3 hs) = map hit_raw (take 3 hs') \<longrightarrow>
        g_confidence (assess_grounding hs) = g_confidence (assess_grounding hs')
        \<and> g_grounded (assess_grounding hs) = g_grounded (assess_grounding hs'))
   \<and> (let t' = record_grounding_trace t (assess_grounding hs)
      in set (flags_of t') = set (flags_of t)
           \<union> (if g_grounded (assess_grounding hs) then {} else {''weak_retrieval_refusal''})
         \<and> t_retrieval_confidence t' = Some (g_confidence (assess_grounding hs))
         \<and> t_retrieval_channel t' = Some (g_channel (assess_grounding hs)))"
proof -
  have vector: "g_grounded (assess_grounding hs) \<longleftrightarrow> 35 / 100 \<le> hit_score (hd hs)"
    if "hs \<noteq> []" "hit_source (hd hs) = ''vector''"
    using that by (cases hs)
      (auto simp: assess_grounding_def Let_def GROUNDED_CONFIDENCE_THRESHOLD_def MIN_GROUNDED_RESULTS_def
        clamp01_def)
  have bm25: "g_grounded (assess_grounding hs) \<longleftrightarrow> 8 - 4 * ln (13 / 7) \<le> hit_score (hd hs)"
    if "hs \<noteq> []" "hit_source (hd hs) = ''bm25''"
    using that squash_bm25_threshold [of "hit_score (hd hs)"]
    by (cases hs) (simp_all add: assess_grounding_def Let_def MIN_GROUNDED_RESULTS_def)
  have scores: "List.map_filter (\<lambda>h. map_of (hit_raw h) ch) xs
      = List.map_filter (\<lambda>r. map_of r ch) (map hit_raw xs)" for ch and xs :: "hit list"
    by (induction xs) (simp_all add: List.map_filter_def)
  have fused: "fused_confidence hs = fused_confidence hs'" if "map hit_raw (take 3 hs) = map hit_raw (take 3 hs')"
    unfolding fused_confidence_def FUSED_LOOKBACK_def Let_def scores that ..
  have fusedc: "g_confidence (assess_grounding hs) = g_confidence (assess_grounding hs')
        \<and> g_grounded (assess_grounding hs) = g_grounded (assess_grounding hs')"
    if "hs \<noteq> []" "hs' \<noteq> []" "hit_source (hd hs) = ''fused''" "hit_source (hd hs') = ''fused''"
      "map hit_raw (take 3 hs) = map hit_raw (take 3 hs')"
    using that fused by (cases hs; cases hs')
      (simp_all add: assess_grounding_def Let_def MIN_GROUNDED_RESULTS_def)
  have trace: "let t' = record_grounding_trace t (assess_grounding hs)
      in set (flags_of t') = set (flags_of t)
           \<union> (if g_grounded (assess_grounding hs) then {} else {''weak_retrieval_refusal''})
         \<and> t_retrieval_confidence t' = Some (g_confidence (assess_grounding hs))
         \<and> t_retrieval_channel t' = Some (g_channel (assess_grounding hs))"
    by (simp add: record_grounding_trace_def Let_def flags_of_def)
  show ?thesis
    by (intro conjI impI trace)
      (use assess_grounding_bounds vector bm25 fusedc in \<open>simp_all add: assess_grounding_def\<close>)
qed
theorem grounding_verdict_witness:
  "g_grounded (assess_grounding [sample_hit [1] ''vector'' (1 / 2)])"
proof -
  let ?h = "sample_hit [1] ''vector'' (1 / 2)"
  from grounding_verdict [of "[?h]" "[]" empty_trace]
  have "[?h] \<noteq> [] \<and> hit_source (hd [?h]) = ''vector'' \<longrightarrow>
        (g_grounded (assess_grounding [?h]) \<longleftrightarrow> 35 / 100 \<le> hit_score (hd [?h]))" by blast
  then show ?thesis by (simp add: sample_hit_def)
qed

subsection \<open>Citation markers\<close>

definition VERIFY_PARTIAL_THRESHOLD :: real where "VERIFY_PARTIAL_THRESHOLD = 1 / 2"
definition VERIFY_MAX_CHUNK_CHARS :: nat where "VERIFY_MAX_CHUNK_CHARS = 800"
definition VERIFY_JUDGE_TEMPERATURE :: real where "VERIFY_JUDGE_TEMPERATURE = 0"

text \<open>\<open>\[(\d{1,2})\]\<close>.\<close>

definition CITATION_MARKER_RE :: rx where
  "CITATION_MARKER_RE = seqs [lit 91, Rep is_digit 1 (Some 2), lit 93]"

definition marker_number :: "ustr \<Rightarrow> nat \<times> nat \<Rightarrow> nat" where
  "marker_number s m = or_else (int_of_digits (butlast (tl (group0 s m)))) 0"

fun split_citations :: "nat \<Rightarrow> nat list \<Rightarrow> nat list \<Rightarrow> nat list \<Rightarrow> nat list \<times> nat list" where
  "split_citations n [] valid invalid = (valid, invalid)"
| "split_citations n (c # cs) valid invalid =
     (if 1 \<le> c \<and> c \<le> n then split_citations n cs (append_new c valid) invalid
      else split_citations n cs valid (append_new c invalid))"

definition citation_numbers :: "ustr \<Rightarrow> nat list" where
  "citation_numbers answer = map (marker_number answer) (rx_finditer CITATION_MARKER_RE answer)"

definition extract_citations :: "ustr \<Rightarrow> nat \<Rightarrow> nat list \<times> nat list" where
  "extract_citations answer n = split_citations n (citation_numbers answer) [] []"

subsection \<open>The judge\<close>

definition skipped :: "nat list \<Rightarrow> verification" where
  "skipped invalid = \<lparr>vf_checked = False, vf_supported = 0, vf_total = 0, vf_invalid = invalid,
     vf_verdict = ''skipped''\<rparr>"

definition band_verdict :: "nat \<Rightarrow> nat \<Rightarrow> string" where
  "band_verdict supported n =
     (if supported = n then ''pass''
      else if 0 < n \<and> VERIFY_PARTIAL_THRESHOLD \<le> real supported / real n then ''partial''
      else ''fail'')"

definition judge_chunks_block :: "source list \<Rightarrow> ustr" where
  "judge_chunks_block ss = join [10, 10]
     (map (\<lambda>s. [91] @ dec (s_index s) @ [93, 32] @ s_title s @ [10]
        @ take VERIFY_MAX_CHUNK_CHARS (s_chunk s)) ss)"

definition JUDGE_PROMPT :: "ustr \<Rightarrow> ustr \<Rightarrow> ustr" where
  \<open>JUDGE_PROMPT chunks answer =
     asc ''You are a strict fact-checking judge. Given an assistant answer and the numbered context chunks it cites, decide for EACH citation marker whether the claim right before it is actually supported by that chunk.''
     @ [10, 10] @ asc ''Respond with ONLY strict JSON, no prose:''
     @ [10] @ asc ''{"claims": [{"citation": <chunk number>, "supported": true|false}]}''
     @ [10, 10] @ asc ''### Context chunks'' @ [10] @ chunks
     @ [10, 10] @ asc ''### Answer to verify'' @ [10] @ answer\<close>

text \<open>
  \<open>c.get("citation") in cited\<close>: Python compares numbers by value, so \<open>true\<close> is 1 and \<open>1.0\<close> is
  1; a list or dictionary has no hash and raises (\<open>None\<close>).
\<close>

fun cites :: "nat list \<Rightarrow> json option \<Rightarrow> bool option" where
  "cites cited None = Some False"
| "cites cited (Some JNull) = Some False"
| "cites cited (Some (JBool b)) = Some ((if b then 1 else 0) \<in> set cited)"
| "cites cited (Some (JInt i)) = Some (i \<in> int ` set cited)"
| "cites cited (Some (JReal r)) = Some (r \<in> real ` set cited)"
| "cites cited (Some (JStr s)) = Some False"
| "cites cited (Some (JList xs)) = None"
| "cites cited (Some (JDict kvs)) = None"

fun judge_claims :: "nat list \<Rightarrow> json list \<Rightarrow> (nat \<times> nat) option" where
  "judge_claims cited [] = Some (0, 0)"
| "judge_claims cited (JDict c # cs) =
     (case cites cited (map_of c ''citation'') of None \<Rightarrow> None
      | Some hit \<Rightarrow> (case judge_claims cited cs of None \<Rightarrow> None
         | Some (s, n) \<Rightarrow> if hit then Some (if map_of c ''supported'' = Some (JBool True) then Suc s else s, Suc n)
              else Some (s, n)))"
| "judge_claims cited (_ # cs) = judge_claims cited cs"

definition strip_fence :: "ustr \<Rightarrow> ustr" where
  "strip_fence raw = strip_chars [96, 32, 10]
     (remove_suffix (asc ''```'') (remove_prefix (asc ''```json'') (strip raw)))"

text \<open>\<open>None\<close> is an exception: not JSON, not an object, claims that cannot be iterated.\<close>

definition parse_judge_response ::
  "(ustr \<Rightarrow> json option) \<Rightarrow> ustr \<Rightarrow> nat list \<Rightarrow> (nat \<times> nat) option" where
  "parse_judge_response loads raw valid =
     (case loads (strip_fence raw) of
        Some (JDict payload) \<Rightarrow>
          (case or_else (map_of payload ''claims'') (JList []) of
             JList claims \<Rightarrow> judge_claims valid claims
           | JDict _ \<Rightarrow> Some (0, 0)
           | JStr _ \<Rightarrow> Some (0, 0)
           | _ \<Rightarrow> None)
      | _ \<Rightarrow> None)"

text \<open>\<open>chat\<close> is the judge call under its time limit: nothing when it fails or takes too long.\<close>

definition verify_answer ::
  "(ustr \<Rightarrow> json option) \<Rightarrow> (ustr \<Rightarrow> real \<Rightarrow> ustr option) \<Rightarrow> ustr \<Rightarrow> source list \<Rightarrow> verification" where
  "verify_answer loads chat answer ss =
     (let (valid, invalid) = extract_citations answer (length ss)
      in if valid = [] then skipped invalid
         else case chat (JUDGE_PROMPT (judge_chunks_block ss) answer) VERIFY_JUDGE_TEMPERATURE of
           None \<Rightarrow> skipped invalid
         | Some raw \<Rightarrow> (case parse_judge_response loads raw valid of
             None \<Rightarrow> skipped invalid
           | Some (supported, n) \<Rightarrow>
               if n = 0 then skipped invalid
               else \<lparr>vf_checked = True, vf_supported = supported, vf_total = n,
                     vf_invalid = invalid, vf_verdict = band_verdict supported n\<rparr>))"

subsection \<open>The markers of a text\<close>

lemma is_digit_not_bracket [simp]: "\<not> is_digit 91" "\<not> is_digit 93"
  by (simp_all add: is_digit_ascii)

lemma citation_match_iff:
  "rx_match s CITATION_MARKER_RE i j \<longleftrightarrow>
     (\<exists>d b. i \<le> length s \<and> drop i s = 91 # d @ 93 # b \<and> j = i + length d + 2 \<and> 1 \<le> length d \<and> length d \<le> 2
        \<and> list_all is_digit d)" (is "?m \<longleftrightarrow> ?t")
proof
  assume ?m
  then have "rx_match s (Seq (Cls (\<lambda>c. c = 91)) (Seq (Rep is_digit 1 (Some 2)) (Cls (\<lambda>c. c = 93)))) i j"
    by (simp add: CITATION_MARKER_RE_def rx_build)
  then obtain k where i: "i < length s" "s ! i = 91" "i + 1 + k < length s" "s ! (i + 1 + k) = 93"
      "j = i + 1 + k + 1" "1 \<le> k" "k \<le> 2" "\<And>m. m < k \<Longrightarrow> is_digit (s ! (i + 1 + m))"
    by (elim rx_elims rx_repE) (auto simp: add.assoc)
  let ?d = "take k (drop (i + 1) s)"
  have "drop i s = s ! i # drop (i + 1) s" using i(1) by (simp add: Cons_nth_drop_Suc)
  moreover have "drop (i + 1) s = ?d @ drop (i + 1 + k) s"
    by (metis add.commute append_take_drop_id drop_drop)
  moreover have "drop (i + 1 + k) s = s ! (i + 1 + k) # drop (i + 2 + k) s"
    using i(3) by (simp add: Cons_nth_drop_Suc)
  ultimately have "drop i s = 91 # ?d @ 93 # drop (i + 2 + k) s" using i(2,4) by simp
  moreover have "length ?d = k" using i(3) by simp
  moreover have "list_all is_digit ?d" using i(3,8) by (auto simp: list_all_length)
  ultimately show ?t using i(1,5,6,7)
    by (intro exI [of _ ?d] exI [of _ "drop (i + 2 + k) s"]) auto
next
  assume ?t
  then obtain d b where d: "i \<le> length s" "drop i s = 91 # d @ 93 # b" "j = i + length d + 2" "1 \<le> length d"
    "length d \<le> 2" "list_all is_digit d" by blast
  have at: "s ! (i + m) = (91 # d @ 93 # b) ! m" for m using d(1,2) by (metis nth_drop)
  have len: "length s = i + length d + 2 + length b" using arg_cong [OF d(2), of length] d(1) by simp
  have a: "s ! i = 91" using at [of 0] by simp
  have b: "s ! (Suc (i + length d)) = 93" using at [of "Suc (length d)"] by (simp add: nth_append)
  have c: "is_digit (s ! (Suc i + m))" if "m < length d" for m
    using at [of "Suc m"] that d(6) by (simp add: nth_append list_all_length)
  have "rx_match s (Rep is_digit 1 (Some 2)) (Suc i) (Suc i + length d)"
    using c d(4,5) len by (intro rx_match.rep) auto
  then show ?m unfolding CITATION_MARKER_RE_def rx_build d(3)
    using a b len by (auto intro!: rx_match.seqn rx_match.cls)
qed

lemma marker_number_at:
  assumes "i \<le> length s" "drop i s = 91 # d @ 93 # b" "j = i + length d + 2"
  shows "marker_number s (i, j) = or_else (int_of_digits d) 0"
proof -
  have "group0 s (i, j) = 91 # d @ [93]" using assms(2,3) by (simp add: group0_def)
  then show ?thesis by (simp add: marker_number_def butlast_append)
qed

lemma digits_read: "1 \<le> length d \<Longrightarrow> list_all is_digit d \<Longrightarrow> \<exists>n. int_of_digits d = Some n"
  by (auto simp: int_of_digits_def)

definition marker_in :: "ustr \<Rightarrow> nat \<Rightarrow> bool" where
  "marker_in s n \<longleftrightarrow> (\<exists>a d b. s = a @ 91 # d @ 93 # b \<and> 1 \<le> length d \<and> length d \<le> 2
     \<and> list_all is_digit d \<and> int_of_digits d = Some n)"

lemma marker_unique:
  assumes "91 # d @ 93 # b = 91 # d' @ 93 # b'" "list_all is_digit d" "list_all is_digit d'"
  shows "d = d'"
proof -
  have "takeWhile is_digit (d @ 93 # b) = d" "takeWhile is_digit (d' @ 93 # b') = d'"
    using assms(2,3) by (simp_all add: list_all_iff)
  then show ?thesis using assms(1) by simp
qed

lemma no_inner_marker:
  assumes "rx_match s CITATION_MARKER_RE i j" "i < i'" "i' < j"
  shows "ends CITATION_MARKER_RE s i' = []"
proof (rule ccontr)
  assume "ends CITATION_MARKER_RE s i' \<noteq> []"
  moreover have "i' \<le> length s" using assms rx_match_bounds [OF assms(1)] by simp
  ultimately obtain j' where "rx_match s CITATION_MARKER_RE i' j'" using ends_iff by (metis list.set_sel(1))
  then have open': "s ! i' = 91" unfolding citation_match_iff
    by (metis nth_Cons_0 nth_drop add.right_neutral)
  from assms(1) obtain d b where d: "i \<le> length s" "drop i s = 91 # d @ 93 # b" "j = i + length d + 2"
    "list_all is_digit d" unfolding citation_match_iff by blast
  obtain m where m: "i' = i + Suc m" using assms(2) less_iff_Suc_add by auto
  then have "s ! i' = (d @ 93 # b) ! m" using d(1,2) by (metis nth_Cons_Suc nth_drop)
  moreover have "m < length d \<or> m = length d" using m assms(3) d(3) by auto
  ultimately have "is_digit (s ! i') \<or> s ! i' = 93" using d(4) by (auto simp: nth_append list_all_length)
  then show False using open' by auto
qed

lemma citation_numbers_iff: "n \<in> set (citation_numbers s) \<longleftrightarrow> marker_in s n"
proof
  assume "n \<in> set (citation_numbers s)"
  then obtain m where m: "m \<in> set (rx_finditer CITATION_MARKER_RE s)" "n = marker_number s m"
    by (auto simp: citation_numbers_def)
  from rx_finditer_match [OF m(1)] obtain d b where d: "fst m \<le> length s"
    "drop (fst m) s = 91 # d @ 93 # b" "snd m = fst m + length d + 2" "1 \<le> length d" "length d \<le> 2"
    "list_all is_digit d" unfolding citation_match_iff by blast
  from marker_number_at [OF d(1-3)] m(2) digits_read [OF d(4,6)] have "int_of_digits d = Some n" by auto
  moreover have "s = take (fst m) s @ 91 # d @ 93 # b" using d(2) by (metis append_take_drop_id)
  ultimately show "marker_in s n" unfolding marker_in_def using d(4-6) by blast
next
  assume "marker_in s n"
  then obtain a d b where d: "s = a @ 91 # d @ 93 # b" "1 \<le> length d" "length d \<le> 2"
    "list_all is_digit d" "int_of_digits d = Some n" unfolding marker_in_def by blast
  let ?i = "length a"
  have at: "?i \<le> length s" "drop ?i s = 91 # d @ 93 # b" using d(1) by simp_all
  have "rx_match s CITATION_MARKER_RE ?i (?i + length d + 2)"
    unfolding citation_match_iff using at d(2-4) by blast
  then have "ends CITATION_MARKER_RE s ?i \<noteq> []" using ends_iff [OF at(1)] by (metis empty_iff empty_set)
  then have "\<exists>j. (?i, j) \<in> set (rx_iter CITATION_MARKER_RE s 0) \<and> rx_match s CITATION_MARKER_RE ?i j"
    using at(1) by (intro rx_iter_complete) (rule no_inner_marker, simp_all)
  then obtain j where
    j: "(?i, j) \<in> set (rx_finditer CITATION_MARKER_RE s)" "rx_match s CITATION_MARKER_RE ?i j"
    unfolding rx_finditer_def by auto
  from j(2) obtain d' b' where d': "drop ?i s = 91 # d' @ 93 # b'" "j = ?i + length d' + 2"
    "list_all is_digit d'" unfolding citation_match_iff by blast
  have "d' = d" using marker_unique [of d' b' d b] d'(1,3) at(2) d(4) by simp
  then have "marker_number s (?i, j) = n" using marker_number_at [OF at(1) d'(1,2)] d(5) by simp
  then show "n \<in> set (citation_numbers s)" using j(1) unfolding citation_numbers_def by force
qed

lemma split_citations_value:
  "split_citations n cs valid invalid = (v, iv) \<Longrightarrow>
     set v = set valid \<union> {c \<in> set cs. 1 \<le> c \<and> c \<le> n}
     \<and> set iv = set invalid \<union> {c \<in> set cs. \<not> (1 \<le> c \<and> c \<le> n)}
     \<and> (distinct valid \<longrightarrow> distinct v) \<and> (distinct invalid \<longrightarrow> distinct iv)"
proof (induction cs arbitrary: valid invalid)
  case (Cons c cs)
  then show ?case by (cases "1 \<le> c \<and> c \<le> n") (fastforce simp: distinct_append_new)+
qed simp

lemma extract_citations_value:
  assumes "extract_citations answer n = (valid, invalid)"
  shows "set valid = {c. marker_in answer c \<and> 1 \<le> c \<and> c \<le> n}"
    and "set invalid = {c. marker_in answer c \<and> \<not> (1 \<le> c \<and> c \<le> n)}"
    and "distinct valid" and "distinct invalid"
  using split_citations_value [OF assms [unfolded extract_citations_def]]
  by (auto simp: citation_numbers_iff)

subsection \<open>The verdict\<close>

lemma judge_claims_bounds: "judge_claims cited cs = Some (s, n) \<Longrightarrow> s \<le> n"
  by (induction cited cs arbitrary: s n rule: judge_claims.induct)
    (fastforce split: option.splits if_splits)+

lemma band_verdict_value:
  "s \<le> n \<Longrightarrow> 0 < n \<Longrightarrow>
     (band_verdict s n = ''pass'' \<longleftrightarrow> s = n)
     \<and> (band_verdict s n = ''partial'' \<longleftrightarrow> s < n \<and> n \<le> 2 * s)
     \<and> (band_verdict s n = ''fail'' \<longleftrightarrow> 2 * s < n)"
  by (auto simp: band_verdict_def VERIFY_PARTIAL_THRESHOLD_def field_simps)

text \<open>
  C22: the self-check of an answer. The cited numbers are exactly those of the \<open>[n]\<close> markers of
  the text, each once, split by whether a source of that number exists. Whatever the judge
  answers, or when it fails, the check returns: it reports every marker without a source; without a
  valid citation, or when nothing was judged, it is skipped and counts nothing; otherwise the
  counts are consistent and the verdict is pass when all claims are supported, partial from half
  of them on, and fail below.
\<close>

theorem verify_answer_contract:
  fixes answer :: ustr and ss :: "source list"
  shows "let v = verify_answer loads chat answer ss;
             valid = fst (extract_citations answer (length ss))
     in distinct valid \<and> set valid = {c. marker_in answer c \<and> 1 \<le> c \<and> c \<le> length ss}
      \<and> distinct (vf_invalid v) \<and> set (vf_invalid v) = {c. marker_in answer c \<and> \<not> (1 \<le> c \<and> c \<le> length ss)}
      \<and> (valid = [] \<or> chat (JUDGE_PROMPT (judge_chunks_block ss) answer) 0 = None \<longrightarrow> \<not> vf_checked v)
      \<and> (if vf_checked v
         then 0 < vf_total v \<and> vf_supported v \<le> vf_total v
           \<and> (vf_verdict v = ''pass'' \<longleftrightarrow> vf_supported v = vf_total v)
           \<and> (vf_verdict v = ''partial'' \<longleftrightarrow> vf_supported v < vf_total v \<and> vf_total v \<le> 2 * vf_supported v)
           \<and> (vf_verdict v = ''fail'' \<longleftrightarrow> 2 * vf_supported v < vf_total v)
         else vf_supported v = 0 \<and> vf_total v = 0 \<and> vf_verdict v = ''skipped'')"
proof -
  obtain valid invalid where e: "extract_citations answer (length ss) = (valid, invalid)" by fastforce
  note vals = extract_citations_value [OF e]
  let ?v = "verify_answer loads chat answer ss"
  have outcome: "?v = skipped invalid \<or> (valid \<noteq> [] \<and>
      (\<exists>raw s n. chat (JUDGE_PROMPT (judge_chunks_block ss) answer) 0 = Some raw
         \<and> s \<le> n \<and> 0 < n \<and> ?v = \<lparr>vf_checked = True, vf_supported = s, vf_total = n,
             vf_invalid = invalid, vf_verdict = band_verdict s n\<rparr>))"
  proof -
    have bounds: "s \<le> n" if "parse_judge_response loads raw valid = Some (s, n)" for raw s n
      using that judge_claims_bounds
      by (auto simp: parse_judge_response_def split: option.splits json.splits)
    show ?thesis using bounds
      by (auto simp: verify_answer_def e VERIFY_JUDGE_TEMPERATURE_def split: option.splits)
  qed
  then show ?thesis
  proof (elim disjE conjE exE)
    assume "?v = skipped invalid"
    then show ?thesis using vals by (simp add: e Let_def skipped_def)
  next
    fix raw s n
    assume "valid \<noteq> []" "chat (JUDGE_PROMPT (judge_chunks_block ss) answer) 0 = Some raw" "s \<le> n" "0 < n"
      "?v = \<lparr>vf_checked = True, vf_supported = s, vf_total = n, vf_invalid = invalid,
        vf_verdict = band_verdict s n\<rparr>"
    then show ?thesis using vals band_verdict_value [of s n] by (simp add: e Let_def)
  qed
qed

theorem verify_answer_contract_witness:
  "\<forall>x. vf_invalid (verify_answer (\<lambda>_. None) (\<lambda>_ _. None) (asc ''Yes [1][7]'') [x]) = [7]
     \<and> \<not> vf_checked (verify_answer (\<lambda>_. None) (\<lambda>_ _. None) (asc ''Yes [1][7]'') [x])"
proof
  fix x :: source
  let ?v = "verify_answer (\<lambda>_. None) (\<lambda>_ _. None) (asc ''Yes [1][7]'') [x]"
  have "vf_invalid ?v = [7]" by code_simp
  moreover from verify_answer_contract [of "\<lambda>_. None" "\<lambda>_ _. None" "asc ''Yes [1][7]''" "[x]"]
  have "\<not> vf_checked ?v" unfolding Let_def by blast
  ultimately show "vf_invalid ?v = [7] \<and> \<not> vf_checked ?v" by simp
qed

subsection \<open>The confidence of an answer\<close>

definition RETRIEVAL_WEIGHT :: real where "RETRIEVAL_WEIGHT = 6 / 10"
definition VERIFY_WEIGHT :: real where "VERIFY_WEIGHT = 4 / 10"
definition HIGH_CONFIDENCE_THRESHOLD :: real where "HIGH_CONFIDENCE_THRESHOLD = 3 / 4"
definition MEDIUM_CONFIDENCE_THRESHOLD :: real where "MEDIUM_CONFIDENCE_THRESHOLD = 1 / 2"

text \<open>\<open>round\<close>: to the nearest, ties to the even neighbour.\<close>

definition round_even :: "real \<Rightarrow> int" where
  "round_even x = (let f = \<lfloor>x\<rfloor>; d = x - of_int f
     in if d < 1 / 2 then f else if 1 / 2 < d then f + 1 else if even f then f else f + 1)"

definition round4 :: "real \<Rightarrow> real" where
  "round4 x = of_int (round_even (x * 10000)) / 10000"

definition conf_band :: "real \<Rightarrow> string" where
  "conf_band score = (if HIGH_CONFIDENCE_THRESHOLD \<le> score then ''high''
     else if MEDIUM_CONFIDENCE_THRESHOLD \<le> score then ''medium'' else ''low'')"

definition verify_pass_rate :: "verification option \<Rightarrow> real option" where
  "verify_pass_rate v = (case v of None \<Rightarrow> None
     | Some r \<Rightarrow>
        if \<not> vf_checked r then None
        else if vf_verdict r = ''skipped'' then None
        else if vf_total r = 0 then None
        else Some (real (vf_supported r) / real (vf_total r)))"

definition compute_answer_confidence :: "trace option \<Rightarrow> verification option \<Rightarrow> answer_conf option" where
  "compute_answer_confidence trace v =
     (let t = or_else trace empty_trace
      in case t_retrieval_confidence t of None \<Rightarrow> None
      | Some retrieval \<Rightarrow>
          if ''weak_retrieval_refusal'' \<in> set (flags_of t)
          then Some \<lparr>ac_score = retrieval, ac_band = ''low'', ac_retrieval = retrieval, ac_pass = None\<rparr>
          else let rate = verify_pass_rate v;
                   score = (case rate of None \<Rightarrow> retrieval
                     | Some r \<Rightarrow> RETRIEVAL_WEIGHT * retrieval + VERIFY_WEIGHT * r)
               in Some \<lparr>ac_score = round4 score, ac_band = conf_band score, ac_retrieval = retrieval,
                        ac_pass = rate\<rparr>)"

lemma round_even_bounds: "\<bar>of_int (round_even x) - x\<bar> \<le> 1 / 2"
proof -
  have "of_int \<lfloor>x\<rfloor> \<le> x" "x < of_int \<lfloor>x\<rfloor> + 1" by linarith+
  then show ?thesis unfolding round_even_def Let_def
    by (cases "x - of_int \<lfloor>x\<rfloor> < 1 / 2"; cases "1 / 2 < x - of_int \<lfloor>x\<rfloor>"; cases "even \<lfloor>x\<rfloor>") auto
qed

lemma round_even_between: "of_int a \<le> x \<Longrightarrow> x \<le> of_int b \<Longrightarrow> a \<le> round_even x \<and> round_even x \<le> b"
  using round_even_bounds [of x] by linarith

lemma round4_error: "\<bar>round4 x - x\<bar> \<le> 1 / 20000"
  using round_even_bounds [of "x * 10000"] by (simp add: round4_def abs_if field_simps split: if_splits)

lemma round4_unit: "0 \<le> x \<Longrightarrow> x \<le> 1 \<Longrightarrow> 0 \<le> round4 x \<and> round4 x \<le> 1"
  using round_even_between [of 0 "x * 10000" 10000] by (simp add: round4_def)

lemma verify_pass_rate_unit:
  "verify_pass_rate (Some x) = Some p \<Longrightarrow> vf_supported x \<le> vf_total x \<Longrightarrow> 0 \<le> p \<and> p \<le> 1"
  by (auto simp: verify_pass_rate_def split: if_splits)

lemma conf_band_value:
  "(conf_band s = ''high'' \<longleftrightarrow> 3 / 4 \<le> s) \<and> (conf_band s = ''medium'' \<longleftrightarrow> 1 / 2 \<le> s \<and> s < 3 / 4)
     \<and> (conf_band s = ''low'' \<longleftrightarrow> s < 1 / 2)"
  by (auto simp: conf_band_def HIGH_CONFIDENCE_THRESHOLD_def MEDIUM_CONFIDENCE_THRESHOLD_def)

text \<open>
  The confidence badge of an answer. A turn without retrieval has none. A refusal shows the
  retrieval confidence as low and no self-check. Otherwise the score is, up to rounding to four
  places, the retrieval confidence alone when the self-check did not count anything, and the
  weighted sum of the two when it did, the band follows the score before rounding, and the score
  stays between zero and one.
\<close>

theorem answer_confidence_contract:
  assumes "t_retrieval_confidence t = Some r" "0 \<le> r" "r \<le> 1"
    and "\<And>x. v = Some x \<Longrightarrow> vf_supported x \<le> vf_total x"
  shows "\<exists>a. compute_answer_confidence (Some t) v = Some a
     \<and> 0 \<le> ac_score a \<and> ac_score a \<le> 1 \<and> ac_retrieval a = r
     \<and> (if ''weak_retrieval_refusal'' \<in> set (flags_of t)
        then ac_score a = r \<and> ac_band a = ''low'' \<and> ac_pass a = None
        else ac_pass a = verify_pass_rate v
          \<and> (let s = (case verify_pass_rate v of None \<Rightarrow> r | Some p \<Rightarrow> 3 / 5 * r + 2 / 5 * p)
             in \<bar>ac_score a - s\<bar> \<le> 1 / 20000
              \<and> (ac_band a = ''high'' \<longleftrightarrow> 3 / 4 \<le> s)
              \<and> (ac_band a = ''medium'' \<longleftrightarrow> 1 / 2 \<le> s \<and> s < 3 / 4)
              \<and> (ac_band a = ''low'' \<longleftrightarrow> s < 1 / 2)))
     \<and> compute_answer_confidence None v = None
     \<and> compute_answer_confidence (Some (t\<lparr>t_retrieval_confidence := None\<rparr>)) v = None"
proof -
  define s where "s = (case verify_pass_rate v of None \<Rightarrow> r | Some p \<Rightarrow> 3 / 5 * r + 2 / 5 * p)"
  have unit: "0 \<le> s \<and> s \<le> 1"
  proof (cases "verify_pass_rate v")
    case None
    then show ?thesis using assms(2,3) by (simp add: s_def)
  next
    case (Some p)
    then obtain x where "v = Some x" by (cases v) (simp_all add: verify_pass_rate_def)
    then have "0 \<le> p \<and> p \<le> 1" using Some assms(4) verify_pass_rate_unit by blast
    then show ?thesis using Some assms(2,3) by (simp add: s_def)
  qed
  have val: "compute_answer_confidence (Some t) v =
      (if ''weak_retrieval_refusal'' \<in> set (flags_of t)
       then Some \<lparr>ac_score = r, ac_band = ''low'', ac_retrieval = r, ac_pass = None\<rparr>
       else Some \<lparr>ac_score = round4 s, ac_band = conf_band s, ac_retrieval = r, ac_pass = verify_pass_rate v\<rparr>)"
    using assms(1) by (simp add: compute_answer_confidence_def s_def RETRIEVAL_WEIGHT_def
        VERIFY_WEIGHT_def Let_def split: option.split)
  have none: "compute_answer_confidence None v = None
     \<and> compute_answer_confidence (Some (t\<lparr>t_retrieval_confidence := None\<rparr>)) v = None"
    by (simp add: compute_answer_confidence_def empty_trace_def)
  show ?thesis
    using val none unit round4_unit [of s] round4_error [of s] conf_band_value [of s] assms(2,3)
    unfolding s_def [symmetric] Let_def
    by (cases "''weak_retrieval_refusal'' \<in> set (flags_of t)") simp_all
qed

theorem answer_confidence_contract_witness:
  "\<exists>a. compute_answer_confidence (Some (empty_trace\<lparr>t_retrieval_confidence := Some (1 / 2)\<rparr>))
     (Some \<lparr>vf_checked = True, vf_supported = 3, vf_total = 4, vf_invalid = [], vf_verdict = ''partial''\<rparr>) = Some a
     \<and> ac_band a = ''medium''"
proof -
  let ?t = "empty_trace\<lparr>t_retrieval_confidence := Some (1 / 2)\<rparr>"
  let ?v = "Some \<lparr>vf_checked = True, vf_supported = 3, vf_total = 4, vf_invalid = [], vf_verdict = ''partial''\<rparr>"
  have "t_retrieval_confidence ?t = Some (1 / 2)" by simp
  from answer_confidence_contract [where v = ?v, OF this]
  obtain a where "compute_answer_confidence (Some ?t) ?v = Some a" "ac_band a = ''medium''"
    by (auto simp: flags_of_def empty_trace_def verify_pass_rate_def)
  then show ?thesis by blast
qed

text \<open>The pieces fit: what the checks of this theory produce meets the premises of C25.\<close>

lemma grounding_feeds_confidence:
  "\<exists>r. t_retrieval_confidence (record_grounding_trace t (assess_grounding hs)) = Some r \<and> 0 \<le> r \<and> r \<le> 1"
  using assess_grounding_bounds by (auto simp: record_grounding_trace_def)

end
