(* ===== verification/RagService.thy ===== *)
theory RagService
  imports Grounding
begin

text \<open>
  Answering from the knowledge base: \<open>rag/prompt_builder.py\<close>, \<open>rag/llm_client.py\<close> and
  \<open>rag/service.py\<close>. The language model, Chroma and the stored prompt templates are arguments;
  \<open>str.format\<close> is modelled on plain replacement fields, and what a field with an attribute, an
  index, a conversion or a format specification gives is an argument.

  Lemmas: citation numbers, prompt and sources agree, the plain templates always format, and the
  streamed and the complete answer coincide.
\<close>

subsection \<open>Prompts\<close>

definition CITATION_BASE_INDEX :: nat where "CITATION_BASE_INDEX = 1"
definition FALLBACK_EXCERPT_COUNT :: nat where "FALLBACK_EXCERPT_COUNT = 3"
definition FALLBACK_EXCERPT_CHARS :: nat where "FALLBACK_EXCERPT_CHARS = 300"

definition NO_RESULTS_REFUSAL :: ustr where
  \<open>NO_RESULTS_REFUSAL = asc ''Sorry, I couldn't find relevant information. Please try rephrasing your question or contact a human agent.''\<close>

definition LLM_DOWN_FALLBACK_PREFIX :: ustr where
  \<open>LLM_DOWN_FALLBACK_PREFIX = asc ''AI generation is temporarily unavailable. Here are the most relevant knowledge base excerpts:'' @ [10]\<close>

definition SYSTEM_PROMPT :: ustr where
  \<open>SYSTEM_PROMPT = asc ''You are AskFlow, an intelligent customer service assistant. Answer the user's question based ONLY on the provided numbered context chunks.'' @ [10, 10]
     @ asc ''Citation rules:'' @ [10]
     @ asc ''- Immediately after each claim, cite the supporting chunk with a bare marker like [1] or [2]'' @ [10]
     @ asc ''- Use only the chunk numbers given in the context; never invent a number'' @ [10]
     @ asc ''- Do not answer beyond the provided context'' @ [10, 10]
     @ asc ''Style rules:'' @ [10]
     @ asc ''- Answer in the same language as the user's question'' @ [10]
     @ asc ''- Be concise and accurate'' @ [10]
     @ asc ''- Do not make up information not in the context'' @ [10]
     @ asc ''- If the context doesn't contain enough information, say so honestly''\<close>

definition CONTEXT_TEMPLATE :: ustr where
  "CONTEXT_TEMPLATE = asc ''### Context'' @ [10, 10] @ asc ''{chunks}'' @ [10, 10]
     @ asc ''### User Question'' @ [10] @ asc ''{question}''"

text \<open>
  \<open>str.format\<close>: doubled braces stand for one, a field runs to its closing brace (nested braces
  included), a single closing brace or an unclosed field raises (\<open>None\<close>).
\<close>

fun close_brace :: "nat \<Rightarrow> ustr \<Rightarrow> ustr \<Rightarrow> (ustr \<times> ustr) option" where
  "close_brace depth acc [] = None"
| "close_brace depth acc (c # cs) =
     (if c = 123 then close_brace (Suc depth) (acc @ [c]) cs
      else if c = 125 then (case depth of 0 \<Rightarrow> Some (acc, cs) | Suc d \<Rightarrow> close_brace d (acc @ [c]) cs)
      else close_brace depth (acc @ [c]) cs)"

lemma close_brace_shorter: "close_brace d acc s = Some (fld, rest) \<Longrightarrow> length rest < length s"
  by (induction d acc s rule: close_brace.induct) (auto split: if_splits nat.splits)

function str_format :: "(ustr \<Rightarrow> ustr option) \<Rightarrow> ustr \<Rightarrow> ustr option" where
  "str_format fld [] = Some []"
| "str_format fld (c # cs) =
     (if c = 123 then
        (case cs of [] \<Rightarrow> None
         | d # ds \<Rightarrow> if d = 123 then map_option ((#) 123) (str_format fld ds)
             else (case close_brace 0 [] cs of None \<Rightarrow> None
               | Some (name, rest) \<Rightarrow> (case fld name of None \<Rightarrow> None
                   | Some v \<Rightarrow> map_option ((@) v) (str_format fld rest))))
      else if c = 125 then
        (case cs of [] \<Rightarrow> None
         | d # ds \<Rightarrow> if d = 125 then map_option ((#) 125) (str_format fld ds) else None)
      else map_option ((#) c) (str_format fld cs))"
  by pat_completeness auto
termination
  by (relation "measure (\<lambda>(fld, s). length s)")
    (auto dest: close_brace_shorter split: if_splits)

text \<open>The two arguments \<open>format\<close> is called with, and \<open>other\<close> for every other field.\<close>

definition context_field :: "(ustr \<Rightarrow> ustr option) \<Rightarrow> ustr \<Rightarrow> ustr \<Rightarrow> ustr \<Rightarrow> ustr option" where
  "context_field other chunks q name =
     (if name = asc ''chunks'' then Some chunks
      else if name = asc ''question'' then Some q
      else other name)"

definition chunk_text :: "nat \<Rightarrow> hit \<Rightarrow> ustr" where
  "chunk_text n h = [91] @ dec n @ [93, 32] @ or_else (cm_title (hit_meta h)) (asc ''Unknown'')
     @ [10] @ hit_doc h"

fun numbered :: "nat \<Rightarrow> hit list \<Rightarrow> ustr list" where
  "numbered n [] = []"
| "numbered n (h # hs) = chunk_text n h # numbered (Suc n) hs"

definition build_rag_prompt ::
  "(ustr \<Rightarrow> ustr option) \<Rightarrow> ustr \<Rightarrow> hit list \<Rightarrow> history \<Rightarrow> ustr \<Rightarrow> ustr \<Rightarrow> history option" where
  "build_rag_prompt other q hs hist system_prompt context_template =
     (let chunks = join ([10, 10] @ asc ''---'' @ [10, 10]) (numbered CITATION_BASE_INDEX hs)
      in case str_format (context_field other chunks q) context_template of
           None \<Rightarrow> None
         | Some content \<Rightarrow> Some ([(asc ''system'', system_prompt)] @ last_n 6 hist @ [(asc ''user'', content)]))"

fun excerpts :: "nat \<Rightarrow> hit list \<Rightarrow> ustr list" where
  "excerpts n [] = []"
| "excerpts n (h # hs) = (asc ''**'' @ dec n @ asc ''. ['' @ or_else (cm_title (hit_meta h)) (asc ''Unknown'')
     @ asc '']**'' @ [10] @ take FALLBACK_EXCERPT_CHARS (hit_doc h) @ asc ''...'' @ [10]) # excerpts (Suc n) hs"

definition build_fallback_response :: "hit list \<Rightarrow> ustr \<Rightarrow> ustr \<Rightarrow> ustr" where
  "build_fallback_response hs no_results_text llm_down_prefix =
     (if hs = [] then no_results_text
      else join [10] (llm_down_prefix # excerpts CITATION_BASE_INDEX (take FALLBACK_EXCERPT_COUNT hs)))"

subsection \<open>The model client\<close>

text \<open>\<open>temperature or settings.llm_temperature\<close>: zero counts as not given.\<close>

definition chat_temperature :: "real \<Rightarrow> real option \<Rightarrow> real" where
  "chat_temperature configured t = (case t of None \<Rightarrow> configured | Some v \<Rightarrow> if v = 0 then configured else v)"

lemma judge_temperature_ignored: "chat_temperature c (Some VERIFY_JUDGE_TEMPERATURE) = c"
  by (simp add: chat_temperature_def VERIFY_JUDGE_TEMPERATURE_def)

text \<open>
  The tokens of a streamed reply and whether it raised. \<open>delta\<close> is what parsing a payload and
  reading its first choice gives: nothing when that raises, else the text of the delta.
\<close>

fun sse_tokens :: "(ustr \<Rightarrow> ustr option) \<Rightarrow> ustr list \<Rightarrow> ustr list \<times> bool" where
  "sse_tokens delta [] = ([], False)"
| "sse_tokens delta (line # lines) =
     (if take 6 line \<noteq> asc ''data: '' then sse_tokens delta lines
      else
       let payload = strip (remove_prefix (asc ''data: '') line)
       in if payload = asc ''[DONE]'' then ([], False)
          else case delta payload of
            None \<Rightarrow> ([], True)
          | Some content \<Rightarrow> (let (ts, failed) = sse_tokens delta lines
              in (if content = [] then ts else content # ts, failed)))"
subsection \<open>Sources\<close>

definition RECALL_MULTIPLIER :: nat where "RECALL_MULTIPLIER = 2"
definition SOURCE_CHUNK_PREVIEW_CHARS :: nat where "SOURCE_CHUNK_PREVIEW_CHARS = 200"

text \<open>What precedes the last occurrence of a separator, if there is one.\<close>

definition rsplit_before :: "ustr \<Rightarrow> ustr \<Rightarrow> ustr option" where
  "rsplit_before sep s = map_option (\<lambda>i. take i s)
     (find (\<lambda>i. take (length sep) (drop i s) = sep) (rev [0 ..< Suc (length s)]))"

definition chunk_doc_id :: "hit \<Rightarrow> ustr option" where
  "chunk_doc_id h =
     (if or_else (cm_doc_id (hit_meta h)) [] \<noteq> [] then cm_doc_id (hit_meta h)
      else case rsplit_before (asc ''_g'') (hit_id h) of Some d \<Rightarrow> Some d
      | None \<Rightarrow> rsplit_before (asc ''_chunk_'') (hit_id h))"

fun sources_from :: "nat \<Rightarrow> hit list \<Rightarrow> source list" where
  "sources_from n [] = []"
| "sources_from n (h # hs) = \<lparr>s_index = n, s_doc_id = chunk_doc_id h,
     s_chunk_index = cm_index (hit_meta h), s_title = or_else (cm_title (hit_meta h)) [],
     s_source = or_else (cm_source (hit_meta h)) [],
     s_chunk = take SOURCE_CHUNK_PREVIEW_CHARS (hit_doc h), s_score = hit_score h\<rparr>
     # sources_from (Suc n) hs"

definition build_sources :: "hit list \<Rightarrow> source list" where
  "build_sources hs = sources_from CITATION_BASE_INDEX hs"

subsection \<open>The service\<close>

record rag_deps =
  rd_env :: retrieve_env
  rd_rerank :: "(ustr \<Rightarrow> hit list \<Rightarrow> ustr option) option"
  rd_chat :: "history \<Rightarrow> ustr option"
  rd_stream :: "history \<Rightarrow> ustr list \<times> bool"
  rd_prompt :: "string \<Rightarrow> ustr"
  rd_other :: "ustr \<Rightarrow> ustr option"

record rag_result =
  rr_answer :: ustr
  rr_sources :: "source list"
  rr_grounding :: grounding

record rag_stream =
  rs_tokens :: "ustr list"
  rs_sources :: "source list"
  rs_grounding :: grounding

definition retrieve_and_assess ::
  "rag_deps \<Rightarrow> ustr \<Rightarrow> nat \<Rightarrow> filters option \<Rightarrow> rag_err + hit list \<times> grounding" where
  "retrieve_and_assess d q k f =
     (case retrieve (rd_env d) q (k * RECALL_MULTIPLIER) (6 / 10) (4 / 10) False False f of
        Inl e \<Rightarrow> Inl e
      | Inr found \<Rightarrow> let hs = rerank (rd_rerank d) q found k in Inr (hs, assess_grounding hs))"

definition rag_messages :: "rag_deps \<Rightarrow> ustr \<Rightarrow> history \<Rightarrow> hit list \<Rightarrow> history option" where
  "rag_messages d q hist hs = build_rag_prompt (rd_other d) q hs hist
     (rd_prompt d ''rag.system'') (rd_prompt d ''rag.context'')"

definition rag_fallback :: "rag_deps \<Rightarrow> hit list \<Rightarrow> ustr" where
  "rag_fallback d hs = build_fallback_response hs (rd_prompt d ''rag.fallback_no_results'')
     (rd_prompt d ''rag.fallback_llm_down'')"

definition rag_query ::
  "rag_deps \<Rightarrow> ustr \<Rightarrow> history \<Rightarrow> nat \<Rightarrow> filters option \<Rightarrow> rag_err + rag_result" where
  "rag_query d q hist k f =
     (case retrieve_and_assess d q k f of Inl e \<Rightarrow> Inl e
      | Inr (hs, g) \<Rightarrow>
          if \<not> g_grounded g
          then Inr \<lparr>rr_answer = REFUSAL_RESPONSE, rr_sources = build_sources (take REFUSAL_MAX_SOURCES hs),
                    rr_grounding = g\<rparr>
          else
            let answer = (case rag_messages d q hist hs of
                  None \<Rightarrow> rag_fallback d hs
                | Some msgs \<Rightarrow> (case rd_chat d msgs of None \<Rightarrow> rag_fallback d hs | Some a \<Rightarrow> a))
            in Inr \<lparr>rr_answer = answer, rr_sources = build_sources hs, rr_grounding = g\<rparr>)"

definition rag_query_stream ::
  "rag_deps \<Rightarrow> ustr \<Rightarrow> history \<Rightarrow> nat \<Rightarrow> filters option \<Rightarrow> rag_err + rag_stream" where
  "rag_query_stream d q hist k f =
     (case retrieve_and_assess d q k f of Inl e \<Rightarrow> Inl e
      | Inr (hs, g) \<Rightarrow>
          if \<not> g_grounded g
          then Inr \<lparr>rs_tokens = [REFUSAL_RESPONSE], rs_sources = build_sources (take REFUSAL_MAX_SOURCES hs),
                    rs_grounding = g\<rparr>
          else case rag_messages d q hist hs of
            None \<Rightarrow> Inl TemplateErr
          | Some msgs \<Rightarrow> (let (tokens, failed) = rd_stream d msgs
              in Inr \<lparr>rs_tokens = tokens @ (if failed then [rag_fallback d hs] else []),
                      rs_sources = build_sources hs, rs_grounding = g\<rparr>))"

text \<open>\<open>_to_retrieval_filters\<close>: an empty filter is dropped unless it carries the reserved tags.\<close>

definition to_retrieval_filters :: "(filters \<times> ustr list) option \<Rightarrow> filters option" where
  "to_retrieval_filters p = (case p of None \<Rightarrow> None
     | Some (f, tags) \<Rightarrow> if filters_empty f \<and> tags = [] then None else Some f)"

definition router_rag_query ::
  "rag_deps \<Rightarrow> ustr \<Rightarrow> history \<Rightarrow> nat \<Rightarrow> (filters \<times> ustr list) option
   \<Rightarrow> rag_err + ustr \<times> source list \<times> bool \<times> real" where
  "router_rag_query d q hist k p =
     map_sum id (\<lambda>r. (rr_answer r, rr_sources r, g_grounded (rr_grounding r), g_confidence (rr_grounding r)))
       (rag_query d q hist k (to_retrieval_filters p))"

subsection \<open>Numbers, chunks and sources agree\<close>

lemma length_sources_from [simp]: "length (sources_from n hs) = length hs"
  by (induction hs arbitrary: n) auto

lemma length_build_sources [simp]: "length (build_sources hs) = length hs"
  by (simp add: build_sources_def)

lemma sources_from_nth:
  "i < length hs \<Longrightarrow> s_index (sources_from n hs ! i) = n + i
     \<and> s_chunk (sources_from n hs ! i) = take 200 (hit_doc (hs ! i))"
proof (induction hs arbitrary: n i)
  case (Cons h hs)
  then show ?case by (cases i) (simp_all add: SOURCE_CHUNK_PREVIEW_CHARS_def)
qed simp

lemma length_numbered [simp]: "length (numbered n hs) = length hs"
  by (induction hs arbitrary: n) auto

lemma numbered_nth: "i < length hs \<Longrightarrow> numbered n hs ! i = chunk_text (n + i) (hs ! i)"
proof (induction hs arbitrary: n i)
  case (Cons h hs)
  then show ?case by (cases i) simp_all
qed simp

lemma default_template:
  "str_format (context_field other chunks q) CONTEXT_TEMPLATE =
     Some (asc ''### Context'' @ [10, 10] @ chunks @ [10, 10] @ asc ''### User Question'' @ [10] @ q)"
  by (simp add: CONTEXT_TEMPLATE_def asc_def context_field_def)

subsection \<open>Complete and streamed answers\<close>

lemma retrieve_total: "env_ok e \<Longrightarrow> \<exists>hs. retrieve e q k vw bw vonly bonly f = Inr hs"
  using bm25_hits_ok [of e q k f] by (auto simp: retrieve_def Let_def split: if_splits)

lemma length_rerank: "length (rerank model q xs k) \<le> k"
  by (auto simp: rerank_def split: option.split)

lemma retrieve_and_assess_value:
  "env_ok (rd_env d) \<Longrightarrow> \<exists>hs. retrieve_and_assess d q k f = Inr (hs, assess_grounding hs) \<and> length hs \<le> k"
  using retrieve_total [of "rd_env d" q "k * RECALL_MULTIPLIER" "6 / 10" "4 / 10" False False f] length_rerank
  by (auto simp: retrieve_and_assess_def Let_def)

lemma retrieve_and_assess_model [simp]:
  "retrieve_and_assess (d\<lparr>rd_chat := chat, rd_stream := stream\<rparr>) q k f = retrieve_and_assess d q k f"
  by (simp add: retrieve_and_assess_def split: sum.split)

lemma assess_grounding_Nil [simp]: "\<not> g_grounded (assess_grounding [])"
  by (simp add: assess_grounding_def)

text \<open>
  C20: asking the knowledge base. On a consistent index a question is always answered, with at most
  k sources, and the complete and the streamed answer rest on the same hits. Weak evidence gives
  the fixed refusal as the only token and at most two sources, whatever the model would say, so
  the model is not asked. With evidence there are hits, all of them are sources, and the answer
  is the model's; when the model fails, the complete answer is the excerpt text, and the streamed
  one is what was streamed followed by it. A stored template that does not format is absorbed by
  the complete answer but raises from the streamed one.
\<close>

theorem rag_answers:
  assumes "env_ok (rd_env d)"
  shows "\<exists>hs g r. retrieve_and_assess d q k f = Inr (hs, g) \<and> length hs \<le> k
     \<and> rag_query d q hist k f = Inr r \<and> rr_grounding r = g
     \<and> (\<not> g_grounded g \<longrightarrow> rr_answer r = REFUSAL_RESPONSE \<and> length (rr_sources r) \<le> 2
          \<and> rag_query_stream d q hist k f
              = Inr \<lparr>rs_tokens = [REFUSAL_RESPONSE], rs_sources = rr_sources r, rs_grounding = g\<rparr>
          \<and> (\<forall>chat stream. rag_query (d\<lparr>rd_chat := chat, rd_stream := stream\<rparr>) q hist k f = Inr r))
     \<and> (g_grounded g \<longrightarrow> hs \<noteq> [] \<and> rr_sources r = build_sources hs
          \<and> (rag_messages d q hist hs = None \<longrightarrow> rr_answer r = rag_fallback d hs
               \<and> rag_query_stream d q hist k f = Inl TemplateErr)
          \<and> (\<forall>msgs. rag_messages d q hist hs = Some msgs \<longrightarrow>
               rr_answer r = or_else (rd_chat d msgs) (rag_fallback d hs)
               \<and> (\<exists>s. rag_query_stream d q hist k f = Inr s \<and> rs_sources s = rr_sources r \<and> rs_grounding s = g
                    \<and> concat (rs_tokens s) = concat (fst (rd_stream d msgs))
                        @ (if snd (rd_stream d msgs) then rag_fallback d hs else []))))"
proof -
  obtain hs where hs: "retrieve_and_assess d q k f = Inr (hs, assess_grounding hs)" "length hs \<le> k"
    using retrieve_and_assess_value [OF assms] by blast
  define g where "g = assess_grounding hs"
  show ?thesis
  proof (cases "g_grounded g")
    case False
    then show ?thesis using hs unfolding g_def
      by (intro exI [of _ hs] exI [of _ "assess_grounding hs"]
          exI [of _ "\<lparr>rr_answer = REFUSAL_RESPONSE, rr_sources = build_sources (take REFUSAL_MAX_SOURCES hs),
            rr_grounding = assess_grounding hs\<rparr>"])
        (simp add: rag_query_def rag_query_stream_def REFUSAL_MAX_SOURCES_def)
  next
    case True
    then have "hs \<noteq> []" by (auto simp: g_def)
    moreover have "g = assess_grounding hs" by (simp add: g_def)
    ultimately show ?thesis using hs True
      by (cases "rag_messages d q hist hs")
        (auto simp: rag_query_def rag_query_stream_def Let_def or_else_def split: prod.split option.split)
  qed
qed

theorem rag_answers_witness:
  "\<exists>d r. env_ok (rd_env d) \<and> rag_query d [7] [] 5 None = Inr r \<and> rr_answer r = REFUSAL_RESPONSE"
proof -
  let ?e = "\<lparr>re_vector = \<lambda>_ _ _. None, re_score = \<lambda>c _. map (\<lambda>_. 1) c, re_index = None\<rparr>"
  let ?d = "\<lparr>rd_env = ?e, rd_rerank = None, rd_chat = \<lambda>_. Some [1], rd_stream = \<lambda>_. ([[1]], False),
     rd_prompt = \<lambda>_. [], rd_other = \<lambda>_. None\<rparr>"
  have ok: "env_ok (rd_env ?d)" by (simp add: env_ok_def)
  have none: "retrieve_and_assess ?d [7] 5 None = Inr ([], assess_grounding [])"
    by (simp add: retrieve_and_assess_def retrieve_def vector_hits_def bm25_size_def rerank_def Let_def)
  from rag_answers [OF ok, of "[7]" 5 None "[]"] none
  have "\<exists>r. rag_query ?d [7] [] 5 None = Inr r \<and> rr_answer r = REFUSAL_RESPONSE" by auto
  with ok show ?thesis by blast
qed

text \<open>
  C21: a citation leads to its source. The sources of an answer are numbered from one without
  gaps; the chunk with that number is in the prompt under the same number, before the question,
  and the source shows the beginning of it; so the citations the self-check calls valid are exactly
  the markers that name a source.
\<close>

theorem citations_lead_to_sources:
  "map s_index (build_sources hs) = [1 ..< Suc (length hs)]
   \<and> set (fst (extract_citations answer (length (build_sources hs))))
       = {n. marker_in answer n \<and> (\<exists>s \<in> set (build_sources hs). s_index s = n)}
   \<and> (\<exists>msgs. build_rag_prompt other q hs hist SYSTEM_PROMPT CONTEXT_TEMPLATE = Some msgs
        \<and> (\<forall>i < length hs. s_chunk (build_sources hs ! i) = take 200 (hit_doc (hs ! i))
             \<and> substr (chunk_text (s_index (build_sources hs ! i)) (hs ! i)) (snd (last msgs))))"
proof -
  have index: "map s_index (build_sources hs) = [1 ..< Suc (length hs)]"
    by (rule nth_equalityI) (simp_all add: build_sources_def sources_from_nth CITATION_BASE_INDEX_def
        del: upt_Suc)
  then have named: "(\<exists>s \<in> set (build_sources hs). s_index s = n) \<longleftrightarrow> 1 \<le> n \<and> n \<le> length hs" for n
  proof -
    have "(\<exists>s \<in> set (build_sources hs). s_index s = n) \<longleftrightarrow> n \<in> set (map s_index (build_sources hs))" by auto
    then show ?thesis unfolding index by auto
  qed
  obtain valid invalid where e: "extract_citations answer (length hs) = (valid, invalid)" by fastforce
  let ?chunks = "join ([10, 10] @ asc ''---'' @ [10, 10]) (numbered CITATION_BASE_INDEX hs)"
  let ?content = "asc ''### Context'' @ [10, 10] @ ?chunks @ [10, 10] @ asc ''### User Question'' @ [10] @ q"
  let ?msgs = "[(asc ''system'', SYSTEM_PROMPT)] @ last_n 6 hist @ [(asc ''user'', ?content)]"
  have prompt: "build_rag_prompt other q hs hist SYSTEM_PROMPT CONTEXT_TEMPLATE = Some ?msgs"
    by (simp add: build_rag_prompt_def Let_def default_template)
  have chunk: "s_chunk (build_sources hs ! i) = take 200 (hit_doc (hs ! i))
      \<and> substr (chunk_text (s_index (build_sources hs ! i)) (hs ! i)) (snd (last ?msgs))"
    if "i < length hs" for i
  proof -
    have "numbered CITATION_BASE_INDEX hs ! i \<in> set (numbered CITATION_BASE_INDEX hs)"
      using that by simp
    then have "substr (chunk_text (CITATION_BASE_INDEX + i) (hs ! i)) ?chunks"
      using substr_join numbered_nth [OF that] by metis
    then have "substr (chunk_text (CITATION_BASE_INDEX + i) (hs ! i)) ?content"
      by (intro substr_prepend substr_append)
    then show ?thesis using sources_from_nth [OF that, of CITATION_BASE_INDEX] by (simp add: build_sources_def)
  qed
  show ?thesis using index named extract_citations_value(1) [OF e] prompt chunk e by auto
qed

theorem citations_lead_to_sources_witness:
  "\<forall>h. map s_index (build_sources [h, h]) = [1, 2]"
proof
  fix h
  from citations_lead_to_sources [of "[h, h]" "[]" "\<lambda>_. None" "[]" "[]"]
  have "map s_index (build_sources [h, h]) = [1 ..< Suc (length [h, h])]" by blast
  also have "\<dots> = [1, 2]" by (simp add: upt_rec)
  finally show "map s_index (build_sources [h, h]) = [1, 2]" .
qed

end
