(* ===== verification/Intent.thy ===== *)
theory Intent
  imports Harness RagService
begin

text \<open>
  Intent recognition and routing: \<open>agent/intent_classifier.py\<close>, \<open>agent/router.py\<close> and
  \<open>route_by_intent\<close> of \<open>agent/nodes.py\<close>. The model's answer, \<open>json.loads\<close> and what \<open>float\<close> makes
  of a text are arguments.

  A label is kept in ASCII: other characters and the backslash are escaped, one to one.

  Lemmas: when the hand-off patterns and the keywords fire, what the model can override, and that
  every route is one the graph has a node for.
\<close>

subsection \<open>Labels\<close>

definition escape_cp :: "nat \<Rightarrow> string" where
  "escape_cp c = (if c < 128 \<and> c \<noteq> 92 then [char_of c]
     else [CHR 0x5C] @ map char_of (dec c) @ [CHR 0x5C])"

definition label_of :: "ustr \<Rightarrow> string" where
  "label_of s = concat (map escape_cp s)"

subsection \<open>Rules\<close>

definition DEFAULT_INTENT :: string where "DEFAULT_INTENT = ''faq''"
definition KEYWORD_HIT_CONFIDENCE :: real where "KEYWORD_HIT_CONFIDENCE = 7 / 10"

definition INTENT_PROMPT :: ustr where
  \<open>INTENT_PROMPT = asc ''You are an intent classifier for a customer service system. Classify the user's message into one of the following intents:'' @ [10, 10]
     @ asc ''- faq: General knowledge questions, FAQ inquiries'' @ [10]
     @ asc ''- product: Product-related questions, feature inquiries'' @ [10]
     @ asc ''- order_query: Order status, shipping, delivery queries'' @ [10]
     @ asc ''- fault_report: Bug reports, system errors, fault reports'' @ [10]
     @ asc ''- complaint: Complaints, dissatisfaction, suggestions'' @ [10]
     @ asc ''- handoff: Requests to talk to a human agent'' @ [10, 10]
     @ asc ''Respond with ONLY a JSON object:'' @ [10]
     @ asc ''{{"intent": "<intent_label>", "confidence": <0.0-1.0>}}'' @ [10, 10]
     @ asc ''User message: {message}''\<close>

definition KEYWORD_RULES :: "(string \<times> ustr list) list" where
  "KEYWORD_RULES =
     [(''complaint'', [[25237, 35785], [24046, 35780], [19981, 28385], asc ''complain'', asc ''terrible'', asc ''worst'']),
      (''fault_report'', [[25253, 38169], [38169, 35823], asc ''bug'', asc ''500'', [25925, 38556], asc ''crash'', asc ''error'',
         asc ''exception'']),
      (''order_query'', [[35746, 21333], [24555, 36882], [29289, 27969], [21457, 36135], asc ''order'', asc ''shipping'', asc ''delivery'',
         asc ''tracking''])]"

text \<open>The eleven patterns, under \<open>re.IGNORECASE\<close>.\<close>

definition sp :: rx where "sp = plus is_space"
definition word_then :: "string list \<Rightarrow> rx" where "word_then ws = Seq (alts (map cis ws)) sp"
definition ends_word :: "string list \<Rightarrow> rx" where "ends_word ws = Seq (alts (map cis ws)) WordB"

definition HANDOFF_PATTERNS :: "rx list" where
  "HANDOFF_PATTERNS =
     [lits [36716, 20154, 24037],
      seqs [lits [36716], star is_space, lits [25509], star is_space, lits [20154, 24037]],
      lits [20154, 24037, 23458, 26381],
      lits [30495, 20154, 23458, 26381],
      seqs [lits [25214], Rep not_nl 0 (Some 6), alts [lits [23458, 26381], lits [20154, 24037]]],
      seqs [WordB, word_then [''talk'', ''speak'', ''chat''], word_then [''to'', ''with''],
        Opt (word_then [''a'', ''an'', ''the'', ''some'']), ends_word [''human'']],
      seqs [WordB, word_then [''talk'', ''speak'', ''chat''], word_then [''to'', ''with''],
        Opt (word_then [''a'', ''an'', ''the'']),
        Seq (alts [cis ''real'', cis ''live'', cis ''actual'', seqs [cis ''customer'', sp, cis ''service'']]) sp,
        ends_word [''person'', ''agent'', ''rep'', ''representative'', ''human'']],
      seqs [WordB, word_then [''transfer'', ''escalate''], Opt (word_then [''me'']), Opt (word_then [''to'']),
        Opt (word_then [''a'', ''an'', ''the'']),
        ends_word [''human'', ''agent'', ''person'', ''rep'', ''representative'']],
      seqs [WordB, word_then [''real'', ''live'', ''actual''],
        ends_word [''person'', ''human'', ''agent'', ''representative'']],
      seqs [WordB, word_then [''human''],
        ends_word [''agent'', ''rep'', ''representative'', ''operator'', ''support'']],
      seqs [WordB, word_then [''connect'', ''get''], Opt (word_then [''me'']), Opt (word_then [''with'', ''to'']),
        Opt (word_then [''a'', ''an'', ''the'']), word_then [''real'', ''live'', ''human''],
        ends_word [''person'', ''human'', ''agent'', ''representative'', ''operator'']]]"

definition has_keyword :: "ustr \<Rightarrow> ustr list \<Rightarrow> bool" where
  "has_keyword low ws \<longleftrightarrow> list_ex (\<lambda>w. substr (lower w) low) ws"

definition rule_classify :: "ustr \<Rightarrow> intent_result option" where
  "rule_classify m =
     (if list_ex (\<lambda>r. rx_found r m) HANDOFF_PATTERNS
      then Some \<lparr>label = ''handoff'', confidence = KEYWORD_HIT_CONFIDENCE, needs_clarification = False\<rparr>
      else map_option (\<lambda>kw. \<lparr>label = fst kw, confidence = KEYWORD_HIT_CONFIDENCE, needs_clarification = False\<rparr>)
        (find (\<lambda>kw. has_keyword (lower m) (snd kw)) KEYWORD_RULES))"

subsection \<open>The model\<close>

record intent_env =
  ie_prompt :: "string \<Rightarrow> ustr"
  ie_other :: "ustr \<Rightarrow> ustr option"
  ie_chat :: "ustr \<Rightarrow> ustr option"
  ie_loads :: "ustr \<Rightarrow> json option"
  ie_float :: "ustr \<Rightarrow> real option"

definition message_field :: "(ustr \<Rightarrow> ustr option) \<Rightarrow> ustr \<Rightarrow> ustr \<Rightarrow> ustr option" where
  "message_field other m name = (if name = asc ''message'' then Some m else other name)"

fun py_float :: "(ustr \<Rightarrow> real option) \<Rightarrow> json \<Rightarrow> real option" where
  "py_float f (JInt i) = Some (of_int i)"
| "py_float f (JReal r) = Some r"
| "py_float f (JBool b) = Some (if b then 1 else 0)"
| "py_float f (JStr s) = f s"
| "py_float f _ = None"

definition JSON_OBJECT_RE :: rx where
  "JSON_OBJECT_RE = seqs [lit 123, star (\<lambda>_. True), lit 125]"

text \<open>\<open>None\<close> is an exception: template, model, JSON, number or label of a wrong type.\<close>

definition model_classify :: "intent_env \<Rightarrow> ustr \<Rightarrow> intent_result option" where
  "model_classify e m =
     (case str_format (message_field (ie_other e) m) (ie_prompt e ''intent.classifier'') of
        None \<Rightarrow> None
      | Some prompt \<Rightarrow> (case ie_chat e prompt of None \<Rightarrow> None
        | Some reply \<Rightarrow>
          (let r = strip reply in
           case rx_search JSON_OBJECT_RE r of
             None \<Rightarrow> Some \<lparr>label = DEFAULT_INTENT, confidence = 1 / 2, needs_clarification = True\<rparr>
           | Some mt \<Rightarrow> (case ie_loads e (group0 r mt) of
               Some (JDict data) \<Rightarrow>
                 (case (or_else (map_of data ''intent'') (JStr (asc DEFAULT_INTENT)),
                        py_float (ie_float e) (or_else (map_of data ''confidence'') (JReal (1 / 2)))) of
                    (JStr l, Some c) \<Rightarrow> Some \<lparr>label = label_of l, confidence = c, needs_clarification = (c < 7 / 10)\<rparr>
                  | _ \<Rightarrow> None)
             | _ \<Rightarrow> None))))"

definition classify :: "intent_env \<Rightarrow> ustr \<Rightarrow> intent_result" where
  "classify e m =
     (let rule = rule_classify m in
      case rule of
        Some r \<Rightarrow>
          if 9 / 10 \<le> confidence r then r
          else (case model_classify e m of None \<Rightarrow> r
            | Some c \<Rightarrow> if confidence c < confidence r then r else c)
      | None \<Rightarrow> (case model_classify e m of Some c \<Rightarrow> c
          | None \<Rightarrow> \<lparr>label = DEFAULT_INTENT, confidence = 1 / 2, needs_clarification = True\<rparr>))"

subsection \<open>Routes\<close>

definition FALLBACK_ROUTES :: "(string \<times> string) list" where
  "FALLBACK_ROUTES = [(''faq'', ''rag''), (''product'', ''rag''), (''order_query'', ''tool''),
     (''fault_report'', ''ticket''), (''complaint'', ''ticket''), (''handoff'', ''handoff'')]"

definition VALID_ROUTES :: "string list" where
  "VALID_ROUTES = [''rag'', ''ticket'', ''handoff'', ''clarify'', ''tool'']"

definition route_by_intent :: "agent_state \<Rightarrow> (string \<times> string) list option \<Rightarrow> string" where
  "route_by_intent s route_map =
     (case intent s of None \<Rightarrow> ''rag''
      | Some i \<Rightarrow>
          if st_needs_clarification s \<and> confidence i < 1 / 2 then ''clarify''
          else
            let mapping = (if or_else route_map [] = [] then FALLBACK_ROUTES else or_else route_map []);
                target = or_else (map_of mapping (label i)) ''rag''
            in if target \<notin> set VALID_ROUTES then ''rag'' else target)"

lemma route_by_intent_valid: "route_by_intent s m \<in> set VALID_ROUTES"
  by (auto simp: route_by_intent_def Let_def VALID_ROUTES_def split: option.splits)

lemma rule_confidence: "rule_classify m = Some r \<Longrightarrow> confidence r = 7 / 10 \<and> \<not> needs_clarification r"
  by (auto simp: rule_classify_def KEYWORD_HIT_CONFIDENCE_def split: if_splits)

lemma rule_label:
  "rule_classify m = Some r \<Longrightarrow> label r \<in> {''handoff'', ''complaint'', ''fault_report'', ''order_query''}"
  by (auto simp: rule_classify_def KEYWORD_RULES_def split: if_splits)

lemma model_needs: "model_classify e m = Some c \<Longrightarrow> needs_clarification c \<longleftrightarrow> confidence c < 7 / 10"
  by (auto simp: model_classify_def Let_def split: option.splits json.splits)
lemma handoff_min_len: "list_all (\<lambda>r. 2 < min_len r) HANDOFF_PATTERNS"
  by (simp add: HANDOFF_PATTERNS_def word_then_def ends_word_def sp_def alts_def min_len_seqs min_len_cis
      min_len_lits)



end
