(* ===== verification/Agent.thy ===== *)
theory Agent
  imports Intent Slots Handoffs
begin

text \<open>
  One agent turn: the nodes of \<open>agent/nodes.py\<close>, the branches of \<open>agent/graph.py\<close> and
  \<open>AgentService.process\<close> of \<open>agent/service.py\<close>, over all tables. The environment holds what the
  turn reads from outside: the models, the services that were passed in and fresh identifiers.

  Lemmas: what each node may change, and for the whole turn that it always answers, that its route
  is a node, and that only the conversation's own rows, tickets and hand-offs can change.
\<close>

subsection \<open>What a turn reads\<close>

record ticket_env =
  tv_first :: "uuid \<times> (ticket list \<Rightarrow> ticket list)"
  tv_second :: "uuid \<times> (ticket list \<Rightarrow> ticket list)"

record handoff_env =
  hv_id :: uuid
  hv_others :: "handoff list \<Rightarrow> handoff list"
  hv_summary :: "ustr option"

record agent_env =
  ae_policy :: policy
  ae_run :: string
  ae_now :: int
  ae_intent :: intent_env
  ae_rag :: "rag_deps option"
  ae_tool :: tool_env
  ae_slot :: slot_env
  ae_ticket :: "ticket_env option"
  ae_handoff :: "handoff_env option"
  ae_routes :: "(string \<times> string) list"
  ae_idtext :: "uuid \<Rightarrow> ustr"
  ae_errtext :: "err \<Rightarrow> ustr"

record process_result =
  pr_tokens :: "ustr list"
  pr_sources :: "source list"
  pr_intent :: "intent_result option"
  pr_ticket :: "ticket_data option"
  pr_handoff :: bool
  pr_tool :: "tool_result option"
  pr_trace :: trace

subsection \<open>Nodes\<close>

definition classify_node :: "agent_env \<Rightarrow> agent_state \<Rightarrow> agent_state" where
  "classify_node e s =
     (let i = classify (ae_intent e) (question s)
      in s\<lparr>intent := Some i, st_needs_clarification := needs_clarification i\<rparr>)"

text \<open>The RAG node of the graph: every failure becomes the error of the state.\<close>

definition rag_node :: "agent_env \<Rightarrow> agent_state \<Rightarrow> agent_state" where
  "rag_node e s =
     (case ae_rag e of None \<Rightarrow> s\<lparr>st_error := Some (asc ''error'')\<rparr>
      | Some d \<Rightarrow> (case rag_query_stream d (question s) (conversation_history s) 5 None of
          Inl _ \<Rightarrow> s\<lparr>st_error := Some (asc ''error'')\<rparr>
        | Inr r \<Rightarrow> s\<lparr>harness_trace := record_grounding_trace (harness_trace s) (rs_grounding r),
            sources := rs_sources r, response_tokens := response_tokens s @ rs_tokens r\<rparr>))"

definition rag_stream_node :: "agent_env \<Rightarrow> agent_state \<Rightarrow> (agent_state \<times> rag_stream) option" where
  "rag_stream_node e s =
     (case ae_rag e of None \<Rightarrow> None
      | Some d \<Rightarrow> (case rag_query_stream d (question s) (conversation_history s) 5 None of
          Inl _ \<Rightarrow> None
        | Inr r \<Rightarrow> Some (s\<lparr>harness_trace := record_grounding_trace (harness_trace s) (rs_grounding r)\<rparr>, r)))"

definition INTENT_TICKET_MAP :: "(string \<times> string \<times> priority) list" where
  "INTENT_TICKET_MAP = [(''fault_report'', ''fault_report'', PHigh), (''complaint'', ''complaint'', PHigh)]"

fun priority_name :: "priority \<Rightarrow> string" where
  "priority_name PLow = ''low''"
| "priority_name PMedium = ''medium''"
| "priority_name PHigh = ''high''"
| "priority_name PUrgent = ''urgent''"

definition ticket_request :: "agent_env \<Rightarrow> agent_state \<Rightarrow> uuid \<Rightarrow> ticket" where
  "ticket_request e s u =
     (let lab = (case intent s of None \<Rightarrow> ''general'' | Some i \<Rightarrow> label i);
          cfg = or_else (map_of INTENT_TICKET_MAP lab) (''general'', PMedium)
      in new_ticket (ae_now e) u (fst cfg) (take 200 (question s)) (Some (question s)) (snd cfg)
           (parse_uuid (conversation_id s))
           (Some (JDict [(''source'', JStr (asc ''agent'')), (''intent'', JStr (asc lab))])))"

definition ticket_node :: "agent_env \<Rightarrow> ticket_env \<Rightarrow> agent_state \<Rightarrow> world \<Rightarrow> agent_state \<times> world" where
  "ticket_node e tv s w =
     (case parse_uuid (user_id s) of
        None \<Rightarrow> (let msg = asc ''Invalid user identity, cannot create ticket.''
          in (s\<lparr>st_error := Some msg, response_tokens := [msg]\<rparr>, w))
      | Some u \<Rightarrow>
         (case service_create (tv_first tv) (tv_second tv) (ticket_request e s u) (w_tickets w) of
            (Inr t, rows, _) \<Rightarrow>
              (s\<lparr>ticket_id := Some (tk_id t),
                 ticket_data := Some \<lparr>td_ticket_id = tk_id t, td_status = status_name (tk_status t),
                   td_type = tk_type t, td_priority = priority_name (tk_priority t)\<rparr>,
                 response_tokens := [[24050, 20026, 24744, 21019, 24314, 24037, 21333, 65292, 32534, 21495, 65306] @ ae_idtext e (tk_id t) @ [12290],
                   [23458, 26381, 20154, 21592, 23558, 23613, 24555, 36319, 36827, 22788, 29702, 65292, 35831, 30041, 24847, 24037,
     21333, 29366, 24577, 26356, 26032, 12290]]\<rparr>, w\<lparr>w_tickets := rows\<rparr>)
          | (Inl err, rows, _) \<Rightarrow>
              (s\<lparr>st_error := Some (ae_errtext e err),
                 response_tokens := [[25265, 27465, 65292, 24037, 21333, 21019, 24314, 22833, 36133, 65292, 35831, 31245, 21518, 20877, 35797, 25110,
     32852, 31995, 20154, 24037, 23458, 26381, 12290]]\<rparr>,
               w\<lparr>w_tickets := rows\<rparr>)))"

text \<open>Both steps absorb their failures; the second runs whatever the first did.\<close>

definition mark_transferred :: "agent_env \<Rightarrow> agent_state \<Rightarrow> world \<Rightarrow> world" where
  "mark_transferred e s w =
     (if se_repo (ae_slot e) \<and> id_given (conversation_id s) \<and> \<not> se_fails (ae_slot e)
      then (case parse_uuid (conversation_id s) of None \<Rightarrow> w
        | Some c \<Rightarrow> w\<lparr>w_convs := snd (conv_update_status (ae_now e) c CTransferred (w_convs w))\<rparr>)
      else w)"

definition handoff_node :: "agent_env \<Rightarrow> agent_state \<Rightarrow> world \<Rightarrow> agent_state \<times> world" where
  "handoff_node e s w =
     (let w1 = mark_transferred e s w;
          w2 = (case ae_handoff e of None \<Rightarrow> w1
            | Some hv \<Rightarrow> if id_given (conversation_id s)
                then snd (enqueue (hv_id hv) (ae_now e) (hv_others hv) (hv_summary hv) s w1) else w1)
      in (s\<lparr>should_handoff := True,
            response_tokens := [[27491, 22312, 20026, 24744, 36716, 25509, 20154, 24037, 23458, 26381, 65292, 35831, 31245, 20505, 12290], [24744, 30340, 38382, 39064, 25688, 35201, 21644, 23545, 35805, 35760, 24405, 23558, 19968, 24182, 36716, 20132,
     32473, 23458, 26381, 20154, 21592, 12290]]\<rparr>,
          w2))"

definition tool_node :: "agent_env \<Rightarrow> agent_state \<Rightarrow> world \<Rightarrow> agent_state \<times> world" where
  "tool_node e s w =
     (let lab = (case intent s of None \<Rightarrow> ''order_query'' | Some i \<Rightarrow> label i);
          r = execute_tool (ae_tool e) lab (question s);
          s1 = s\<lparr>tool_result := Some r, response_tokens := [tr_display r]\<rparr>;
          (s2, convs) = sync_pending (ae_slot e) s1 r (w_convs w)
      in (s2, w\<lparr>w_convs := convs\<rparr>))"

definition CLARIFY_RESPONSE :: ustr where
  "CLARIFY_RESPONSE = [25105, 19981, 22826, 30830, 23450, 24744, 30340, 38656, 27714, 65292, 33021, 21542, 35831, 24744, 25552, 20379,
     26356, 22810, 32454, 33410, 20197, 20415, 25105, 26356, 22909, 22320, 24110, 21161, 24744, 65311]"

definition clarify_node :: "agent_env \<Rightarrow> agent_state \<Rightarrow> agent_state" where
  "clarify_node e s = s\<lparr>response_tokens := [ie_prompt (ae_intent e) ''agent.clarify'']\<rparr>"

subsection \<open>The graph\<close>

definition graph_run :: "agent_env \<Rightarrow> agent_state \<Rightarrow> world \<Rightarrow> agent_state \<times> world" where
  "graph_run e s0 w =
     (let s = (if intent s0 = None then classify_node e s0 else s0);
          r = (case route s of None \<Rightarrow> route_by_intent s (Some (ae_routes e))
            | Some r \<Rightarrow> if r = '''' then route_by_intent s (Some (ae_routes e)) else r)
      in if r = ''rag'' then (rag_node e s, w)
         else if r = ''ticket'' then
           (case ae_ticket e of
              None \<Rightarrow> (s\<lparr>response_tokens := [[24037, 21333, 26381, 21153, 26242, 19981, 21487, 29992, 65292, 35831, 32852, 31995, 20154, 24037, 23458, 26381,
     12290]]\<rparr>, w)
            | Some tv \<Rightarrow> ticket_node e tv s w)
         else if r = ''handoff'' then handoff_node e s w
         else if r = ''tool'' then tool_node e s w
         else if r = ''clarify'' then (clarify_node e s, w)
         else (s, w))"

subsection \<open>The service\<close>

definition run_rag_branch :: "agent_env \<Rightarrow> agent_state \<Rightarrow> process_result" where
  "run_rag_branch e s =
     (case rag_stream_node e s of
        Some (s', r) \<Rightarrow> \<lparr>pr_tokens = wrap_stream (ae_policy e) (rs_tokens r), pr_sources = rs_sources r,
          pr_intent = intent s', pr_ticket = None, pr_handoff = False, pr_tool = None,
          pr_trace = harness_trace s'\<rparr>
      | None \<Rightarrow> \<lparr>pr_tokens = [[25265, 27465, 65292, 26242, 26102, 26080, 27861, 26816, 32034, 20449, 24687, 65292, 35831, 31245, 21518, 20877,
     35797, 12290]], pr_sources = [], pr_intent = intent s,
          pr_ticket = None, pr_handoff = False, pr_tool = None, pr_trace = harness_trace s\<rparr>)"

text \<open>
  From an accepted request to the chosen route: resume a waiting slot or classify and settle it,
  then let the harness decide.
\<close>

definition decide_route :: "agent_env \<Rightarrow> agent_state \<Rightarrow> pending option \<Rightarrow> world \<Rightarrow> agent_state \<times> string \<times> world" where
  "decide_route e s0 pend w =
     (let (s1, slot_route) = resume_pending_route s0 pend;
          (s2, convs, slot_route2) =
            (case slot_route of Some r \<Rightarrow> (s1, w_convs w, Some r)
             | None \<Rightarrow> settle_pending (ae_slot e) (classify_node e s1) (w_convs w));
          cand = (case slot_route2 of Some r \<Rightarrow> r | None \<Rightarrow> route_by_intent s2 (Some (ae_routes e)));
          (s3, r) = choose_route (ae_policy e) s2 cand
      in (s3, r, w\<lparr>w_convs := convs\<rparr>))"

definition process ::
  "agent_env \<Rightarrow> ustr option \<Rightarrow> (ustr option \<times> ustr option) list \<Rightarrow> idstr \<Rightarrow> idstr \<Rightarrow> pending option
   \<Rightarrow> world \<Rightarrow> process_result \<times> world" where
  "process e q hist uid cid pend w =
     (let d = prepare (ae_policy e) (ae_run e) q hist uid cid in
      if d_action d = ''stop''
      then (\<lparr>pr_tokens = response_tokens (d_state d), pr_sources = [], pr_intent = intent (d_state d),
             pr_ticket = None, pr_handoff = False, pr_tool = None, pr_trace = harness_trace (d_state d)\<rparr>, w)
      else
        let (s, r, w1) = decide_route e (d_state d) pend w in
        if r = ''rag'' then (run_rag_branch e s, w1)
        else
          let (s1, w2) = graph_run e s w1; s2 = finalize_state (ae_policy e) s1
          in (\<lparr>pr_tokens = response_tokens s2, pr_sources = sources s2, pr_intent = intent s2,
               pr_ticket = ticket_data s2, pr_handoff = should_handoff s2, pr_tool = tool_result s2,
               pr_trace = harness_trace s2\<rparr>, w2))"
subsection \<open>What a turn may change\<close>

text \<open>Only the rows of its conversation, the tickets and the hand-off sessions; owners stay.\<close>

definition turn_frame :: "idstr \<Rightarrow> world \<Rightarrow> world \<Rightarrow> bool" where
  "turn_frame cid w w' \<longleftrightarrow>
     w_users w' = w_users w \<and> w_msgs w' = w_msgs w \<and> w_feedback w' = w_feedback w \<and> w_gaps w' = w_gaps w
     \<and> w_drafts w' = w_drafts w \<and> w_docs w' = w_docs w \<and> w_templates w' = w_templates w
     \<and> w_versions w' = w_versions w \<and> w_intents w' = w_intents w \<and> w_audits w' = w_audits w
     \<and> (\<forall>j. cid \<noteq> Hex j \<longrightarrow> row_of cv_id j (w_convs w') = row_of cv_id j (w_convs w))
     \<and> (\<forall>j. map_option cv_user (row_of cv_id j (w_convs w')) = map_option cv_user (row_of cv_id j (w_convs w)))"

lemma turn_frame_refl [simp]: "turn_frame cid w w"
  by (simp add: turn_frame_def)

lemma turn_frame_trans: "turn_frame cid w w1 \<Longrightarrow> turn_frame cid w1 w2 \<Longrightarrow> turn_frame cid w w2"
  by (auto simp: turn_frame_def)

lemma turn_frame_tickets [simp]: "turn_frame cid w (w\<lparr>w_tickets := ts\<rparr>)"
  and turn_frame_handoffs [simp]: "turn_frame cid w (w\<lparr>w_handoffs := hs\<rparr>)"
  by (simp_all add: turn_frame_def)

lemma turn_frame_convs:
  "(\<And>j. cid \<noteq> Hex j \<Longrightarrow> row_of cv_id j cs = row_of cv_id j (w_convs w)) \<Longrightarrow>
   (\<And>j. map_option cv_user (row_of cv_id j cs) = map_option cv_user (row_of cv_id j (w_convs w))) \<Longrightarrow>
   turn_frame cid w (w\<lparr>w_convs := cs\<rparr>)"
  by (simp add: turn_frame_def)

lemma turn_frame_save [simp]: "turn_frame cid w (w\<lparr>w_convs := save_pending_tool e cid rec (w_convs w)\<rparr>)"
  by (rule turn_frame_convs) (auto simp: save_pending_row option.map_comp o_def)

lemma turn_frame_same [simp]: "turn_frame cid w (w\<lparr>w_convs := w_convs w\<rparr>)"
  by (rule turn_frame_convs) simp_all

lemma settle_cases:
  "settle_pending e s convs = (s', convs', r) \<Longrightarrow>
     (convs' = convs \<or> convs' = save_pending_tool e (conversation_id s) None convs)
     \<and> conversation_id s' = conversation_id s \<and> user_id s' = user_id s \<and> question s' = question s
     \<and> ticket_data s' = ticket_data s \<and> should_handoff s' = should_handoff s"
  by (auto simp: settle_pending_def split: option.splits if_splits)

lemma sync_cases:
  "sync_pending e s r convs = (s', convs') \<Longrightarrow>
     (convs' = convs \<or> (\<exists>rec. convs' = save_pending_tool e (conversation_id s) rec convs))
     \<and> ticket_data s' = ticket_data s \<and> should_handoff s' = should_handoff s
     \<and> response_tokens s' = response_tokens s \<and> tool_result s' = tool_result s"
  by (auto simp: sync_pending_def Let_def split: option.splits if_splits)

lemma choose_route_more:
  "conversation_id (fst (choose_route p s c)) = conversation_id s"
  "user_id (fst (choose_route p s c)) = user_id s"
  "ticket_data (fst (choose_route p s c)) = ticket_data s"
  "should_handoff (fst (choose_route p s c)) = should_handoff s"
  by (simp_all add: choose_route_def Let_def)

lemma resume_more:
  "user_id (fst (resume_pending_route s p)) = user_id s"
  "ticket_data (fst (resume_pending_route s p)) = ticket_data s"
  "should_handoff (fst (resume_pending_route s p)) = should_handoff s"
  by (simp_all add: resume_pending_route_def Let_def)

lemma prepare_more:
  "conversation_id (d_state (prepare p run q h u c)) = c"
  "user_id (d_state (prepare p run q h u c)) = u"
  "ticket_data (d_state (prepare p run q h u c)) = None"
  "should_handoff (d_state (prepare p run q h u c)) = False"
  by (simp_all add: prepare_def stop_def new_state_def Let_def split: prod.split)

lemma decide_route_facts:
  assumes "decide_route e s pend w = (s', r, w')"
  shows "turn_frame (conversation_id s) w w'" and "w_tickets w' = w_tickets w" and "w_handoffs w' = w_handoffs w"
    and "conversation_id s' = conversation_id s" and "user_id s' = user_id s" and "question s' = question s"
    and "ticket_data s' = ticket_data s" and "should_handoff s' = should_handoff s"
    and "route s' = Some r" and "intent s' \<noteq> None" and "\<exists>s2 c. r = snd (choose_route (ae_policy e) s2 c)"
proof -
  obtain s1 sr where r1: "resume_pending_route s pend = (s1, sr)" by fastforce
  obtain s2 convs sr2 where r2: "(case sr of Some r \<Rightarrow> (s1, w_convs w, Some r)
      | None \<Rightarrow> settle_pending (ae_slot e) (classify_node e s1) (w_convs w)) = (s2, convs, sr2)"
    by (metis prod_cases3)
  let ?cand = "case sr2 of Some r \<Rightarrow> r | None \<Rightarrow> route_by_intent s2 (Some (ae_routes e))"
  have out: "s' = fst (choose_route (ae_policy e) s2 ?cand)" "r = snd (choose_route (ae_policy e) s2 ?cand)"
    "w' = w\<lparr>w_convs := convs\<rparr>"
    using assms r1 r2 by (auto simp: decide_route_def Let_def split: prod.splits)
  have s1: "conversation_id s1 = conversation_id s" "user_id s1 = user_id s" "question s1 = question s"
    "ticket_data s1 = ticket_data s" "should_handoff s1 = should_handoff s"
    using resume_fields(1,2) [of s pend] resume_more [of s pend] r1 by simp_all
  have s2: "(convs = w_convs w \<or> convs = save_pending_tool (ae_slot e) (conversation_id s) None (w_convs w))
      \<and> conversation_id s2 = conversation_id s \<and> user_id s2 = user_id s \<and> question s2 = question s
      \<and> ticket_data s2 = ticket_data s \<and> should_handoff s2 = should_handoff s \<and> intent s2 \<noteq> None"
  proof (cases sr)
    case None
    then have st: "settle_pending (ae_slot e) (classify_node e s1) (w_convs w) = (s2, convs, sr2)"
      using r2 by simp
    have "intent s2 \<noteq> None" using st
      by (auto simp: settle_pending_def classify_node_def Let_def split: option.splits if_splits)
    then show ?thesis using settle_cases [OF st] s1 by (simp add: classify_node_def Let_def)
  next
    case (Some x)
    have "\<exists>i. intent s1 = Some i" using resume_fields(4) [of s pend x] r1 Some by auto
    then show ?thesis using r2 Some s1 by auto
  qed
  show "turn_frame (conversation_id s) w w'" using s2 out(3) by auto
  show "w_tickets w' = w_tickets w" "w_handoffs w' = w_handoffs w" using out(3) by simp_all
  show "conversation_id s' = conversation_id s" "user_id s' = user_id s" "question s' = question s"
    "ticket_data s' = ticket_data s" "should_handoff s' = should_handoff s" "route s' = Some r"
    "intent s' \<noteq> None"
    using s2 by (simp_all add: out choose_route_more choose_route_state)
  show "\<exists>s2 c. r = snd (choose_route (ae_policy e) s2 c)" using out(2) by blast
qed

text \<open>A ticket service with a fresh identifier and nobody else writing always creates or finds one.\<close>

definition ticket_env_ok :: "agent_env \<Rightarrow> world \<Rightarrow> bool" where
  "ticket_env_ok e w \<longleftrightarrow> tickets_ok (w_tickets w) \<and>
     (\<forall>tv. ae_ticket e = Some tv \<longrightarrow> snd (tv_first tv) = id \<and> fst (tv_first tv) \<notin> tk_id ` set (w_tickets w))"

lemma service_create_quiet:
  assumes "wants t" "tickets_ok rows" "i \<notin> tk_id ` set rows"
  shows "\<exists>r rows' x. service_create (i, id) b t rows = (Inr r, rows', x) \<and> tickets_ok rows'
     \<and> r \<in> set rows' \<and> tk_user r = tk_user t"
proof (cases "find_duplicate (tk_created t) (tk_user t) (tk_title t) 24 rows")
  case None
  obtain r rows' where "ticket_create (i, id) b t rows = (Inr r, rows')" "tickets_ok rows'" "r \<in> set rows'"
    "open_slot r = Some (tk_user t, tk_title t)" using ticket_create_quiet [OF assms] by blast
  then show ?thesis using None by (auto simp: service_create_def open_slot_Some)
next
  case (Some d)
  then show ?thesis using assms(2) find_duplicate_iff [OF Some] by (auto simp: service_create_def open_slot_Some)
qed

lemma ticket_node_facts:
  assumes "ticket_env_ok e w" "ae_ticket e = Some tv" "ticket_node e tv s w = (s', w')" "ticket_data s = None"
  shows "turn_frame cid w w' \<and> w_handoffs w' = w_handoffs w \<and> should_handoff s' = should_handoff s
     \<and> tickets_ok (w_tickets w') \<and> (ticket_data s' = None \<longrightarrow> w_tickets w' = w_tickets w)
     \<and> (\<forall>td. ticket_data s' = Some td \<longrightarrow> (\<exists>t \<in> set (w_tickets w'). tk_id t = td_ticket_id td
           \<and> user_id s = Hex (tk_user t)))"
proof (cases "user_id s")
  case (Raw x)
  then have "w' = w" "ticket_data s' = None" "should_handoff s' = should_handoff s"
    using assms(3,4) by (auto simp: ticket_node_def Let_def)
  then show ?thesis using assms(1) by (simp add: ticket_env_ok_def)
next
  case (Hex u)
  obtain i b where tv: "tv_first tv = (i, id)" "i \<notin> tk_id ` set (w_tickets w)" "tickets_ok (w_tickets w)"
    using assms(1,2) by (cases "tv_first tv") (auto simp: ticket_env_ok_def)
  have "wants (ticket_request e s u)" "tk_user (ticket_request e s u) = u"
    by (simp_all add: ticket_request_def Let_def new_ticket_wants) (simp add: new_ticket_def)
  with service_create_quiet [OF this(1) tv(3,2), of "tv_second tv"] obtain r rows' x where
    "service_create (i, id) (tv_second tv) (ticket_request e s u) (w_tickets w) = (Inr r, rows', x)"
    and r: "tickets_ok rows'" "r \<in> set rows'" "tk_user r = u" by auto
  then have s': "turn_frame cid w w'" "w_handoffs w' = w_handoffs w" "should_handoff s' = should_handoff s"
    "w_tickets w' = rows'" "\<exists>td. ticket_data s' = Some td \<and> td_ticket_id td = tk_id r"
    using assms(3) Hex tv(1) by (auto simp: ticket_node_def)
  then show ?thesis using r Hex by auto
qed

lemma enqueue_world: "snd (enqueue i now oth ans s w) = w\<lparr>w_handoffs := w_handoffs (snd (enqueue i now oth ans s w))\<rparr>"
  by (auto simp: enqueue_def Let_def split: option.split prod.split)

lemma handoff_node_facts:
  assumes "handoff_node e s w = (s', w')"
  shows "turn_frame (conversation_id s) w w' \<and> w_tickets w' = w_tickets w \<and> should_handoff s'
     \<and> ticket_data s' = ticket_data s
     \<and> (\<forall>c. conversation_id s = Hex c \<and> se_repo (ae_slot e) \<and> \<not> se_fails (ae_slot e) \<longrightarrow>
          row_of cv_id c (w_convs w') = map_option (\<lambda>x. x\<lparr>cv_status := CTransferred, cv_updated := ae_now e\<rparr>)
            (row_of cv_id c (w_convs w)))"
proof -
  have marked: "turn_frame (conversation_id s) w (mark_transferred e s w)
     \<and> w_tickets (mark_transferred e s w) = w_tickets w
     \<and> (\<forall>c. conversation_id s = Hex c \<and> se_repo (ae_slot e) \<and> \<not> se_fails (ae_slot e) \<longrightarrow>
          row_of cv_id c (w_convs (mark_transferred e s w)) =
            map_option (\<lambda>x. x\<lparr>cv_status := CTransferred, cv_updated := ae_now e\<rparr>) (row_of cv_id c (w_convs w)))"
    by (cases "conversation_id s")
      (auto simp: mark_transferred_def update_status_row option.map_comp o_def intro!: turn_frame_convs
        split: if_splits)
  have w': "\<exists>hs. w' = (mark_transferred e s w)\<lparr>w_handoffs := hs\<rparr>"
  proof (cases "ae_handoff e = None \<or> \<not> id_given (conversation_id s)")
    case True
    then have "w' = (mark_transferred e s w)\<lparr>w_handoffs := w_handoffs (mark_transferred e s w)\<rparr>"
      using assms by (auto simp: handoff_node_def Let_def split: option.splits if_splits)
    then show ?thesis by blast
  next
    case False
    then obtain hv where "ae_handoff e = Some hv" "id_given (conversation_id s)"
      by (cases "ae_handoff e") auto
    then have "w' = snd (enqueue (hv_id hv) (ae_now e) (hv_others hv) (hv_summary hv) s (mark_transferred e s w))"
      using assms by (auto simp: handoff_node_def Let_def)
    then show ?thesis using enqueue_world by blast
  qed
  have s': "should_handoff s' \<and> ticket_data s' = ticket_data s"
    using assms by (auto simp: handoff_node_def Let_def)
  from w' obtain hs where "w' = (mark_transferred e s w)\<lparr>w_handoffs := hs\<rparr>" ..
  then show ?thesis using marked s' turn_frame_trans [OF _ turn_frame_handoffs] by auto
qed

lemma tool_node_facts:
  assumes "tool_node e s w = (s', w')"
  shows "turn_frame (conversation_id s) w w' \<and> w_tickets w' = w_tickets w \<and> w_handoffs w' = w_handoffs w
     \<and> should_handoff s' = should_handoff s \<and> ticket_data s' = ticket_data s"
  using assms by (auto simp: tool_node_def Let_def dest!: sync_cases split: prod.splits)

lemma graph_run_routed:
  assumes "intent s = Some i" "route s = Some r" "r \<noteq> ''''"
  shows "graph_run e s w =
     (if r = ''rag'' then (rag_node e s, w)
      else if r = ''ticket'' then
        (case ae_ticket e of
           None \<Rightarrow> (s\<lparr>response_tokens := [[24037, 21333, 26381, 21153, 26242, 19981, 21487, 29992, 65292, 35831, 32852, 31995, 20154, 24037, 23458, 26381,
     12290]]\<rparr>, w)
         | Some tv \<Rightarrow> ticket_node e tv s w)
      else if r = ''handoff'' then handoff_node e s w
      else if r = ''tool'' then tool_node e s w
      else if r = ''clarify'' then (clarify_node e s, w)
      else (s, w))"
  using assms by (simp add: graph_run_def Let_def)

lemma graph_run_facts:
  assumes "ticket_env_ok e w" "route s = Some r" "r \<in> set VALID_ROUTES" "intent s \<noteq> None"
    and "ticket_data s = None" "\<not> should_handoff s" "graph_run e s w = (s', w')"
  shows "turn_frame (conversation_id s) w w' \<and> tickets_ok (w_tickets w')
     \<and> (ticket_data s' = None \<longrightarrow> w_tickets w' = w_tickets w)
     \<and> (\<forall>td. ticket_data s' = Some td \<longrightarrow> r = ''ticket'' \<and> (\<exists>t \<in> set (w_tickets w'). tk_id t = td_ticket_id td
           \<and> user_id s = Hex (tk_user t)))
     \<and> (should_handoff s' \<longleftrightarrow> r = ''handoff'')
     \<and> (\<not> should_handoff s' \<longrightarrow> w_handoffs w' = w_handoffs w)
     \<and> (\<forall>c. should_handoff s' \<and> conversation_id s = Hex c \<and> se_repo (ae_slot e) \<and> \<not> se_fails (ae_slot e) \<longrightarrow>
          row_of cv_id c (w_convs w') = map_option (\<lambda>x. x\<lparr>cv_status := CTransferred, cv_updated := ae_now e\<rparr>)
            (row_of cv_id c (w_convs w)))"
proof -
  have ok: "tickets_ok (w_tickets w)" using assms(1) by (simp add: ticket_env_ok_def)
  obtain i where i: "intent s = Some i" using assms(4) by blast
  have "r \<noteq> ''''" using assms(3) by (auto simp: VALID_ROUTES_def)
  note run = assms(7) [unfolded graph_run_routed [OF i assms(2) this]]
  consider "r = ''rag''" | "r = ''clarify''" | "r = ''ticket''" "ae_ticket e = None"
    | tv where "r = ''ticket''" "ae_ticket e = Some tv" | "r = ''handoff''" | "r = ''tool''"
    using assms(3) by (auto simp: VALID_ROUTES_def)
  then show ?thesis
  proof cases
    case 1
    then have "w' = w \<and> ticket_data s' = None \<and> \<not> should_handoff s'" using run assms(5,6)
      by (auto simp: rag_node_def split: option.splits sum.splits)
    then show ?thesis using ok 1 by simp
  next
    case 2
    then have "w' = w \<and> ticket_data s' = None \<and> \<not> should_handoff s'" using run assms(5,6)
      by (auto simp: clarify_node_def)
    then show ?thesis using ok 2 by simp
  next
    case 3
    then have "w' = w \<and> ticket_data s' = None \<and> \<not> should_handoff s'" using run assms(5,6) by auto
    then show ?thesis using ok 3 by simp
  next
    case 4
    then have "ticket_node e tv s w = (s', w')" using run by simp
    from ticket_node_facts [OF assms(1) 4(2) this assms(5)] show ?thesis using 4(1) assms(6) by simp
  next
    case 5
    then have "handoff_node e s w = (s', w')" using run by simp
    from handoff_node_facts [OF this] show ?thesis using 5 assms(5) ok by simp
  next
    case 6
    then have "tool_node e s w = (s', w')" using run by simp
    from tool_node_facts [OF this] show ?thesis using 6 assms(5,6) ok by simp
  qed
qed

lemma finalize_fields:
  "ticket_data (finalize_state p s) = ticket_data s" "should_handoff (finalize_state p s) = should_handoff s"
  "tool_result (finalize_state p s) = tool_result s"
  by (simp_all add: finalize_state_def Let_def split: prod.split)

lemma choose_route_default: "snd (choose_route default_policy s c) \<in> set VALID_ROUTES"
  unfolding choose_route_value VALID_ROUTES_def
  by (cases "\<exists>i. intent s = Some i \<and> confidence i < low_confidence_threshold default_policy";
      cases "c \<in> set (allowed_routes default_policy)") auto

lemma chosen_route_valid:
  assumes "ae_policy e = default_policy" "decide_route e s pend w = (s', r, w')"
  shows "r \<in> set VALID_ROUTES"
  using decide_route_facts(11) [OF assms(2)] choose_route_default unfolding assms(1) by blast

lemma process_contract:
  assumes "ae_policy e = default_policy" "ticket_env_ok e w" "process e q hist uid cid pend w = (r, w')"
  shows "turn_frame cid w w' \<and> tickets_ok (w_tickets w')
     \<and> (d_action (prepare default_policy (ae_run e) q hist uid cid) = ''stop'' \<longrightarrow> w' = w)
     \<and> (pr_ticket r = None \<longrightarrow> w_tickets w' = w_tickets w)
     \<and> (\<forall>td. pr_ticket r = Some td \<longrightarrow>
          (\<exists>t \<in> set (w_tickets w'). tk_id t = td_ticket_id td \<and> uid = Hex (tk_user t)))
     \<and> (\<not> pr_handoff r \<longrightarrow> w_handoffs w' = w_handoffs w)
     \<and> (\<forall>c. pr_handoff r \<and> cid = Hex c \<and> se_repo (ae_slot e) \<and> \<not> se_fails (ae_slot e) \<longrightarrow>
          map_option cv_status (row_of cv_id c (w_convs w')) = map_option (\<lambda>_. CTransferred) (row_of cv_id c (w_convs w)))"
proof -
  let ?d = "prepare default_policy (ae_run e) q hist uid cid"
  have ok: "tickets_ok (w_tickets w)" using assms(2) by (simp add: ticket_env_ok_def)
  show ?thesis
  proof (cases "d_action ?d = ''stop''")
    case True
    then have "w' = w \<and> pr_ticket r = None \<and> \<not> pr_handoff r"
      using assms(1,3) by (auto simp: process_def Let_def)
    then show ?thesis using ok by simp
  next
    case False
    obtain s rt w1 where dec: "decide_route e (d_state ?d) pend w = (s, rt, w1)" by (metis prod_cases3)
    note f = decide_route_facts [OF dec, unfolded prepare_more]
    have env1: "ticket_env_ok e w1" using assms(2) f(2) by (simp add: ticket_env_ok_def)
    show ?thesis
    proof (cases "rt = ''rag''")
      case True
      then have "w' = w1 \<and> pr_ticket r = None \<and> \<not> pr_handoff r"
        using assms(1,3) False dec by (auto simp: process_def Let_def run_rag_branch_def split: option.splits)
      then show ?thesis using f ok False by simp
    next
      case rt: False
      obtain s1 w2 where g: "graph_run e s w1 = (s1, w2)" by fastforce
      have res: "w' = w2" "pr_ticket r = ticket_data s1" "pr_handoff r = should_handoff s1"
        using assms(1,3) False dec rt g by (auto simp: process_def Let_def finalize_fields)
      have data: "ticket_data s = None" "\<not> should_handoff s" using f(7,8) by simp_all
      note gf = graph_run_facts [OF env1 f(9) chosen_route_valid [OF assms(1) dec] f(10) data g]
      have frame: "turn_frame cid w w'" using f(1) gf f(4) turn_frame_trans res(1) by metis
      have row1: "(row_of cv_id c (w_convs w1) = None) = (row_of cv_id c (w_convs w) = None)" for c
        using f(1) unfolding turn_frame_def by (metis option.map_disc_iff)
      have status: "map_option cv_status (row_of cv_id c (w_convs w')) = map_option (\<lambda>_. CTransferred) (row_of cv_id c (w_convs w))"
        if "pr_handoff r \<and> cid = Hex c \<and> se_repo (ae_slot e) \<and> \<not> se_fails (ae_slot e)" for c
        using gf that res f(4) row1 [of c]
        by (cases "row_of cv_id c (w_convs w1)"; cases "row_of cv_id c (w_convs w)") auto
      show ?thesis using frame gf res f(2,3,4,5) False status by auto
    qed
  qed
qed

text \<open>
  C2: what an agent turn may change. Messages, users, documents, prompts, gaps and every other
  table are untouched, and so are all conversations but the turn's own, whose owner never changes.
  The tickets stay well-formed; they change only when the result carries a ticket, which then is
  in the table and belongs to the asking user. The hand-off queue changes only when the result
  says so, and then the conversation is marked transferred. A stopped turn changes nothing.
\<close>

theorem process_frame:
  assumes "ae_policy e = default_policy" "ticket_env_ok e w" "process e q hist uid cid pend w = (r, w')"
  shows "turn_frame cid w w' \<and> tickets_ok (w_tickets w')
     \<and> (d_action (prepare default_policy (ae_run e) q hist uid cid) = ''stop'' \<longrightarrow> w' = w)
     \<and> (pr_ticket r = None \<longrightarrow> w_tickets w' = w_tickets w)
     \<and> (\<forall>td. pr_ticket r = Some td \<longrightarrow>
          (\<exists>t \<in> set (w_tickets w'). tk_id t = td_ticket_id td \<and> uid = Hex (tk_user t)))
     \<and> (\<not> pr_handoff r \<longrightarrow> w_handoffs w' = w_handoffs w)
     \<and> (\<forall>c. pr_handoff r \<and> cid = Hex c \<and> se_repo (ae_slot e) \<and> \<not> se_fails (ae_slot e) \<longrightarrow>
          map_option cv_status (row_of cv_id c (w_convs w')) = map_option (\<lambda>_. CTransferred) (row_of cv_id c (w_convs w)))"
  by (rule process_contract [OF assms])

definition sample_env :: agent_env where
  "sample_env = \<lparr>ae_policy = default_policy, ae_run = ''r'', ae_now = 0,
     ae_intent = \<lparr>ie_prompt = \<lambda>_. CLARIFY_RESPONSE, ie_other = \<lambda>_. None, ie_chat = \<lambda>_. None,
       ie_loads = \<lambda>_. None, ie_float = \<lambda>_. None\<rparr>,
     ae_rag = None,
     ae_tool = \<lparr>te_configured = False, te_webhook = \<lambda>_. Timeout, te_knowledge = \<lambda>_. None, te_show = \<lambda>_. []\<rparr>,
     ae_slot = \<lparr>se_repo = True, se_fails = False, se_now = 0\<rparr>,
     ae_ticket = Some \<lparr>tv_first = (8, id), tv_second = (9, id)\<rparr>, ae_handoff = None, ae_routes = [],
     ae_idtext = \<lambda>_. [], ae_errtext = \<lambda>_. []\<rparr>"

lemma sample_env_ok: "ae_policy sample_env = default_policy" "ticket_env_ok sample_env empty_world"
  by (simp_all add: sample_env_def ticket_env_ok_def tickets_ok_def empty_world_def uniq_on_def)

theorem process_frame_witness:
  "\<exists>r w'. process sample_env (Some (asc ''hi'')) [] (Hex 1) (Hex 2) None empty_world = (r, w')
     \<and> turn_frame (Hex 2) empty_world w' \<and> w_msgs w' = []"
proof -
  obtain r w' where p: "process sample_env (Some (asc ''hi'')) [] (Hex 1) (Hex 2) None empty_world = (r, w')"
    by fastforce
  from process_frame [OF sample_env_ok p] have "turn_frame (Hex 2) empty_world w'" by blast
  with p show ?thesis by (auto simp: turn_frame_def empty_world_def)
qed

subsection \<open>A turn always answers\<close>

lemma limit_loop_length:
  "length (concat (fst (limit_loop p e ts))) \<le> (max_response_chars p - e) + length (response_truncated_notice p)"
proof (induction ts arbitrary: e)
  case (Cons t ts)
  show ?case using Cons [of "e + length t"] by (auto simp: Let_def case_prod_beta)
qed simp

lemma limit_loop_nonempty:
  "e < max_response_chars p \<Longrightarrow> 0 < length (concat ts) \<Longrightarrow> 0 < length (concat (fst (limit_loop p e ts)))"
proof (induction ts arbitrary: e)
  case (Cons t ts)
  show ?case
  proof (cases "t = []")
    case True
    then show ?thesis using Cons by (simp add: Let_def case_prod_beta)
  next
    case False
    then show ?thesis using Cons.prems(1) by (auto simp: Let_def case_prod_beta)
  qed
qed simp

lemma finalize_answers:
  assumes "0 < max_response_chars p" "0 < length (fallback_response p)"
  shows "0 < length (concat (response_tokens (finalize_state p s)))
     \<and> length (concat (response_tokens (finalize_state p s)))
         \<le> max_response_chars p + length (response_truncated_notice p)"
proof -
  define toks where "toks = (if \<not> list_ex (\<lambda>t. strip t \<noteq> []) (response_tokens s) then [fallback_response p]
    else response_tokens s)"
  have out: "response_tokens (finalize_state p s) = fst (limit_loop p 0 toks)"
    by (simp add: finalize_state_def toks_def limit_tokens_def Let_def case_prod_beta)
  have "0 < length (concat toks)"
  proof (cases "list_ex (\<lambda>t. strip t \<noteq> []) (response_tokens s)")
    case True
    then obtain t where "t \<in> set (response_tokens s)" "strip t \<noteq> []" by (auto simp: list_ex_iff simp del: strip_eq_Nil_iff)
    then have "t \<noteq> []" using strip_Nil by blast
    then show ?thesis using True \<open>t \<in> set (response_tokens s)\<close> by (auto simp: toks_def)
  next
    case False
    then show ?thesis using assms(2) by (simp add: toks_def)
  qed
  then show ?thesis
    unfolding out using limit_loop_nonempty [of 0 p toks] limit_loop_length [of p 0 toks] assms(1) by simp
qed

lemma wrap_answers:
  assumes "0 < max_response_chars p" "0 < length (fallback_response p)"
    and "length (fallback_response p) \<le> max_response_chars p"
  shows "0 < length (concat (wrap_stream p ts))
     \<and> length (concat (wrap_stream p ts)) \<le> max_response_chars p + length (response_truncated_notice p)"
  unfolding wrap_stream_text using assms by (cases "concat ts") auto

lemma canned_lengths:
  "0 < length (empty_input_response default_policy)" "0 < length (too_long_response default_policy)"
  "0 < length (prompt_control_response default_policy)" "length (empty_input_response default_policy) \<le> 8000"
  "length (too_long_response default_policy) \<le> 8000" "length (prompt_control_response default_policy) \<le> 8000"
  "length (response_truncated_notice default_policy) = 20"
  by (simp_all add: default_policy_def)

lemma finalize_trace [simp]: "t_route (harness_trace (finalize_state p s)) = t_route (harness_trace s)"
  by (simp add: finalize_state_def Let_def case_prod_beta)

lemma finalize_intent [simp]: "intent (finalize_state p s) = intent s"
  by (simp add: finalize_state_def Let_def case_prod_beta)

lemma finalize_flags: "set (flags_of (harness_trace s)) \<subseteq> set (flags_of (harness_trace (finalize_state p s)))"
  by (auto simp: finalize_state_def Let_def case_prod_beta flags_of_def)

lemma graph_run_trace:
  assumes "route s = Some r" "r \<in> set VALID_ROUTES" "intent s \<noteq> None" "r \<noteq> ''rag''"
  shows "harness_trace (fst (graph_run e s w)) = harness_trace s"
proof -
  obtain i where i: "intent s = Some i" using assms(3) by blast
  have "r \<noteq> ''''" using assms(2) by (auto simp: VALID_ROUTES_def)
  have ticket: "harness_trace (fst (ticket_node e tv s w)) = harness_trace s" for tv
    by (auto simp: ticket_node_def Let_def split: option.split prod.split sum.split)
  have tool: "harness_trace (fst (tool_node e s w)) = harness_trace s"
    by (auto simp: tool_node_def sync_pending_def Let_def split: option.split prod.split)
  show ?thesis unfolding graph_run_routed [OF i assms(1) \<open>r \<noteq> ''''\<close>]
    using ticket tool assms(4) by (auto simp: handoff_node_def clarify_node_def Let_def split: option.split)
qed

lemma prepare_stop:
  assumes "d_action (prepare default_policy run q h u c) = ''stop''"
  shows "0 < length (concat (response_tokens (d_state (prepare default_policy run q h u c))))
     \<and> length (concat (response_tokens (d_state (prepare default_policy run q h u c)))) \<le> 8000
     \<and> t_route (harness_trace (d_state (prepare default_policy run q h u c))) = None"
  using assms canned_lengths
  by (auto simp: prepare_def stop_def base_trace_def empty_trace_def Let_def split: prod.splits if_splits)

lemma chosen_trace: "choose_route p s c = (s', r) \<Longrightarrow> t_route (harness_trace s') = Some r"
  by (metis choose_route_trace(1) fst_conv snd_conv)

lemma decide_route_trace:
  "decide_route e s pend w = (s', r, w') \<Longrightarrow> t_route (harness_trace s') = Some r"
  by (auto simp: decide_route_def Let_def choose_route_trace split: prod.splits dest!: chosen_trace)

text \<open>
  C3: a turn always answers. Whatever the question, the history, the models and the services do,
  the tokens carry some text and at most the response budget plus the truncation notice, and the
  trace names a route the graph has a node for, unless the request was stopped, which leaves no
  route.
\<close>

theorem process_answers:
  assumes "ae_policy e = default_policy"
  shows "let r = fst (process e q hist uid cid pend w) in
     0 < length (concat (pr_tokens r)) \<and> length (concat (pr_tokens r)) \<le> 8000 + 20
     \<and> (if d_action (prepare default_policy (ae_run e) q hist uid cid) = ''stop''
        then t_route (pr_trace r) = None
        else t_route (pr_trace r) \<in> Some ` {''rag'', ''ticket'', ''handoff'', ''clarify'', ''tool''})"
proof -
  let ?d = "prepare default_policy (ae_run e) q hist uid cid"
  have bounds: "0 < max_response_chars default_policy" "0 < length (fallback_response default_policy)"
    "length (fallback_response default_policy) \<le> max_response_chars default_policy" by simp_all
  show ?thesis
  proof (cases "d_action ?d = ''stop''")
    case True
    then show ?thesis using prepare_stop [OF True] assms by (simp add: process_def Let_def)
  next
    case False
    obtain s rt w1 where dec: "decide_route e (d_state ?d) pend w = (s, rt, w1)" by (metis prod_cases3)
    have valid: "rt \<in> set VALID_ROUTES" by (rule chosen_route_valid [OF assms dec])
    have route: "t_route (harness_trace s) = Some rt" by (rule decide_route_trace [OF dec])
    show ?thesis
    proof (cases "rt = ''rag''")
      case True
      then have r: "fst (process e q hist uid cid pend w) = run_rag_branch e s"
        using assms False dec by (simp add: process_def Let_def)
      have "t_route (pr_trace (run_rag_branch e s)) = Some rt"
        using route by (auto simp: run_rag_branch_def rag_stream_node_def record_grounding_trace_def
            split: option.splits sum.splits)
      moreover have "0 < length (concat (pr_tokens (run_rag_branch e s)))
          \<and> length (concat (pr_tokens (run_rag_branch e s))) \<le> 8000 + 20"
        using wrap_answers [OF bounds] canned_lengths(7)
        by (auto simp: run_rag_branch_def assms split: option.splits prod.splits)
      ultimately show ?thesis using valid False by (simp add: r Let_def VALID_ROUTES_def)
    next
      case rt: False
      let ?g = "graph_run e s w1"
      have r: "pr_tokens (fst (process e q hist uid cid pend w)) = response_tokens (finalize_state default_policy (fst ?g))"
        "pr_trace (fst (process e q hist uid cid pend w)) = harness_trace (finalize_state default_policy (fst ?g))"
        using assms False dec rt by (simp_all add: process_def Let_def case_prod_beta)
      have "t_route (harness_trace (fst ?g)) = Some rt"
        using graph_run_trace [OF decide_route_facts(9) [OF dec] valid decide_route_facts(10) [OF dec] rt] route
        by simp
      then show ?thesis using finalize_answers [OF bounds(1,2), of "fst ?g"] canned_lengths(7) valid False
        by (simp add: r Let_def VALID_ROUTES_def)
    qed
  qed
qed

theorem process_answers_witness:
  "0 < length (concat (pr_tokens (fst (process sample_env None [] (Hex 1) (Hex 2) None empty_world))))"
  using process_answers [OF sample_env_ok(1), of None "[]" "Hex 1" "Hex 2" None empty_world]
  unfolding Let_def by blast

subsection \<open>An order number completes the waiting question\<close>

text \<open>
  C26: a waiting order question is completed. When the conversation waits for an order number and
  the accepted message contains one, the turn runs the order tool on it, whatever the classifier
  would say, and the record is cleared from the conversation; tickets and hand-offs are untouched.
\<close>

theorem slot_completes:
  assumes "ae_policy e = default_policy" "se_repo (ae_slot e)" "\<not> se_fails (ae_slot e)"
    and "d_action (prepare default_policy (ae_run e) q hist uid (Hex c)) = ''continue''"
    and "rx_found ORDER_ID_PATTERN (strip (or_else q []))"
    and "pending_given (Some p)" "p_intent p = None \<or> p_intent p = Some ''order_query''"
    and "row_of cv_id c (w_convs w) = Some cv"
  shows "\<exists>r w' cv'. process e q hist uid (Hex c) (Some p) w = (r, w')
     \<and> pr_tool r = Some (execute_tool (ae_tool e) ''order_query'' (strip (or_else q [])))
     \<and> pr_intent r = Some \<lparr>label = ''order_query'', confidence = 9 / 10, needs_clarification = False\<rparr>
     \<and> ''slot_resume'' \<in> set (flags_of (pr_trace r))
     \<and> row_of cv_id c (w_convs w') = Some cv' \<and> read_pending_tool (cv_meta cv') = None
     \<and> cv_user cv' = cv_user cv \<and> cv_status cv' = cv_status cv
     \<and> w_tickets w' = w_tickets w \<and> w_handoffs w' = w_handoffs w"
proof -
  let ?d = "prepare default_policy (ae_run e) q hist uid (Hex c)"
  let ?i = "\<lparr>label = ''order_query'', confidence = 9 / 10, needs_clarification = False\<rparr>"
  let ?x = "execute_tool (ae_tool e) ''order_query'' (strip (or_else q []))"
  define s1 where "s1 = (d_state ?d)\<lparr>pending_tool := Some p, intent := Some ?i,
    harness_trace := (harness_trace (d_state ?d))
      \<lparr>t_flags := Some (append_new ''slot_resume'' (flags_of (harness_trace (d_state ?d))))\<rparr>\<rparr>"
  have res: "resume_pending_route (d_state ?d) (Some p) = (s1, Some ''tool'')"
    using assms(5-7) by (auto simp: resume_pending_route_def s1_def prepare_state RESUME_SLOT_CONFIDENCE_def Let_def)
  define s where "s = fst (choose_route default_policy s1 ''tool'')"
  have i1: "intent s1 = Some ?i" by (simp add: s1_def)
  have rt: "snd (choose_route default_policy s1 ''tool'') = ''tool''"
    by (simp add: choose_route_value i1)
  have dec: "decide_route e (d_state ?d) (Some p) w = (s, ''tool'', w)"
    using res rt assms(1) by (simp add: decide_route_def s_def Let_def case_prod_beta)
  have s: "route s = Some ''tool''" "intent s = Some ?i" "question s = strip (or_else q [])"
    "pending_tool s = Some p" "conversation_id s = Hex c" "''slot_resume'' \<in> set (flags_of (harness_trace s))"
    using i1 rt by (simp_all add: s_def choose_route_state choose_route_more choose_route_flags
        s1_def prepare_state prepare_more trace_simps)
  have slot: "tr_needs_slot ?x = None" using assms(5) by (simp add: execute_tool_slot)
  define s2 where "s2 = s\<lparr>tool_result := Some ?x, response_tokens := [tr_display ?x], pending_tool := None\<rparr>"
  define cs where "cs = save_pending_tool (ae_slot e) (Hex c) None (w_convs w)"
  have tool: "tool_node e s w = (s2, w\<lparr>w_convs := cs\<rparr>)"
    using s slot by (simp add: tool_node_def sync_pending_def s2_def cs_def Let_def)
  have g: "graph_run e s w = (s2, w\<lparr>w_convs := cs\<rparr>)"
    using tool by (simp add: graph_run_routed [OF s(2,1)])
  have trace: "''slot_resume'' \<in> set (flags_of (harness_trace (finalize_state default_policy s2)))"
    using finalize_flags [of s2 default_policy] s(6) by (auto simp: s2_def)
  have row: "\<exists>cv'. row_of cv_id c cs = Some cv' \<and> read_pending_tool (cv_meta cv') = None
      \<and> cv_user cv' = cv_user cv \<and> cv_status cv' = cv_status cv"
    using assms(2,3,8) read_saved [of None] by (simp add: cs_def save_pending_row del: merge_patch.simps)
  obtain r where r: "process e q hist uid (Hex c) (Some p) w = (r, w\<lparr>w_convs := cs\<rparr>)"
    "pr_tool r = Some ?x" "pr_intent r = Some ?i" "pr_trace r = harness_trace (finalize_state default_policy s2)"
    using assms(1,4) dec g s(2) by (simp add: process_def Let_def finalize_fields s2_def)
  show ?thesis using r trace row by fastforce
qed

theorem slot_completes_witness:
  "\<exists>r w'. process sample_env (Some (asc ''AB12345678'')) [] (Hex 1) (Hex 3)
       (Some \<lparr>p_tool = Some ''search_order'', p_slot = Some ''order_id'', p_intent = None, p_turns = Some 0\<rparr>)
       (empty_world\<lparr>w_convs := [sample_conv]\<rparr>) = (r, w')
     \<and> pr_tool r = Some (execute_tool (ae_tool sample_env) ''order_query'' (asc ''AB12345678''))"
proof -
  let ?q = "asc ''AB12345678''"
  have strip: "strip ?q = ?q" by code_simp
  have pats: "\<not> list_ex (\<lambda>r. rx_found r ?q) (prompt_control_patterns default_policy)"
  proof -
    have "list_all (\<lambda>r. \<not> may_match r ?q) default_prompt_control"
      by (simp add: default_prompt_control_def system_or_developer_def rx_build asc_def ci_char_def)
    then show ?thesis using rx_found_may by (fastforce simp: list_ex_iff list_all_iff)
  qed
  have go: "d_action (prepare default_policy (ae_run sample_env) (Some ?q) [] (Hex 1) (Hex 3)) = ''continue''"
    using pats strip by (simp add: prepare_action looks_like_prompt_control_def asc_def del: strip_eq_Nil_iff)
  have found: "rx_found ORDER_ID_PATTERN ?q" by code_simp
  have slot: "se_repo (ae_slot sample_env)" "\<not> se_fails (ae_slot sample_env)"
    by (simp_all add: sample_env_def)
  show ?thesis
    using slot_completes [OF sample_env_ok(1) slot go, of
        "\<lparr>p_tool = Some ''search_order'', p_slot = Some ''order_id'', p_intent = None, p_turns = Some 0\<rparr>"
        "empty_world\<lparr>w_convs := [sample_conv]\<rparr>" sample_conv] found strip
    by (auto simp: pending_given_def row_of_def sample_conv_def)
qed

end
