(* ===== verification/Parsing.thy ===== *)
theory Parsing
  imports Intent
begin

text \<open>
  From the bytes of an uploaded file to the pieces that are embedded: \<open>embedding/parser.py\<close>
  (\<open>parse_file\<close>), \<open>embedding/chunker.py\<close> (\<open>chunk_text\<close>, here \<open>chunk_paragraphs\<close>) and the answers of
  an embedding API (\<open>embedding/embedder.py\<close>). UTF-8 is written out, in the strict form and in the
  one that replaces undecodable bytes; the readers of PDF, DOCX and HTML, the local disk, the
  local embedding model and the HTTP client are arguments.

  Lemmas: decoding undoes encoding; chunking groups the paragraphs in order, loses none of them
  and repeats only the tail of the chunk before; an embedding answer is put back in the order of
  its indices.
\<close>

subsection \<open>UTF-8\<close>

type_synonym bytes = "nat list"

definition is_cont :: "nat \<Rightarrow> bool" where
  "is_cont b \<longleftrightarrow> 128 \<le> b \<and> b < 192"

text \<open>
  The range of the second byte after a lead byte of three or four: no overlong forms, no
  surrogates, nothing beyond U+10FFFF.
\<close>

definition second_ok :: "nat \<Rightarrow> nat \<Rightarrow> bool" where
  "second_ok a b \<longleftrightarrow> is_cont b \<and> (a = 224 \<longrightarrow> 160 \<le> b) \<and> (a = 237 \<longrightarrow> b < 160)
     \<and> (a = 240 \<longrightarrow> 144 \<le> b) \<and> (a = 244 \<longrightarrow> b < 144)"

text \<open>
  The next code point, or nothing for an undecodable byte, and what is left: an undecodable
  sequence is the longest prefix that could still have become a code point.
\<close>

fun utf8_next :: "nat \<Rightarrow> bytes \<Rightarrow> nat option \<times> bytes" where
  "utf8_next a bs =
     (if a < 128 then (Some a, bs)
      else if 194 \<le> a \<and> a < 224 then
        (case bs of b # bs' \<Rightarrow> if is_cont b then (Some ((a - 192) * 64 + (b - 128)), bs') else (None, bs)
         | [] \<Rightarrow> (None, bs))
      else if 224 \<le> a \<and> a < 240 then
        (case bs of b # bs' \<Rightarrow>
           if \<not> second_ok a b then (None, bs)
           else (case bs' of c # bs'' \<Rightarrow> if is_cont c
                  then (Some ((a - 224) * 4096 + (b - 128) * 64 + (c - 128)), bs'')
                  else (None, bs')
                 | [] \<Rightarrow> (None, bs'))
         | [] \<Rightarrow> (None, bs))
      else if 240 \<le> a \<and> a < 245 then
        (case bs of b # bs' \<Rightarrow>
           if \<not> second_ok a b then (None, bs)
           else (case bs' of c # bs'' \<Rightarrow>
                  if \<not> is_cont c then (None, bs')
                  else (case bs'' of d # bs3 \<Rightarrow> if is_cont d
                         then (Some ((a - 240) * 262144 + (b - 128) * 4096 + (c - 128) * 64
                           + (d - 128)), bs3)
                         else (None, bs'')
                        | [] \<Rightarrow> (None, bs''))
                 | [] \<Rightarrow> (None, bs'))
         | [] \<Rightarrow> (None, bs))
      else (None, bs))"

lemma utf8_next_shrinks: "length (snd (utf8_next a bs)) \<le> length bs"
  by (auto split: list.splits)

declare utf8_next.simps [simp del]

text \<open>\<open>bytes.decode("utf-8")\<close>, \<open>None\<close> for \<open>UnicodeDecodeError\<close>, and with \<open>errors="replace"\<close>.\<close>

function utf8_strict :: "bytes \<Rightarrow> ustr option" where
  "utf8_strict [] = Some []"
| "utf8_strict (a # bs) = (case utf8_next a bs of
     (None, _) \<Rightarrow> None
   | (Some c, rest) \<Rightarrow> map_option ((#) c) (utf8_strict rest))"
  by pat_completeness auto
termination
  by (relation "measure length") (simp_all, metis le_imp_less_Suc snd_conv utf8_next_shrinks)

definition REPLACEMENT :: nat where "REPLACEMENT = 65533"

function utf8_replace :: "bytes \<Rightarrow> ustr" where
  "utf8_replace [] = []"
| "utf8_replace (a # bs) = (case utf8_next a bs of
     (oc, rest) \<Rightarrow> or_else oc REPLACEMENT # utf8_replace rest)"
  by pat_completeness auto
termination
  by (relation "measure length") (simp_all, metis le_imp_less_Suc snd_conv utf8_next_shrinks)

text \<open>\<open>str.encode("utf-8")\<close>, \<open>None\<close> for \<open>UnicodeEncodeError\<close> on a surrogate.\<close>

definition scalar :: "nat \<Rightarrow> bool" where
  "scalar c \<longleftrightarrow> c < 55296 \<or> (57344 \<le> c \<and> c < 1114112)"

definition utf8_char :: "nat \<Rightarrow> bytes" where
  "utf8_char c =
     (if c < 128 then [c]
      else if c < 2048 then [192 + c div 64, 128 + c mod 64]
      else if c < 65536 then [224 + c div 4096, 128 + c div 64 mod 64, 128 + c mod 64]
      else [240 + c div 262144, 128 + c div 4096 mod 64, 128 + c div 64 mod 64, 128 + c mod 64])"

definition utf8_encode :: "ustr \<Rightarrow> bytes option" where
  "utf8_encode s = (if list_all scalar s then Some (concat (map utf8_char s)) else None)"

lemma dm64: "a = (64::nat) * (a div 64) + a mod 64" "a mod 64 < (64::nat)"
  by simp_all

lemma utf8_char_next:
  assumes "scalar c"
  shows "\<exists>a as. utf8_char c = a # as \<and> utf8_next a (as @ rest) = (Some c, rest)"
proof -
  have d: "c div 4096 = c div 64 div 64" "c div 262144 = c div 64 div 64 div 64"
    by (simp_all add: div_mult2_eq [symmetric])
  define u where "u = c div 64"
  define v where "v = u div 64"
  define w where "w = v div 64"
  have c: "c = 64 * u + c mod 64" "u = 64 * v + u mod 64" "v = 64 * w + v mod 64"
    by (simp_all add: u_def v_def w_def)
  have m: "c mod 64 < 64" "u mod 64 < 64" "v mod 64 < 64" by simp_all
  have e: "utf8_char c =
     (if c < 128 then [c]
      else if c < 2048 then [192 + u, 128 + c mod 64]
      else if c < 65536 then [224 + v, 128 + u mod 64, 128 + c mod 64]
      else [240 + w, 128 + v mod 64, 128 + u mod 64, 128 + c mod 64])"
    by (simp add: utf8_char_def d u_def v_def w_def)
  consider "c < 128" | "128 \<le> c" "c < 2048" | "2048 \<le> c" "c < 65536" | "65536 \<le> c"
    by linarith
  then show ?thesis
  proof cases
    case 1 then show ?thesis by (simp add: e utf8_next.simps)
  next
    case 2
    then have "2 \<le> u" "u < 32" using c m by linarith+
    then show ?thesis using 2 c m by (simp add: e utf8_next.simps is_cont_def)
  next
    case 3
    then have v: "v < 16" "v = 0 \<longrightarrow> 32 \<le> u mod 64" "v = 13 \<longrightarrow> u mod 64 < 32"
      using c m assms unfolding scalar_def by linarith+
    have s: "second_ok (224 + v) (128 + u mod 64)"
      using v m by (auto simp: second_ok_def is_cont_def)
    have n: "\<not> c < 128" "\<not> c < 2048" "c < 65536" using 3 by linarith+
    have r: "v * 4096 + u mod 64 * 64 + c mod 64 = c" using c by linarith
    show ?thesis using v(1) m by (simp add: e n utf8_next.simps is_cont_def s r)
  next
    case 4
    then have w: "w < 5" "w = 0 \<longrightarrow> 16 \<le> v mod 64" "w = 4 \<longrightarrow> v mod 64 < 16"
      using c m assms unfolding scalar_def by linarith+
    have s: "second_ok (240 + w) (128 + v mod 64)"
      using w m by (auto simp: second_ok_def is_cont_def)
    have n: "\<not> c < 128" "\<not> c < 2048" "\<not> c < 65536" using 4 by linarith+
    have r: "w * 262144 + v mod 64 * 4096 + u mod 64 * 64 + c mod 64 = c" using c by linarith
    show ?thesis using w(1) m by (simp add: e n utf8_next.simps is_cont_def s r)
  qed
qed

lemma utf8_strict_char: "scalar c \<Longrightarrow> utf8_strict (utf8_char c @ rest) = map_option ((#) c) (utf8_strict rest)"
  using utf8_char_next [of c rest] by auto

lemma utf8_roundtrip: "utf8_encode s = Some bs \<Longrightarrow> utf8_strict bs = Some s"
proof (induction s arbitrary: bs)
  case (Cons c s)
  then show ?case by (auto simp: utf8_encode_def utf8_strict_char split: if_splits)
qed (auto simp: utf8_encode_def)

lemma utf8_replace_strict: "utf8_strict bs = Some s \<Longrightarrow> utf8_replace bs = s"
  by (induction bs arbitrary: s rule: utf8_strict.induct) (auto split: prod.splits option.splits)

subsection \<open>Files\<close>

text \<open>A raised exception: the name of its class and its message.\<close>

datatype exn = Exn string ustr

text \<open>\<open>Path(p).suffix\<close>: of the last component, from its last dot, unless that is its first or last character.\<close>

definition path_name :: "ustr \<Rightarrow> ustr" where
  "path_name p = (let ws = filter (\<lambda>w. w \<noteq> [] \<and> w \<noteq> asc ''.'') (split_on 47 p)
     in if ws = [] then [] else last ws)"

definition path_suffix :: "ustr \<Rightarrow> ustr" where
  "path_suffix p = (let n = path_name p in
     case find (\<lambda>i. n ! i = 46) (rev [0 ..< length n]) of
       None \<Rightarrow> []
     | Some i \<Rightarrow> if 0 < i \<and> i < length n - 1 then drop i n else [])"

text \<open>
  The disk of the server, the pages of a PDF (from a stream or from a path), the paragraphs of a
  DOCX, the text of an HTML page, and the message of a decoding error.
\<close>

record parse_env =
  pe_disk :: "ustr \<Rightarrow> exn + bytes"
  pe_pdf :: "bytes + ustr \<Rightarrow> exn + ustr list"
  pe_docx :: "bytes \<Rightarrow> exn + ustr list"
  pe_html :: "bytes \<Rightarrow> exn + ustr"
  pe_decode_msg :: "bytes \<Rightarrow> ustr"

text \<open>\<open>content_bytes or Path(file_path).read_bytes()\<close>: empty content counts as absent.\<close>

definition bytes_or_disk :: "parse_env \<Rightarrow> ustr \<Rightarrow> bytes option \<Rightarrow> exn + bytes" where
  "bytes_or_disk E path content =
     (if or_else content [] \<noteq> [] then Inr (or_else content []) else pe_disk E path)"

definition parse_pdf :: "parse_env \<Rightarrow> ustr \<Rightarrow> bytes option \<Rightarrow> exn + ustr" where
  "parse_pdf E path content =
     map_sum id (join [10]) (pe_pdf E (if or_else content [] \<noteq> [] then Inl (or_else content []) else Inr path))"

definition parse_docx :: "parse_env \<Rightarrow> bytes \<Rightarrow> exn + ustr" where
  "parse_docx E bs = map_sum id (\<lambda>ps. join [10] (filter (\<lambda>p. \<not> blank p) ps)) (pe_docx E bs)"

definition decode_strict :: "parse_env \<Rightarrow> bytes \<Rightarrow> exn + ustr" where
  "decode_strict E bs = (case utf8_strict bs of
     None \<Rightarrow> Inl (Exn ''UnicodeDecodeError'' (pe_decode_msg E bs)) | Some s \<Rightarrow> Inr s)"

fun and_then :: "exn + 'a \<Rightarrow> ('a \<Rightarrow> exn + 'b) \<Rightarrow> exn + 'b" where
  "and_then (Inl e) f = Inl e"
| "and_then (Inr x) f = f x"

definition parse_file :: "parse_env \<Rightarrow> ustr \<Rightarrow> bytes option \<Rightarrow> exn + ustr" where
  "parse_file E path content =
     (let suffix = lower (path_suffix path); src = bytes_or_disk E path content in
      if suffix = asc ''.pdf'' then parse_pdf E path content
      else if suffix = asc ''.docx'' then and_then src (parse_docx E)
      else if suffix = asc ''.md'' then and_then src (decode_strict E)
      else if suffix = asc ''.html'' \<or> suffix = asc ''.htm'' then and_then src (pe_html E)
      else if suffix = asc ''.txt'' then and_then src (decode_strict E)
      else and_then src (\<lambda>bs. Inr (utf8_replace bs)))"

subsection \<open>Chunks\<close>

text \<open>\<open>re.split(r"\n{2,}", text)\<close>.\<close>

function split_paragraphs :: "ustr \<Rightarrow> ustr list" where
  "split_paragraphs [] = [[]]"
| "split_paragraphs (c # s) =
     (if c = 10 \<and> take 1 s = [10] then [] # split_paragraphs (dropWhile (\<lambda>x. x = 10) s)
      else (case split_paragraphs s of [] \<Rightarrow> [[c]] | w # ws \<Rightarrow> (c # w) # ws))"
  by pat_completeness auto
termination
  by (relation "measure length") (auto simp: le_imp_less_Suc length_dropWhile_le)

text \<open>One turn of the loop: the chunks so far, the open chunk and its length.\<close>

definition carry_over :: "nat \<Rightarrow> ustr \<Rightarrow> ustr list" where
  "carry_over overlap joined =
     (let c = drop (length joined - overlap) joined in if blank c then [] else [c])"

definition chunk_step ::
  "nat \<Rightarrow> nat \<Rightarrow> ustr \<Rightarrow> ustr list \<times> ustr list \<times> nat \<Rightarrow> ustr list \<times> ustr list \<times> nat" where
  "chunk_step sz overlap p st =
     (case st of (chunks, current, len) \<Rightarrow>
        let para = strip p; n = length para in
        if para = [] then (chunks, current, len)
        else if sz < len + n \<and> current \<noteq> [] then
          let joined = join [10] current; carry = carry_over overlap joined
          in (chunks @ [joined], carry @ [para], sum_list (map length carry) + n)
        else (chunks, current @ [para], len + n))"

definition chunk_paragraphs :: "ustr \<Rightarrow> nat \<Rightarrow> nat \<Rightarrow> ustr list" where
  "chunk_paragraphs text sz overlap =
     (case fold (chunk_step sz overlap) (split_paragraphs text) ([], [], 0) of
        (chunks, current, _) \<Rightarrow>
          filter (\<lambda>c. \<not> blank c) (if current = [] then chunks else chunks @ [join [10] current]))"

text \<open>
  The reference: groups of paragraphs, each chunk the tail of the one before it followed by its
  group.
\<close>

definition paragraphs :: "ustr \<Rightarrow> ustr list" where
  "paragraphs text = filter (\<lambda>p. p \<noteq> []) (map strip (split_paragraphs text))"

fun with_overlap :: "nat \<Rightarrow> ustr \<Rightarrow> ustr list list \<Rightarrow> ustr list" where
  "with_overlap overlap prev [] = []"
| "with_overlap overlap prev (g # gs) =
     (let c = join [10] (carry_over overlap prev @ g) in c # with_overlap overlap c gs)"

lemma with_overlap_snoc:
  "with_overlap ov p (gs @ [g]) = with_overlap ov p gs
     @ [join [10] (carry_over ov (last (p # with_overlap ov p gs)) @ g)]"
  by (induction gs arbitrary: p) (auto simp: Let_def)

lemma carry_over_Nil [simp]: "carry_over ov [] = []"
  by (simp add: carry_over_def blank_def strip_def)

lemma carry_over_le: "sum_list (map length (carry_over ov s)) \<le> ov"
  by (auto simp: carry_over_def Let_def)

lemma blank_Nil [simp]: "blank []"
  by (simp add: blank_def strip_def)

lemma carry_over_nonempty: "[] \<notin> set (carry_over ov s)"
  by (auto simp: carry_over_def Let_def)

lemma join_length: "[] \<notin> set ws \<Longrightarrow> length (join [c] ws) \<le> 2 * sum_list (map length ws)"
proof (induction "[c]" ws rule: join.induct)
  case (3 w v ws)
  then have "1 \<le> length w" by (cases w) auto
  with 3 show ?case by simp
qed auto

text \<open>What the loop has done after the paragraphs \<open>ps\<close>, none longer than \<open>m\<close>.\<close>

definition chunk_inv :: "nat \<Rightarrow> nat \<Rightarrow> nat \<Rightarrow> ustr list \<Rightarrow> ustr list \<times> ustr list \<times> nat \<Rightarrow> bool" where
  "chunk_inv sz ov m ps st \<longleftrightarrow> (case st of (chunks, current, len) \<Rightarrow>
     len = sum_list (map length current) \<and> len \<le> max sz (ov + m) \<and> [] \<notin> set current
     \<and> (\<forall>c \<in> set chunks. length c \<le> 2 * max sz (ov + m))
     \<and> (current = [] \<longrightarrow> ps = [])
     \<and> (\<exists>gs g. concat gs @ g = ps \<and> [] \<notin> set gs \<and> chunks = with_overlap ov [] gs
          \<and> current = carry_over ov (last ([] # chunks)) @ g \<and> (g = [] \<longrightarrow> ps = [])))"

lemma chunk_step_inv:
  assumes "chunk_inv sz ov m ps st" and "length (strip p) \<le> m"
  shows "chunk_inv sz ov m (if blank p then ps else ps @ [strip p]) (chunk_step sz ov p st)"
proof (cases st)
  case (fields chunks current len)
  from assms(1) obtain gs g where
    l: "len = sum_list (map length current)" "len \<le> max sz (ov + m)" "[] \<notin> set current"
      "\<forall>c \<in> set chunks. length c \<le> 2 * max sz (ov + m)" "current = [] \<longrightarrow> ps = []"
    and g: "concat gs @ g = ps" "[] \<notin> set gs" "chunks = with_overlap ov [] gs"
      "current = carry_over ov (last ([] # chunks)) @ g" "g = [] \<longrightarrow> ps = []"
    unfolding chunk_inv_def fields prod.case by (elim conjE exE) (rule that; assumption)
  show ?thesis
  proof (cases "blank p")
    case True
    then show ?thesis using assms(1) by (simp add: chunk_step_def fields)
  next
    case ne: False
    then have sne: "[] \<noteq> strip p" using strip_eq_Nil_iff [of p] by metis
    show ?thesis
    proof (cases "sz < len + length (strip p) \<and> current \<noteq> []")
      case True
      have gne: "g \<noteq> []"
      proof
        assume "g = []"
        then have "ps = []" "gs = []" using g by (auto simp: neq_Nil_conv, cases gs, auto)
        then show False using True g \<open>g = []\<close> by simp
      qed
      let ?j = "join [10] current"
      have ch: "chunks @ [?j] = with_overlap ov [] (gs @ [g])"
        using g by (simp add: with_overlap_snoc)
      have lj: "length ?j \<le> 2 * max sz (ov + m)"
        using join_length [OF l(3), of 10] l(1) mult_le_mono2 [OF l(2), of 2] by simp
      have cl: "sum_list (map length (carry_over ov ?j)) + length (strip p) \<le> max sz (ov + m)"
        using add_mono [OF carry_over_le [of ov ?j] assms(2)] by (simp add: le_max_iff_disj)
      have "\<exists>gs' g'. concat gs' @ g' = ps @ [strip p] \<and> [] \<notin> set gs'
          \<and> chunks @ [?j] = with_overlap ov [] gs'
          \<and> carry_over ov ?j @ [strip p] = carry_over ov (last ([] # (chunks @ [?j]))) @ g'
          \<and> (g' = [] \<longrightarrow> ps @ [strip p] = [])"
        by (intro exI [of _ "gs @ [g]"] exI [of _ "[strip p]"] conjI ch)
          (use g gne in \<open>simp_all del: with_overlap.simps\<close>)
      then show ?thesis
        using ne sne True l lj cl carry_over_nonempty [of ov ?j]
        by (simp add: chunk_step_def fields chunk_inv_def Let_def)
    next
      case False
      have "len + length (strip p) \<le> max sz (ov + m)"
        using False l(1) assms(2) by auto
      moreover have "\<exists>gs' g'. concat gs' @ g' = ps @ [strip p] \<and> [] \<notin> set gs'
          \<and> chunks = with_overlap ov [] gs'
          \<and> current @ [strip p] = carry_over ov (last ([] # chunks)) @ g'
          \<and> (g' = [] \<longrightarrow> ps @ [strip p] = [])"
        using g by (intro exI [of _ gs] exI [of _ "g @ [strip p]"]) auto
      moreover have "chunk_step sz ov p st = (chunks, current @ [strip p], len + length (strip p))"
        using ne False by (auto simp: chunk_step_def fields Let_def)
      ultimately show ?thesis using ne sne l by (simp add: chunk_inv_def)
    qed
  qed
qed

lemma chunk_fold_inv:
  assumes "chunk_inv sz ov m ps st" and "\<forall>p \<in> set qs. length (strip p) \<le> m"
  shows "chunk_inv sz ov m (ps @ filter (\<lambda>p. p \<noteq> []) (map strip qs)) (fold (chunk_step sz ov) qs st)"
  using assms
proof (induction qs arbitrary: ps st)
  case (Cons q qs)
  have "chunk_inv sz ov m ((if blank q then ps else ps @ [strip q]) @ filter (\<lambda>p. p \<noteq> []) (map strip qs))
      (fold (chunk_step sz ov) qs (chunk_step sz ov q st))"
    using Cons.prems by (intro Cons.IH chunk_step_inv) auto
  then show ?case by (simp split: if_splits)
qed simp

text \<open>No character but white space is lost by splitting and stripping.\<close>

definition inked :: "ustr \<Rightarrow> ustr" where
  "inked s = filter (\<lambda>c. \<not> is_space c) s"

lemma inked_append [simp]: "inked (a @ b) = inked a @ inked b"
  by (simp add: inked_def)

lemma inked_Nil [simp]: "inked [] = []"
  by (simp add: inked_def)

lemma inked_dropWhile: "inked (dropWhile is_space s) = inked s"
  by (induction s) (auto simp: inked_def)

lemma inked_rev: "inked (rev s) = rev (inked s)"
  by (simp add: inked_def rev_filter)

lemma inked_strip [simp]: "inked (strip s) = inked s"
  by (simp add: strip_def inked_rev inked_dropWhile)

lemma newline_space: "is_space 10"
  by (simp add: is_space_def)

lemma inked_newline: "inked (10 # s) = inked s"
  by (simp add: inked_def newline_space)

lemma inked_drop_newlines: "inked (dropWhile (\<lambda>x. x = 10) s) = inked s"
  by (induction s) (auto simp: inked_newline)

lemma inked_Cons: "inked (c # s) = inked [c] @ inked s"
  by (simp add: inked_def)

lemma inked_paragraphs_raw: "concat (map inked (split_paragraphs t)) = inked t"
proof (induction t rule: split_paragraphs.induct)
  case (2 c s)
  show ?case
  proof (cases "c = 10 \<and> take 1 s = [10]")
    case True
    then show ?thesis using 2(1) by (simp add: inked_drop_newlines inked_newline)
  next
    case False
    note ih = 2(2) [OF False]
    have e: "split_paragraphs (c # s) =
        (case split_paragraphs s of [] \<Rightarrow> [[c]] | w # ws \<Rightarrow> (c # w) # ws)"
      by (simp only: split_paragraphs.simps False if_False)
    show ?thesis
    proof (cases "split_paragraphs s")
      case Nil
      then show ?thesis using ih inked_Cons [of c s] by (simp add: e del: split_paragraphs.simps)
    next
      case (Cons w ws)
      then show ?thesis using ih inked_Cons [of c s] inked_Cons [of c w]
        by (simp add: e del: split_paragraphs.simps)
    qed
  qed
qed simp

lemma inked_paragraphs: "concat (map inked (paragraphs t)) = inked t"
proof -
  have "concat (map inked (filter (\<lambda>p. p \<noteq> []) ws)) = concat (map inked ws)" for ws
    by (induction ws) auto
  then show ?thesis by (simp add: paragraphs_def inked_paragraphs_raw comp_def)
qed

lemma paragraphs_ok: "p \<in> set (paragraphs t) \<Longrightarrow> p \<noteq> [] \<and> \<not> blank p"
  using not_blank_strip by (auto simp: paragraphs_def)

lemma blank_append [simp]: "blank (a @ b) \<longleftrightarrow> blank a \<and> blank b"
  by (simp add: blank_def)

lemma blank_join: "blank (join sep ws) \<Longrightarrow> w \<in> set ws \<Longrightarrow> blank w"
  by (induction sep ws rule: join.induct) auto

lemma with_overlap_not_blank:
  "\<lbrakk>c \<in> set (with_overlap ov p gs); [] \<notin> set gs; \<forall>g \<in> set gs. \<forall>w \<in> set g. \<not> blank w\<rbrakk> \<Longrightarrow> \<not> blank c"
proof (induction gs arbitrary: p)
  case (Cons g gs)
  then have "\<exists>w. w \<in> set g \<and> \<not> blank w" by (cases g) auto
  then have "\<not> blank (join [10] (carry_over ov p @ g))" by (auto dest: blank_join)
  then show ?case using Cons by (auto simp: Let_def)
qed simp

lemma with_overlap_has:
  "g \<in> set gs \<Longrightarrow> w \<in> set g \<Longrightarrow> \<exists>c \<in> set (with_overlap ov p gs). substr w c"
proof (induction gs arbitrary: p)
  case (Cons h gs)
  show ?case
  proof (cases "g = h")
    case True
    then have "substr w (join [10] (carry_over ov p @ h))" using Cons.prems by (intro substr_join) simp
    then show ?thesis by (simp add: Let_def)
  qed (use Cons in \<open>auto simp: Let_def\<close>)
qed simp

lemma chunk_groups:
  assumes "\<forall>p \<in> set (paragraphs t). length p \<le> m"
  shows "\<exists>gs. concat gs = paragraphs t \<and> [] \<notin> set gs
    \<and> chunk_paragraphs t sz ov = with_overlap ov [] gs
    \<and> (\<forall>c \<in> set (chunk_paragraphs t sz ov). length c \<le> 2 * max sz (ov + m))"
proof -
  obtain chunks current len where
    f: "fold (chunk_step sz ov) (split_paragraphs t) ([], [], 0) = (chunks, current, len)"
    by (cases "fold (chunk_step sz ov) (split_paragraphs t) ([], [], 0)")
  have i: "chunk_inv sz ov m [] ([], [], 0)"
    by (auto simp: chunk_inv_def intro!: exI [of _ "[]"])
  have m: "\<forall>p \<in> set (split_paragraphs t). length (strip p) \<le> m"
    using assms by (fastforce simp: paragraphs_def)
  have "chunk_inv sz ov m (paragraphs t) (chunks, current, len)"
    using chunk_fold_inv [OF i m] f by (simp add: paragraphs_def)
  then obtain gs g where
    l: "len = sum_list (map length current)" "len \<le> max sz (ov + m)" "[] \<notin> set current"
      "\<forall>c \<in> set chunks. length c \<le> 2 * max sz (ov + m)" "current = [] \<longrightarrow> paragraphs t = []"
    and g: "concat gs @ g = paragraphs t" "[] \<notin> set gs" "chunks = with_overlap ov [] gs"
      "current = carry_over ov (last ([] # chunks)) @ g" "g = [] \<longrightarrow> paragraphs t = []"
    unfolding chunk_inv_def prod.case by (elim conjE exE) (rule that; assumption)
  let ?gs = "if current = [] then gs else gs @ [g]"
  let ?cs = "if current = [] then chunks else chunks @ [join [10] current]"
  have gne: "g \<noteq> []" if "current \<noteq> []"
  proof
    assume "g = []"
    then have "concat gs = []" using g(1,5) by simp
    then have "gs = []" using g(2) by (cases gs) auto
    then show False using that g(3,4) \<open>g = []\<close> by simp
  qed
  have cs: "?cs = with_overlap ov [] ?gs" using g(3,4) by (simp add: with_overlap_snoc)
  have gg: "concat ?gs = paragraphs t" "[] \<notin> set ?gs"
    using g(1,2,4) gne by auto
  have nb: "\<forall>c \<in> set ?cs. \<not> blank c"
    unfolding cs using gg with_overlap_not_blank [of _ ov "[]" ?gs] paragraphs_ok [of _ t]
    by (metis UN_I set_concat)
  have res: "chunk_paragraphs t sz ov = ?cs"
    using nb unfolding chunk_paragraphs_def f prod.case by (intro filter_True)
  have "length (join [10] current) \<le> 2 * max sz (ov + m)"
    using join_length [OF l(3), of 10] l(1) mult_le_mono2 [OF l(2), of 2] by simp
  then have "\<forall>c \<in> set ?cs. length c \<le> 2 * max sz (ov + m)" using l(4) by simp
  then show ?thesis using gg cs res by (intro exI [of _ ?gs]) simp
qed

definition longest :: "ustr list \<Rightarrow> nat" where
  "longest ps = foldr (\<lambda>p n. max (length p) n) ps 0"

lemma longest_ge: "p \<in> set ps \<Longrightarrow> length p \<le> longest ps"
  by (induction ps) (auto simp: longest_def le_max_iff_disj)

text \<open>
  C31: chunking loses nothing. The paragraphs of a text hold every character of it but white
  space, in order; the chunks are those paragraphs in consecutive groups, each chunk opened by at
  most the last \<open>overlap\<close> characters of the chunk before; so every paragraph stands whole in some
  chunk and no chunk is blank. A chunk can exceed the chunk size, because the line breaks between
  paragraphs are not counted and a paragraph is never cut, but only up to twice the larger of the
  size and the overlap with the longest paragraph.
\<close>

theorem chunks_cover:
  "inked (concat (paragraphs t)) = inked t
   \<and> (\<exists>gs. concat gs = paragraphs t \<and> [] \<notin> set gs \<and> chunk_paragraphs t sz ov = with_overlap ov [] gs)
   \<and> (\<forall>p \<in> set (paragraphs t). \<exists>c \<in> set (chunk_paragraphs t sz ov). substr p c)
   \<and> (\<forall>c \<in> set (chunk_paragraphs t sz ov). \<not> blank c
        \<and> length c \<le> 2 * max sz (ov + longest (paragraphs t)))"
proof -
  have c: "inked (concat ws) = concat (map inked ws)" for ws by (induction ws) auto
  obtain gs where gs: "concat gs = paragraphs t" "[] \<notin> set gs"
      "chunk_paragraphs t sz ov = with_overlap ov [] gs"
      "\<forall>c \<in> set (chunk_paragraphs t sz ov). length c \<le> 2 * max sz (ov + longest (paragraphs t))"
    using chunk_groups [of t "longest (paragraphs t)" sz ov] longest_ge by blast
  have "\<forall>p \<in> set (paragraphs t). \<exists>c \<in> set (chunk_paragraphs t sz ov). substr p c"
    unfolding gs(3) unfolding gs(1) [symmetric] by (auto intro: with_overlap_has)
  moreover have "\<forall>c \<in> set (chunk_paragraphs t sz ov). \<not> blank c"
    by (auto simp: chunk_paragraphs_def split: prod.splits)
  moreover have "inked (concat (paragraphs t)) = inked t" by (simp only: c inked_paragraphs)
  ultimately show ?thesis using gs by blast
qed

theorem chunks_cover_witness:
  "chunk_paragraphs (asc ''ab'' @ [10, 10] @ asc ''cd'') 3 1 = [asc ''ab'', asc ''b'' @ [10] @ asc ''cd'']
   \<and> (\<exists>c. c \<in> set (chunk_paragraphs (asc ''ab'' @ [10, 10] @ asc ''cd'') 3 1) \<and> substr (asc ''cd'') c)"
proof -
  have e: "chunk_paragraphs (asc ''ab'' @ [10, 10] @ asc ''cd'') 3 1 = [asc ''ab'', asc ''b'' @ [10] @ asc ''cd'']"
    "asc ''cd'' \<in> set (paragraphs (asc ''ab'' @ [10, 10] @ asc ''cd''))"
    by code_simp+
  show ?thesis
    using chunks_cover [of "asc ''ab'' @ [10, 10] @ asc ''cd''" 3 1] e by blast
qed

subsection \<open>Embedding answers\<close>

definition PROVIDER_ERROR :: string where "PROVIDER_ERROR = ''EmbeddingProviderError''"
definition EMBED_ERROR_BODY_CHARS :: nat where "EMBED_ERROR_BODY_CHARS = 300"

text \<open>An HTTP answer: an error status with its body, a failed request, or a body with its JSON.\<close>

datatype http_reply = HttpStatus nat ustr | HttpFail ustr | HttpBody "json option" ustr

definition error_body :: "ustr \<Rightarrow> ustr" where
  "error_body body = (let b = strip (take EMBED_ERROR_BODY_CHARS body) in
     if b = [] then asc ''<empty body>'' else b)"

text \<open>\<open>None\<close> stands for one of the caught \<open>KeyError\<close>, \<open>TypeError\<close> and \<open>ValueError\<close>.\<close>

definition index_of_item :: "(string \<times> json) list \<Rightarrow> nat \<Rightarrow> int option" where
  "index_of_item item fallback = (case map_of item ''index'' of
     None \<Rightarrow> Some (int fallback)
   | Some (JInt i) \<Rightarrow> Some i
   | Some (JBool b) \<Rightarrow> Some (if b then 1 else 0)
   | Some _ \<Rightarrow> None)"

definition normalize_item :: "(ustr \<Rightarrow> real option) \<Rightarrow> json \<Rightarrow> nat \<Rightarrow> (int \<times> real list) option" where
  "normalize_item fl item fallback =
     (case item of
        JDict d \<Rightarrow>
          (case (case map_of d ''embedding'' of None \<Rightarrow> map_of d ''values''
                 | Some JNull \<Rightarrow> map_of d ''values'' | e \<Rightarrow> e) of
             Some (JList vs) \<Rightarrow>
               (case (index_of_item d fallback, those (map (py_float fl) vs)) of
                  (Some i, Some xs) \<Rightarrow> Some (i, xs) | _ \<Rightarrow> None)
           | _ \<Rightarrow> None)
      | _ \<Rightarrow> None)"

definition embedding_items :: "json \<Rightarrow> json list option" where
  "embedding_items data =
     (case data of
        JDict d \<Rightarrow> (case map_of d ''data'' of Some (JList xs) \<Rightarrow> Some xs
          | _ \<Rightarrow> (case map_of d ''embeddings'' of Some (JList xs) \<Rightarrow> Some xs | _ \<Rightarrow> None))
      | _ \<Rightarrow> None)"

definition parse_embeddings :: "(ustr \<Rightarrow> real option) \<Rightarrow> json \<Rightarrow> exn + real list list" where
  "parse_embeddings fl data =
     (case embedding_items data of
        None \<Rightarrow> Inl (Exn PROVIDER_ERROR (asc ''Embedding API response missing data field''))
      | Some items \<Rightarrow>
          (case those (map (\<lambda>p. normalize_item fl (snd p) (fst p)) (zip [0 ..< length items] items)) of
             None \<Rightarrow> Inl (Exn PROVIDER_ERROR (asc ''Embedding API response has invalid embedding payload''))
           | Some ps \<Rightarrow> Inr (map snd (sort_key fst ps))))"

definition api_embed ::
  "(ustr list \<Rightarrow> http_reply) \<Rightarrow> (ustr \<Rightarrow> real option) \<Rightarrow> ustr list \<Rightarrow> exn + real list list" where
  "api_embed post fl texts =
     (case post texts of
        HttpStatus code body \<Rightarrow> Inl (Exn PROVIDER_ERROR
          (asc ''Embedding API request failed with status '' @ dec code @ asc '': '' @ error_body body))
      | HttpFail msg \<Rightarrow> Inl (Exn PROVIDER_ERROR (asc ''Embedding API request failed: '' @ msg))
      | HttpBody None body \<Rightarrow> Inl (Exn PROVIDER_ERROR
          (asc ''Embedding API returned invalid JSON response: '' @ error_body body))
      | HttpBody (Some data) body \<Rightarrow> parse_embeddings fl data)"

text \<open>
  An answer whose items carry the indices \<open>0 .. n - 1\<close> in any order, as the API may return
  them, is put back in the order of the texts.
\<close>

lemma those_Some: "those (map f xs) = Some ys \<longleftrightarrow> map f xs = map Some ys"
  by (induction xs arbitrary: ys) (auto split: option.splits simp: map_eq_Cons_conv)

lemma sorted_perm_upto:
  fixes ks :: "int list"
  assumes "sorted ks" "distinct ks" "set ks = {0 ..< int n}"
  shows "ks = map int [0 ..< n]"
proof (rule sorted_distinct_set_unique [OF assms(1,2)])
  show "set ks = set (map int [0 ..< n])"
    by (simp add: assms(3) image_int_atLeastLessThan)
qed (auto simp: sorted_map distinct_map inj_on_def sorted_wrt_iff_nth_less)

lemma embeddings_in_order:
  assumes "embedding_items data = Some items"
    and "map (\<lambda>p. normalize_item fl (snd p) (fst p)) (zip [0 ..< length items] items) = map Some ps"
    and "distinct (map fst ps)" "fst ` set ps = {0 ..< int (length ps)}"
  shows "\<exists>vs. parse_embeddings fl data = Inr vs \<and> length vs = length ps
    \<and> (\<forall>p \<in> set ps. vs ! nat (fst p) = snd p)"
proof -
  let ?s = "sort_key fst ps"
  have "map fst ?s = map int [0 ..< length ps]"
    using assms(3,4) by (intro sorted_perm_upto) (auto simp: distinct_map)
  then have k: "fst (?s ! i) = int i" if "i < length ps" for i
    using that by (metis add_0 length_map length_sort nth_map nth_upt)
  have "map snd ?s ! nat (fst p) = snd p" if "p \<in> set ps" for p
  proof -
    obtain i where i: "i < length ps" "?s ! i = p"
      using \<open>p \<in> set ps\<close> by (metis in_set_conv_nth length_sort set_sort)
    then show ?thesis using k [of i] by simp
  qed
  then show ?thesis using assms(1,2) by (simp add: parse_embeddings_def those_Some [THEN iffD2])
qed

end
