(* ===== verification/Indexing.thy ===== *)
theory Indexing
  imports Parsing RagService
begin

text \<open>
  The searchable representation of a document: \<open>rag/vector_store.py\<close> and
  \<open>embedding/service.py\<close>. The Chroma collection is not part of the program: its state is a type
  variable, its requests are the fields of a \<open>chroma\<close> record, and \<open>chroma_ok\<close> states what its
  documentation promises about the stored rows, with a failing request allowed to have done part
  of its work.

  Abstractly the collection is a function from documents to their lists of chunk texts; a
  successful \<open>index_document\<close> updates it at one point, and a failing one loses nothing.
\<close>

subsection \<open>The collection\<close>

record stored_meta = chunk_meta +
  sm_generation :: "int option"

type_synonym row = "ustr \<times> ustr \<times> stored_meta"

definition row_id :: "row \<Rightarrow> ustr" where "row_id r = fst r"
definition row_text :: "row \<Rightarrow> ustr" where "row_text r = fst (snd r)"
definition row_meta :: "row \<Rightarrow> stored_meta" where "row_meta r = snd (snd r)"

definition of_doc :: "ustr \<Rightarrow> row \<Rightarrow> bool" where
  "of_doc d r \<longleftrightarrow> cm_doc_id (row_meta r) = Some d"

record 'c chroma =
  ch_add :: "ustr list \<Rightarrow> real list list \<Rightarrow> ustr list \<Rightarrow> stored_meta list \<Rightarrow> 'c \<Rightarrow> exn option \<times> 'c"
  ch_ids_of :: "ustr \<Rightarrow> 'c \<Rightarrow> exn + ustr list"
  ch_delete_ids :: "ustr list \<Rightarrow> 'c \<Rightarrow> exn option \<times> 'c"
  ch_delete_doc :: "ustr \<Rightarrow> 'c \<Rightarrow> exn option \<times> 'c"
  ch_get_all :: "'c \<Rightarrow> exn + row list"

text \<open>A request that removes the rows \<open>P\<close>, or raises after removing some of them.\<close>

definition removes :: "(row \<Rightarrow> bool) \<Rightarrow> row list \<Rightarrow> exn option \<times> row list \<Rightarrow> bool" where
  "removes P rs res \<longleftrightarrow> (case res of
     (None, rs') \<Rightarrow> rs' = filter (\<lambda>r. \<not> P r) rs
   | (Some e, rs') \<Rightarrow> set rs' \<subseteq> set rs \<and> (\<forall>r \<in> set rs. P r \<or> r \<in> set rs'))"

definition adds :: "row list \<Rightarrow> row list \<Rightarrow> exn option \<times> row list \<Rightarrow> bool" where
  "adds new rs res \<longleftrightarrow> (case res of
     (None, rs') \<Rightarrow> rs' = rs @ new
   | (Some e, rs') \<Rightarrow> set rs \<subseteq> set rs' \<and> set rs' \<subseteq> set rs \<union> set new)"

definition chroma_ok :: "'c chroma \<Rightarrow> ('c \<Rightarrow> row list) \<Rightarrow> bool" where
  "chroma_ok C rows \<longleftrightarrow>
     (\<forall>ids es docs metas c.
        length docs = length ids \<longrightarrow> length metas = length ids \<longrightarrow> distinct ids
        \<longrightarrow> set ids \<inter> row_id ` set (rows c) = {}
        \<longrightarrow> adds (zip ids (zip docs metas)) (rows c) (map_prod id rows (ch_add C ids es docs metas c)))
     \<and> (\<forall>d c ids. ch_ids_of C d c = Inr ids \<longrightarrow> ids = map row_id (filter (of_doc d) (rows c)))
     \<and> (\<forall>ids c. removes (\<lambda>r. row_id r \<in> set ids) (rows c) (map_prod id rows (ch_delete_ids C ids c)))
     \<and> (\<forall>d c. removes (of_doc d) (rows c) (map_prod id rows (ch_delete_doc C d c)))
     \<and> (\<forall>c rs. ch_get_all C c = Inr rs \<longrightarrow> rs = rows c)
     \<and> (\<forall>c. distinct (map row_id (rows c)))"

subsection \<open>The vector store\<close>

definition delete_by_doc_id :: "'c chroma \<Rightarrow> ustr \<Rightarrow> 'c \<Rightarrow> exn option \<times> 'c" where
  "delete_by_doc_id C d c = ch_delete_doc C d c"

definition delete_doc_chunks_except :: "'c chroma \<Rightarrow> ustr \<Rightarrow> ustr list \<Rightarrow> 'c \<Rightarrow> (exn + nat) \<times> 'c" where
  "delete_doc_chunks_except C d keep c =
     (case ch_ids_of C d c of
        Inl e \<Rightarrow> (Inl e, c)
      | Inr all_ids \<Rightarrow>
          let to_delete = filter (\<lambda>i. i \<notin> set keep) all_ids in
          if to_delete = [] then (Inr 0, c)
          else (case ch_delete_ids C to_delete c of
              (Some e, c') \<Rightarrow> (Inl e, c')
            | (None, c') \<Rightarrow> (Inr (length to_delete), c')))"

definition get_all_chunks :: "'c chroma \<Rightarrow> 'c \<Rightarrow> exn + ustr list \<times> ustr list \<times> stored_meta list" where
  "get_all_chunks C c =
     map_sum id (\<lambda>rs. (map row_id rs, map row_text rs, map row_meta rs)) (ch_get_all C c)"

subsection \<open>The embedding service\<close>

text \<open>The collection, the BM25 snapshot of the process and its file.\<close>

record 'c stores =
  st_coll :: 'c
  st_bm25 :: index
  st_file :: pickle

record 'c index_env =
  xe_parse :: parse_env
  xe_embed :: "ustr list \<Rightarrow> exn + real list list"
  xe_chroma :: "'c chroma"
  xe_locked :: bool

definition refresh_bm25_index :: "'c index_env \<Rightarrow> 'c stores \<Rightarrow> 'c stores" where
  "refresh_bm25_index E st =
     (case get_all_chunks (xe_chroma E) (st_coll st) of
        Inl e \<Rightarrow> st
      | Inr (ids, docs, metas) \<Rightarrow>
          let ix = bm25_build ids docs (map chunk_meta.truncate metas)
          in st\<lparr>st_bm25 := ix, st_file := save_to_file (xe_locked E) ix (st_file st)\<rparr>)"

definition chunk_ref :: "ustr \<Rightarrow> nat \<Rightarrow> nat \<Rightarrow> ustr" where
  "chunk_ref doc generation i = doc @ asc ''_g'' @ dec generation @ asc ''_c'' @ dec i"

definition chunk_metadata :: "ustr \<Rightarrow> ustr \<Rightarrow> ustr option \<Rightarrow> nat \<Rightarrow> nat \<Rightarrow> stored_meta" where
  "chunk_metadata doc title source generation i = \<lparr>cm_doc_id = Some doc, cm_title = Some title,
     cm_source = (if or_else source [] = [] then None else source), cm_index = Some (int i),
     cm_epoch = Some (int (generation div 1000)), sm_generation = Some (int generation)\<rparr>"

text \<open>\<open>now\<close> is the time in milliseconds; \<open>content\<close> the bytes, absent or empty to read the path.\<close>

definition index_document ::
  "'c index_env \<Rightarrow> nat \<Rightarrow> ustr \<Rightarrow> ustr \<Rightarrow> bytes option \<Rightarrow> ustr \<Rightarrow> ustr option \<Rightarrow> nat \<Rightarrow> nat
   \<Rightarrow> 'c stores \<Rightarrow> (exn + nat) \<times> 'c stores" where
  "index_document E now doc path content title source sz overlap st =
     (case parse_file (xe_parse E) path content of
        Inl e \<Rightarrow> (Inl e, st)
      | Inr text \<Rightarrow>
         let chunks = chunk_paragraphs text sz overlap in
         if chunks = [] then (Inr 0, st)
         else (case xe_embed E chunks of
            Inl e \<Rightarrow> (Inl e, st)
          | Inr es \<Rightarrow>
             let ids = map (chunk_ref doc now) [0 ..< length chunks];
                 metas = map (chunk_metadata doc title source now) [0 ..< length chunks]
             in case ch_add (xe_chroma E) ids es chunks metas (st_coll st) of
                (Some e, c) \<Rightarrow> (Inl e, st\<lparr>st_coll := c\<rparr>)
              | (None, c) \<Rightarrow>
                 (case delete_doc_chunks_except (xe_chroma E) doc ids c of
                    (Inl e, c') \<Rightarrow> (Inl e, st\<lparr>st_coll := c'\<rparr>)
                  | (Inr n, c') \<Rightarrow>
                      (Inr (length chunks), refresh_bm25_index E (st\<lparr>st_coll := c'\<rparr>)))))"

definition delete_document :: "'c index_env \<Rightarrow> ustr \<Rightarrow> 'c stores \<Rightarrow> exn option \<times> 'c stores" where
  "delete_document E doc st =
     (case delete_by_doc_id (xe_chroma E) doc (st_coll st) of
        (Some e, c) \<Rightarrow> (Some e, st\<lparr>st_coll := c\<rparr>)
      | (None, c) \<Rightarrow> (None, refresh_bm25_index E (st\<lparr>st_coll := c\<rparr>)))"

definition CHUNK_SIZE :: nat where "CHUNK_SIZE = 500"
definition CHUNK_OVERLAP :: nat where "CHUNK_OVERLAP = 50"

subsection \<open>Chunk identifiers\<close>

lemma find_rev_upt:
  "\<lbrakk>P k; k < n; \<And>i. k < i \<Longrightarrow> i < n \<Longrightarrow> \<not> P i\<rbrakk> \<Longrightarrow> find P (rev [0 ..< n]) = Some k"
proof (induction n)
  case (Suc n)
  then show ?case by (cases "k = n") auto
qed simp

lemma rsplit_before_last:
  assumes "b \<notin> set w"
  shows "rsplit_before [a, b] (d @ [a, b] @ w) = Some d"
proof -
  let ?s = "d @ [a, b] @ w"
  have no: "take 2 (drop i ?s) \<noteq> [a, b]" if "length d < i" for i
  proof
    assume t: "take 2 (drop i ?s) = [a, b]"
    define j where "j = i - Suc (length d)"
    have j: "i = Suc (length d) + j" using that by (simp add: j_def)
    have "drop i ?s = drop j (b # w)" by (simp add: j)
    then have e: "take 2 (drop j (b # w)) = [a, b]" using t by simp
    have "tl (take 2 (drop j (b # w))) = take 1 (drop j w)"
      by (simp add: tl_take tl_drop)
    then have "take 1 (drop j w) = [b]" by (simp add: e)
    then have "b \<in> set (drop j w)" by (metis in_set_takeD list.set_intros(1))
    then show False using assms by (meson in_set_dropD)
  qed
  have "find (\<lambda>i. take (length [a, b]) (drop i ?s) = [a, b]) (rev [0 ..< Suc (length ?s)])
      = Some (length d)"
    by (rule find_rev_upt) (use no in \<open>simp_all add: numeral_2_eq_2\<close>)
  then show ?thesis by (simp add: rsplit_before_def)
qed

lemma dec_set: "c \<in> set (dec n) \<Longrightarrow> 48 \<le> c \<and> c \<le> 57"
  using dec_digits [of n] by (simp add: list_all_iff)

text \<open>The document of a chunk is read back from its identifier.\<close>

lemma chunk_ref_doc:
  assumes "hit_id h = chunk_ref d g i" "cm_doc_id (hit_meta h) \<in> {None, Some d}" "d \<noteq> []"
  shows "chunk_doc_id h = Some d"
proof -
  have "rsplit_before [95, 103] (d @ [95, 103] @ (dec g @ [95, 99] @ dec i)) = Some d"
    by (rule rsplit_before_last) (auto dest: dec_set)
  then show ?thesis
    using assms by (auto simp: chunk_doc_id_def chunk_ref_def asc_def)
qed

text \<open>\<open>str(n)\<close> is injective.\<close>

lemma dec_value: "fold (\<lambda>c n. 10 * n + (c - 48)) (dec n) 0 = n"
proof (induction n rule: dec.induct)
  case (1 n)
  then show ?case by (subst dec.simps) simp
qed

lemma dec_inj: "dec m = dec n \<Longrightarrow> m = n"
  by (metis dec_value)

lemma chunk_ref_inj: "chunk_ref d g i = chunk_ref d g j \<Longrightarrow> i = j"
  by (auto simp: chunk_ref_def dest: dec_inj)

lemma distinct_chunk_refs: "distinct (map (chunk_ref d g) [0 ..< n])"
  by (auto simp: distinct_map inj_on_def dest: chunk_ref_inj)

subsection \<open>Refinement of a map from documents to chunks\<close>

definition corpus :: "row list \<Rightarrow> ustr \<Rightarrow> ustr list" where
  "corpus rs d = map row_text (filter (of_doc d) rs)"

definition new_rows :: "ustr \<Rightarrow> ustr \<Rightarrow> ustr option \<Rightarrow> nat \<Rightarrow> ustr list \<Rightarrow> row list" where
  "new_rows doc title source now chunks =
     zip (map (chunk_ref doc now) [0 ..< length chunks])
       (zip chunks (map (chunk_metadata doc title source now) [0 ..< length chunks]))"

lemmas row_defs = row_id_def row_text_def row_meta_def of_doc_def

lemma new_rows_of: "r \<in> set (new_rows doc ti so now cs) \<Longrightarrow> of_doc d r \<longleftrightarrow> d = doc"
  by (cases r) (auto simp: new_rows_def in_set_zip row_defs chunk_metadata_def)

lemma new_rows_ids: "map row_id (new_rows doc ti so now cs) = map (chunk_ref doc now) [0 ..< length cs]"
  by (simp add: new_rows_def row_id_def [abs_def])

lemma map_mid_zip:
  "length xs = length ys \<Longrightarrow> length zs = length ys \<Longrightarrow> map (\<lambda>r. fst (snd r)) (zip xs (zip ys zs)) = ys"
  by (induction ys arbitrary: xs zs) (auto simp: length_Suc_conv)

lemma new_rows_texts: "map row_text (new_rows doc ti so now cs) = cs"
  by (simp add: new_rows_def row_text_def [abs_def] map_mid_zip)

lemma corpus_new: "corpus (new_rows doc ti so now cs) d = (if d = doc then cs else [])"
proof -
  have "filter (of_doc d) (new_rows doc ti so now cs) = (if d = doc then new_rows doc ti so now cs else [])"
    using new_rows_of [of _ doc ti so now cs d] by (auto simp: filter_empty_conv intro!: filter_True)
  then show ?thesis by (simp add: corpus_def new_rows_texts)
qed

lemma chroma_addD:
  assumes "chroma_ok C rows" "fresh = map (chunk_ref doc now) [0 ..< length cs]"
    "metas = map (chunk_metadata doc ti so now) [0 ..< length cs]"
    "ch_add C fresh es cs metas c = (e, c')"
    "row_id ` set (rows c) \<inter> range (chunk_ref doc now) = {}"
  shows "adds (new_rows doc ti so now cs) (rows c) (e, rows c')"
proof -
  have "set fresh \<inter> row_id ` set (rows c) = {}" using assms(2,5) by auto
  moreover have "length cs = length fresh" "length metas = length fresh" "distinct fresh"
    by (simp_all add: assms(2,3) distinct_chunk_refs)
  moreover have "\<forall>ids es docs metas c.
        length docs = length ids \<longrightarrow> length metas = length ids \<longrightarrow> distinct ids
        \<longrightarrow> set ids \<inter> row_id ` set (rows c) = {}
        \<longrightarrow> adds (zip ids (zip docs metas)) (rows c) (map_prod id rows (ch_add C ids es docs metas c))"
    using assms(1) unfolding chroma_ok_def by (elim conjE)
  ultimately have "adds (zip fresh (zip cs metas)) (rows c) (map_prod id rows (ch_add C fresh es cs metas c))"
    by blast
  then show ?thesis using assms(4) by (simp add: assms(2,3) new_rows_def)
qed

lemma chroma_idsD: "chroma_ok C rows \<Longrightarrow> ch_ids_of C d c = Inr ids \<Longrightarrow> ids = map row_id (filter (of_doc d) (rows c))"
  unfolding chroma_ok_def by blast

lemma chroma_deleteD:
  assumes "chroma_ok C rows" "ch_delete_ids C ids c = (e, c')"
  shows "removes (\<lambda>r. row_id r \<in> set ids) (rows c) (e, rows c')"
proof -
  have "\<forall>ids c. removes (\<lambda>r. row_id r \<in> set ids) (rows c) (map_prod id rows (ch_delete_ids C ids c))"
    using assms(1) unfolding chroma_ok_def by (elim conjE)
  then show ?thesis using assms(2) by (metis map_prod_simp id_apply)
qed

lemma chroma_getD: "chroma_ok C rows \<Longrightarrow> ch_get_all C c = Inr rs \<Longrightarrow> rs = rows c"
  unfolding chroma_ok_def by blast

lemma chroma_distinctD: "chroma_ok C rows \<Longrightarrow> distinct (map row_id (rows c))"
  unfolding chroma_ok_def by blast

text \<open>The sweep after an add: the rows of the document that are not new, and no others.\<close>

definition stale :: "ustr \<Rightarrow> ustr list \<Rightarrow> row \<Rightarrow> bool" where
  "stale d keep r \<longleftrightarrow> of_doc d r \<and> row_id r \<notin> set keep"

lemma removes_cong:
  "(\<And>r. r \<in> set rs \<Longrightarrow> P r = Q r) \<Longrightarrow> removes P rs res = removes Q rs res"
  by (auto simp: removes_def split: option.splits prod.splits cong: filter_cong)

lemma sweep_removes:
  assumes "chroma_ok C rows" "delete_doc_chunks_except C d keep c = (res, c')"
  shows "removes (stale d keep) (rows c)
      (case res of Inl e \<Rightarrow> Some e | Inr n \<Rightarrow> None, rows c')"
proof (cases "ch_ids_of C d c")
  case (Inl e)
  then show ?thesis using assms(2) by (auto simp: delete_doc_chunks_except_def removes_def)
next
  case (Inr all_ids)
  let ?del = "filter (\<lambda>i. i \<notin> set keep) all_ids"
  have a: "all_ids = map row_id (filter (of_doc d) (rows c))" by (rule chroma_idsD [OF assms(1) Inr])
  have st: "row_id r \<in> set ?del \<longleftrightarrow> stale d keep r" if "r \<in> set (rows c)" for r
  proof -
    have "inj_on row_id (set (rows c))" using chroma_distinctD [OF assms(1)] by (simp add: distinct_map)
    then show ?thesis using that by (auto simp: a stale_def dest: inj_onD)
  qed
  show ?thesis
  proof (cases "?del = []")
    case True
    then have "filter (\<lambda>r. \<not> stale d keep r) (rows c) = rows c"
      using st by (intro filter_True) auto
    then show ?thesis using assms(2) Inr True
      by (auto simp: delete_doc_chunks_except_def removes_def Let_def)
  next
    case False
    obtain e c2 where d: "ch_delete_ids C ?del c = (e, c2)" by fastforce
    have "removes (stale d keep) (rows c) (e, rows c2)"
      using chroma_deleteD [OF assms(1) d] removes_cong [of "rows c" "\<lambda>r. row_id r \<in> set ?del"] st by blast
    then show ?thesis using assms(2) Inr False d
      by (auto simp: delete_doc_chunks_except_def Let_def split: option.splits)
  qed
qed

definition holds_rows :: "row list \<Rightarrow> row list \<Rightarrow> bool" where
  "holds_rows rs rs' \<longleftrightarrow> set rs \<subseteq> set rs'"

definition same_elsewhere :: "ustr \<Rightarrow> row list \<Rightarrow> row list \<Rightarrow> bool" where
  "same_elsewhere d rs rs' \<longleftrightarrow> {r \<in> set rs. \<not> of_doc d r} = {r \<in> set rs'. \<not> of_doc d r}"

lemma refresh_coll [simp]: "st_coll (refresh_bm25_index E st) = st_coll st"
  by (simp add: refresh_bm25_index_def Let_def split: sum.splits prod.splits)

lemma refresh_rows:
  assumes "chroma_ok (xe_chroma E) rows"
  shows "st_bm25 (refresh_bm25_index E st) = st_bm25 st \<or>
    (\<exists>sn. st_bm25 (refresh_bm25_index E st) = Some sn \<and> snapshot_ok sn
      \<and> sn_ids sn = map row_id (rows (st_coll st)) \<and> sn_corpus sn = map row_text (rows (st_coll st)))"
proof (cases "ch_get_all (xe_chroma E) (st_coll st)")
  case (Inr rs)
  have e: "rows (st_coll st) = rs" using assms chroma_getD Inr by metis
  have b: "st_bm25 (refresh_bm25_index E st) = bm25_build (map row_id rs) (map row_text rs)
      (map chunk_meta.truncate (map row_meta rs))"
    by (simp add: refresh_bm25_index_def get_all_chunks_def Inr Let_def)
  show ?thesis unfolding e b by (simp add: bm25_build_def snapshot_ok_def)
qed (simp add: refresh_bm25_index_def get_all_chunks_def)

lemma sweep_corpus:
  assumes rs: "rs1 = rs @ new_rows doc ti so now cs"
    and keep: "keep = map (chunk_ref doc now) [0 ..< length cs]"
    and fresh: "row_id ` set rs \<inter> range (chunk_ref doc now) = {}"
    and rm: "removes (stale doc keep) rs1 (None, rs2)"
  shows "corpus rs2 = (corpus rs)(doc := cs)"
proof -
  have s: "stale doc keep r \<longleftrightarrow> of_doc doc r" if "r \<in> set rs" for r
    using that fresh by (auto simp: stale_def keep)
  have n: "\<not> stale doc keep r" if "r \<in> set (new_rows doc ti so now cs)" for r
  proof -
    have "row_id r \<in> set (map row_id (new_rows doc ti so now cs))" using that by simp
    then show ?thesis by (simp add: stale_def keep new_rows_ids)
  qed
  have "rs2 = filter (\<lambda>r. \<not> of_doc doc r) rs @ new_rows doc ti so now cs"
    using rm n by (simp add: removes_def rs s cong: filter_cong)
  moreover have "corpus (filter (\<lambda>r. \<not> of_doc doc r) rs) d = (if d = doc then [] else corpus rs d)" for d
    by (auto simp: corpus_def of_doc_def filter_empty_conv intro!: arg_cong [where f = "map row_text"] filter_cong)
  ultimately show ?thesis
    using corpus_new [of doc ti so now cs] by (auto simp: fun_eq_iff corpus_def)
qed

lemma index_contract:
  assumes ok: "chroma_ok (xe_chroma E) rows"
    and fresh: "row_id ` set (rows (st_coll st)) \<inter> range (chunk_ref doc now) = {}"
    and run: "index_document E now doc path content ti so sz ov st = (res, st')"
  shows "(case res of
      Inr n \<Rightarrow> (\<exists>body. parse_file (xe_parse E) path content = Inr body
        \<and> n = length (chunk_paragraphs body sz ov)
        \<and> corpus (rows (st_coll st')) = (if n = 0 then corpus (rows (st_coll st))
             else (corpus (rows (st_coll st)))(doc := chunk_paragraphs body sz ov)))
        \<and> (st_bm25 st' = st_bm25 st \<or> (\<exists>sn. st_bm25 st' = Some sn \<and> snapshot_ok sn
             \<and> sn_ids sn = map row_id (rows (st_coll st')) \<and> sn_corpus sn = map row_text (rows (st_coll st'))))
    | Inl e \<Rightarrow> st_bm25 st' = st_bm25 st
        \<and> same_elsewhere doc (rows (st_coll st)) (rows (st_coll st'))
        \<and> (holds_rows (rows (st_coll st)) (rows (st_coll st'))
           \<or> (\<exists>body. parse_file (xe_parse E) path content = Inr body
               \<and> holds_rows (new_rows doc ti so now (chunk_paragraphs body sz ov)) (rows (st_coll st')))))"
proof (cases "parse_file (xe_parse E) path content")
  case (Inl e)
  then show ?thesis using run by (auto simp: index_document_def same_elsewhere_def holds_rows_def)
next
  case p: (Inr body)
  let ?cs = "chunk_paragraphs body sz ov"
  let ?ids = "map (chunk_ref doc now) [0 ..< length ?cs]"
  let ?metas = "map (chunk_metadata doc ti so now) [0 ..< length ?cs]"
  let ?new = "new_rows doc ti so now ?cs"
  show ?thesis
  proof (cases "?cs = []")
    case True
    then show ?thesis using run p by (auto simp: index_document_def)
  next
    case ne: False
    show ?thesis
    proof (cases "xe_embed E ?cs")
      case (Inl e)
      then show ?thesis using run p ne
        by (auto simp: index_document_def same_elsewhere_def holds_rows_def)
    next
      case (Inr es)
      obtain a c where a: "ch_add (xe_chroma E) ?ids es ?cs ?metas (st_coll st) = (a, c)" by fastforce
      have ad: "adds ?new (rows (st_coll st)) (a, rows c)"
        by (rule chroma_addD [OF ok refl refl a fresh])
      show ?thesis
      proof (cases a)
        case (Some e)
        then have "same_elsewhere doc (rows (st_coll st)) (rows c)" "holds_rows (rows (st_coll st)) (rows c)"
          using ad new_rows_of [of _ doc ti so now ?cs doc]
          by (auto simp: adds_def same_elsewhere_def holds_rows_def)
        then show ?thesis using run p ne Inr a Some by (auto simp: index_document_def)
      next
        case None
        then have r1: "rows c = rows (st_coll st) @ ?new" using ad by (simp add: adds_def)
        obtain b c' where b: "delete_doc_chunks_except (xe_chroma E) doc ?ids c = (b, c')" by fastforce
        note rm = sweep_removes [OF ok b]
        show ?thesis
        proof (cases b)
          case (Inl e)
          then have rm': "set (rows c') \<subseteq> set (rows c)" "\<forall>r \<in> set (rows c). stale doc ?ids r \<or> r \<in> set (rows c')"
            using rm by (simp_all add: removes_def)
          have "\<not> stale doc ?ids r" if "r \<in> set ?new" for r
          proof -
            have "row_id r \<in> set (map row_id ?new)" using that by simp
            then show ?thesis by (simp add: stale_def new_rows_ids)
          qed
          then have h: "holds_rows ?new (rows c')" using rm'(2) r1 by (auto simp: holds_rows_def)
          have "same_elsewhere doc (rows (st_coll st)) (rows c')"
            using rm' r1 new_rows_of [of _ doc ti so now ?cs doc]
            by (auto simp: same_elsewhere_def stale_def)
          then show ?thesis using run p ne \<open>xe_embed E ?cs = Inr es\<close> a None b Inl h
            by (auto simp: index_document_def)
        next
          case (Inr n)
          have "corpus (rows c') = (corpus (rows (st_coll st)))(doc := ?cs)"
            by (rule sweep_corpus [OF r1 refl fresh]) (use rm Inr in simp)
          moreover have "res = Inr (length ?cs)" "st' = refresh_bm25_index E (st\<lparr>st_coll := c'\<rparr>)"
            using run p ne \<open>xe_embed E ?cs = Inr es\<close> a None b Inr by (auto simp: index_document_def)
          ultimately show ?thesis
            using p ne refresh_rows [OF ok, of "st\<lparr>st_coll := c'\<rparr>"] by simp
        qed
      qed
    qed
  qed
qed

text \<open>
  C4: indexing refines an update of the map from documents to chunk texts. When it returns a
  count, the document's chunks are exactly the chunks of the parsed text (with count zero, for a
  text without chunks, the collection is as it was) and every other document has what it had;
  when the collection can be read back, keyword search sees the same rows. When it raises, the
  other documents are untouched and either every old chunk of the document is still there or
  every new one already is.
\<close>

theorem index_refines:
  assumes ok: "chroma_ok (xe_chroma E) rows"
    and fresh: "row_id ` set (rows (st_coll st)) \<inter> range (chunk_ref doc now) = {}"
    and run: "index_document E now doc path content ti so sz ov st = (res, st')"
  shows "(case res of
      Inr n \<Rightarrow> (\<exists>body. parse_file (xe_parse E) path content = Inr body
        \<and> n = length (chunk_paragraphs body sz ov)
        \<and> corpus (rows (st_coll st')) = (if n = 0 then corpus (rows (st_coll st))
             else (corpus (rows (st_coll st)))(doc := chunk_paragraphs body sz ov)))
        \<and> (st_bm25 st' = st_bm25 st \<or> (\<exists>sn. st_bm25 st' = Some sn \<and> snapshot_ok sn
             \<and> sn_ids sn = map row_id (rows (st_coll st')) \<and> sn_corpus sn = map row_text (rows (st_coll st'))))
    | Inl e \<Rightarrow> st_bm25 st' = st_bm25 st
        \<and> same_elsewhere doc (rows (st_coll st)) (rows (st_coll st'))
        \<and> (holds_rows (rows (st_coll st)) (rows (st_coll st'))
           \<or> (\<exists>body. parse_file (xe_parse E) path content = Inr body
               \<and> holds_rows (new_rows doc ti so now (chunk_paragraphs body sz ov)) (rows (st_coll st')))))"
  by (rule index_contract [OF assms])

text \<open>
  A collection kept as a list, one row per identifier: an instance on which the promises of
  \<open>chroma_ok\<close> hold.
\<close>

fun uniq_rows :: "row list \<Rightarrow> row list" where
  "uniq_rows [] = []"
| "uniq_rows (r # rs) = r # filter (\<lambda>x. row_id x \<noteq> row_id r) (uniq_rows rs)"

lemma uniq_rows_distinct: "distinct (map row_id (uniq_rows rs))"
  by (induction rs) (auto simp: distinct_map inj_on_def)

lemma uniq_rows_id: "distinct (map row_id rs) \<Longrightarrow> uniq_rows rs = rs"
proof (induction rs)
  case (Cons r rs)
  then have "\<forall>x \<in> set rs. row_id x \<noteq> row_id r" by (metis distinct.simps(2) imageI list.set_map list.simps(9))
  then show ?case using Cons by simp
qed simp

lemma uniq_rows_filter [simp]: "uniq_rows (filter P (uniq_rows rs)) = filter P (uniq_rows rs)"
  by (intro uniq_rows_id distinct_map_filter uniq_rows_distinct)

definition mem_chroma :: "row list chroma" where
  "mem_chroma = \<lparr>ch_add = (\<lambda>ids es docs metas c. (None, uniq_rows c @ zip ids (zip docs metas))),
     ch_ids_of = (\<lambda>d c. Inr (map row_id (filter (of_doc d) (uniq_rows c)))),
     ch_delete_ids = (\<lambda>ids c. (None, filter (\<lambda>r. row_id r \<notin> set ids) (uniq_rows c))),
     ch_delete_doc = (\<lambda>d c. (None, filter (\<lambda>r. \<not> of_doc d r) (uniq_rows c))),
     ch_get_all = (\<lambda>c. Inr (uniq_rows c))\<rparr>"

lemma mem_chroma_ok: "chroma_ok mem_chroma uniq_rows"
proof -
  have "uniq_rows (uniq_rows c @ zip ids (zip docs metas)) = uniq_rows c @ zip ids (zip docs metas)"
    if "length docs = length ids" "length metas = length ids" "distinct ids"
      "set ids \<inter> row_id ` set (uniq_rows c) = {}" for ids docs metas c
  proof -
    have "map row_id (zip ids (zip docs metas)) = ids"
      using that(1,2) by (simp add: row_id_def [abs_def])
    then show ?thesis
      using that(3,4) by (intro uniq_rows_id) (simp add: uniq_rows_distinct, metis Int_commute image_set)
  qed
  then show ?thesis
    unfolding chroma_ok_def mem_chroma_def
    by (simp add: adds_def removes_def uniq_rows_distinct del: map_append)
qed

definition mem_env :: "row list index_env" where
  "mem_env = \<lparr>xe_parse = \<lparr>pe_disk = (\<lambda>_. Inl (Exn ''FileNotFoundError'' [])), pe_pdf = (\<lambda>_. Inr []),
       pe_docx = (\<lambda>_. Inr []), pe_html = (\<lambda>_. Inr []), pe_decode_msg = (\<lambda>_. [])\<rparr>,
     xe_embed = (\<lambda>ts. Inr (map (\<lambda>_. []) ts)), xe_chroma = mem_chroma, xe_locked = True\<rparr>"

lemma mem_env_simps:
  "xe_chroma mem_env = mem_chroma" "xe_embed mem_env ts = Inr (map (\<lambda>_. []) ts)"
  "ch_add mem_chroma ids es docs metas c = (None, uniq_rows c @ zip ids (zip docs metas))"
  "ch_ids_of mem_chroma d c = Inr (map row_id (filter (of_doc d) (uniq_rows c)))"
  by (simp_all add: mem_env_def mem_chroma_def)

theorem index_refines_witness:
  "\<exists>st'. index_document mem_env 1700 (asc ''d1'') (asc ''a.txt'') (Some (asc ''hi'')) (asc ''T'') None
       500 50 \<lparr>st_coll = [], st_bm25 = None, st_file = NoFile\<rparr> = (Inr 1, st')
     \<and> corpus (uniq_rows (st_coll st')) (asc ''d1'') = [asc ''hi'']"
proof -
  let ?st = "\<lparr>st_coll = [], st_bm25 = None, st_file = NoFile\<rparr> :: row list stores"
  have p: "parse_file (xe_parse mem_env) (asc ''a.txt'') (Some (asc ''hi'')) = Inr (asc ''hi'')"
    "chunk_paragraphs (asc ''hi'') 500 50 = [asc ''hi'']" by code_simp+
  obtain res st' where r: "index_document mem_env 1700 (asc ''d1'') (asc ''a.txt'') (Some (asc ''hi''))
      (asc ''T'') None 500 50 ?st = (res, st')" by fastforce
  have n: "fst (index_document mem_env 1700 (asc ''d1'') (asc ''a.txt'') (Some (asc ''hi''))
      (asc ''T'') None 500 50 ?st) = Inr 1"
    by (simp add: index_document_def p mem_env_simps delete_doc_chunks_except_def
        row_id_def of_doc_def row_meta_def chunk_metadata_def)
  have "chroma_ok (xe_chroma mem_env) uniq_rows" by (simp add: mem_env_def mem_chroma_ok)
  from index_refines [OF this _ r] n r p show ?thesis by auto
qed

end
