(* ===== verification/Documents.thy ===== *)
theory Documents
  imports Indexing Masking
begin

text \<open>
  Documents from upload to search: \<open>repositories/document_repo.py\<close>, the Redis queue
  (\<open>embedding/queue.py\<close>), the worker (\<open>embedding/index_worker.py\<close>), the endpoints
  (\<open>embedding/router.py\<close>), \<open>knowledge/publisher.py\<close> and the MinIO helpers. A \<open>depot\<close> holds the
  tables, the queue, the stored objects and the search stores.

  Which of the outside calls fail is part of the environment of an operation: a field of type
  \<open>exn option\<close> is the exception the call raises. Times of the database are in seconds.

  Lemmas: the queue is emptied after a bounded number of steps whatever fails, what a job leaves
  behind on each path, and the invariants of every reachable depot.
\<close>

subsection \<open>Identifiers as text\<close>

definition hex_digit :: "nat \<Rightarrow> nat" where
  "hex_digit n = (if n < 10 then 48 + n else 87 + n)"

fun hex :: "nat \<Rightarrow> ustr" where
  "hex n = (if n < 16 then [hex_digit n] else hex (n div 16) @ [hex_digit (n mod 16)])"

declare hex.simps [simp del]

text \<open>\<open>str(uuid)\<close>: 32 hexadecimal digits, with hyphens.\<close>

definition uuid_text :: "uuid \<Rightarrow> ustr" where
  "uuid_text u = (let h = replicate (32 - length (hex u)) 48 @ hex u in
     take 8 h @ [45] @ take 4 (drop 8 h) @ [45] @ take 4 (drop 12 h) @ [45]
     @ take 4 (drop 16 h) @ [45] @ drop 20 h)"

text \<open>
  \<open>uuid.UUID(text)\<close>, \<open>None\<close> for \<open>ValueError\<close>. What \<open>int(_, 16)\<close> accepts beyond plain digits (signs,
  underscores, other scripts) is left out.
\<close>

fun remove_all :: "ustr \<Rightarrow> ustr \<Rightarrow> ustr" where
  "remove_all p [] = []"
| "remove_all p (c # s) =
     (if p \<noteq> [] \<and> take (length p) (c # s) = p then remove_all p (drop (length p - 1) s)
      else c # remove_all p s)"

definition hex_value :: "nat \<Rightarrow> nat option" where
  "hex_value c = (if 48 \<le> c \<and> c \<le> 57 then Some (c - 48)
     else if 97 \<le> c \<and> c \<le> 102 then Some (c - 87)
     else if 65 \<le> c \<and> c \<le> 70 then Some (c - 55) else None)"

definition uuid_of_text :: "ustr \<Rightarrow> uuid option" where
  "uuid_of_text s =
     (let h = filter (\<lambda>c. c \<noteq> 45) (strip_chars [123, 125] (remove_all (asc ''uuid:'') (remove_all (asc ''urn:'') s)))
      in if length h \<noteq> 32 then None
         else map_option (foldl (\<lambda>n d. 16 * n + d) 0) (those (map hex_value h)))"

subsection \<open>Repository\<close>

definition doc_get :: "uuid \<Rightarrow> document list \<Rightarrow> document option" where
  "doc_get i docs = row_of dc_id i docs"

definition doc_create ::
  "uuid \<Rightarrow> int \<Rightarrow> ustr \<Rightarrow> ustr option \<Rightarrow> ustr option \<Rightarrow> (string \<times> json) list option \<Rightarrow> document list
   \<Rightarrow> document \<times> document list" where
  "doc_create i now title source path tags docs =
     (let d = \<lparr>dc_id = i, dc_title = title, dc_source = source, dc_path = path, dc_status = DocPending,
        dc_chunks = 0, dc_tags = tags, dc_indexed_at = None, dc_error = None, dc_started = None,
        dc_created = now\<rparr> in (d, docs @ [d]))"

definition set_doc :: "uuid \<Rightarrow> (document \<Rightarrow> document) \<Rightarrow> document list \<Rightarrow> document list" where
  "set_doc i f docs = set_row dc_id i f docs"

definition claim_for_indexing :: "uuid \<Rightarrow> int \<Rightarrow> bool \<Rightarrow> document list \<Rightarrow> bool \<times> document list" where
  "claim_for_indexing i now allow_active docs =
     (let statuses = [DocPending, DocFailed] @ (if allow_active then [DocActive] else []);
          hit = (\<lambda>d. dc_id d = i \<and> dc_status d \<in> set statuses)
      in (list_ex hit docs, map (\<lambda>d. if hit d then d\<lparr>dc_status := DocIndexing, dc_error := None,
            dc_started := Some now\<rparr> else d) docs))"

definition doc_list_all :: "doc_status option \<Rightarrow> nat \<Rightarrow> nat \<Rightarrow> document list \<Rightarrow> document list" where
  "doc_list_all st limit offset docs = page limit offset (newest_first dc_created
     (filter (\<lambda>d. st = None \<or> Some (dc_status d) = st) docs))"

definition update_status ::
  "uuid \<Rightarrow> doc_status \<Rightarrow> nat option \<Rightarrow> ustr option \<Rightarrow> int \<Rightarrow> document list \<Rightarrow> document option \<times> document list" where
  "update_status i st chunks error now docs =
     (let f = (\<lambda>d. d\<lparr>dc_status := st, dc_error := error, dc_chunks := or_else chunks (dc_chunks d),
          dc_indexed_at := (if st = DocActive then Some now else dc_indexed_at d),
          dc_started := (if st \<noteq> DocIndexing then None else dc_started d)\<rparr>)
      in (map_option f (doc_get i docs), set_doc i f docs))"

definition mark_failed :: "uuid \<Rightarrow> ustr \<Rightarrow> int \<Rightarrow> document list \<Rightarrow> document option \<times> document list" where
  "mark_failed i error now docs = update_status i DocFailed None (Some error) now docs"

definition restore_active ::
  "uuid \<Rightarrow> nat \<Rightarrow> ustr option \<Rightarrow> document list \<Rightarrow> document option \<times> document list" where
  "restore_active i chunks error docs =
     (let f = (\<lambda>d. d\<lparr>dc_status := DocActive, dc_error := error, dc_chunks := chunks, dc_started := None\<rparr>)
      in (map_option f (doc_get i docs), set_doc i f docs))"

definition list_requeue_candidates :: "int \<Rightarrow> int \<Rightarrow> document list \<Rightarrow> document list" where
  "list_requeue_candidates stale_minutes now docs = filter (\<lambda>d. dc_status d = DocPending
     \<or> (dc_status d = DocIndexing
        \<and> (case dc_started d of None \<Rightarrow> False | Some t \<Rightarrow> t < now - 60 * stale_minutes))) docs"

definition doc_delete :: "uuid \<Rightarrow> document list \<Rightarrow> bool \<times> document list" where
  "doc_delete i docs = (doc_get i docs \<noteq> None, filter (\<lambda>d. dc_id d \<noteq> i) docs)"

subsection \<open>The queue\<close>

datatype job_kind = JUpload | JReindex

record job =
  jb_doc :: uuid
  jb_kind :: job_kind
  jb_attempt :: nat

definition INITIAL_INDEX_ATTEMPT :: nat where "INITIAL_INDEX_ATTEMPT = 1"
definition MAX_INDEX_ATTEMPTS :: nat where "MAX_INDEX_ATTEMPTS = 3"
definition STALE_INDEXING_REQUEUE_MINUTES :: int where "STALE_INDEXING_REQUEUE_MINUTES = 30"

text \<open>
  An entry of the Redis list: the fields of a JSON object with the three keys of a job, or
  \<open>None\<close> for anything that does not decode to one.
\<close>

type_synonym queue_item = "(idstr \<times> string \<times> int) option"

fun kind_name :: "job_kind \<Rightarrow> string" where
  "kind_name JUpload = ''upload''"
| "kind_name JReindex = ''reindex''"

text \<open>\<open>IndexJob(...)\<close> with the checks of \<open>__post_init__\<close>; \<open>None\<close> for \<open>ValueError\<close>.\<close>

definition index_job :: "idstr \<Rightarrow> string \<Rightarrow> int \<Rightarrow> job option" where
  "index_job d k a =
     (case parse_uuid d of
        None \<Rightarrow> None
      | Some u \<Rightarrow>
          if k \<noteq> ''upload'' \<and> k \<noteq> ''reindex'' then None
          else if a < int INITIAL_INDEX_ATTEMPT then None
          else Some \<lparr>jb_doc = u, jb_kind = (if k = ''upload'' then JUpload else JReindex), jb_attempt = nat a\<rparr>)"

definition job_item :: "job \<Rightarrow> queue_item" where
  "job_item j = Some (Hex (jb_doc j), kind_name (jb_kind j), int (jb_attempt j))"

text \<open>\<open>LPUSH\<close> and \<open>BRPOP\<close>; an empty queue times out.\<close>

definition enqueue_index_job :: "job \<Rightarrow> queue_item list \<Rightarrow> queue_item list" where
  "enqueue_index_job j q = job_item j # q"

definition item_job :: "queue_item \<Rightarrow> job option" where
  "item_job it = (case it of None \<Rightarrow> None | Some (d, k, a) \<Rightarrow> index_job d k a)"

definition pop_index_job :: "queue_item list \<Rightarrow> job option \<times> queue_item list" where
  "pop_index_job q = (if q = [] then (None, []) else (item_job (last q), butlast q))"

subsection \<open>The depot and its storage\<close>

record 'c depot =
  dp_world :: world
  dp_queue :: "queue_item list"
  dp_objects :: "ustr \<Rightarrow> bytes option"
  dp_stores :: "'c stores"

definition docs_of :: "'c depot \<Rightarrow> document list" where
  "docs_of dp = w_docs (dp_world dp)"

definition with_docs :: "document list \<Rightarrow> 'c depot \<Rightarrow> 'c depot" where
  "with_docs docs dp = dp\<lparr>dp_world := (dp_world dp)\<lparr>w_docs := docs\<rparr>\<rparr>"

text \<open>\<open>core/minio_client.py\<close>; deleting an object that is not there succeeds.\<close>

definition put_document_bytes :: "exn option \<Rightarrow> ustr \<Rightarrow> bytes \<Rightarrow> 'c depot \<Rightarrow> exn option \<times> 'c depot" where
  "put_document_bytes fails key bs dp = (case fails of
     Some e \<Rightarrow> (Some e, dp) | None \<Rightarrow> (None, dp\<lparr>dp_objects := (dp_objects dp)(key := Some bs)\<rparr>))"

definition get_document_bytes :: "exn option \<Rightarrow> ustr \<Rightarrow> 'c depot \<Rightarrow> exn + bytes" where
  "get_document_bytes fails key dp = (case fails of Some e \<Rightarrow> Inl e
   | None \<Rightarrow> (case dp_objects dp key of None \<Rightarrow> Inl (Exn ''S3Error'' (asc ''NoSuchKey'')) | Some bs \<Rightarrow> Inr bs))"

definition delete_document_bytes :: "exn option \<Rightarrow> ustr \<Rightarrow> 'c depot \<Rightarrow> exn option \<times> 'c depot" where
  "delete_document_bytes fails key dp = (case fails of
     Some e \<Rightarrow> (Some e, dp) | None \<Rightarrow> (None, dp\<lparr>dp_objects := (dp_objects dp)(key := None)\<rparr>))"

text \<open>\<open>(doc.tags or {}).get(name)\<close> for a tag that holds a text; the empty text counts as absent.\<close>

definition tag_text :: "string \<Rightarrow> document \<Rightarrow> ustr option" where
  "tag_text name d = (case map_of (or_else (dc_tags d) []) name of
     Some (JStr s) \<Rightarrow> if s = [] then None else Some s | _ \<Rightarrow> None)"

subsection \<open>The worker\<close>

definition MAX_INDEX_ERROR_CHARS :: nat where "MAX_INDEX_ERROR_CHARS = 1000"
definition ORPHAN_REQUEUE_ERROR :: ustr where
  "ORPHAN_REQUEUE_ERROR = asc ''requeued after interrupted indexing''"

text \<open>
  One run of the worker: the time, the index environment with its millisecond clock, which outside
  calls raise, and the id and trace of a failure audit. \<open>wk_setup\<close> is the creation of the embedder
  and the vector store, \<open>wk_finalize\<close> and \<open>wk_fail_db\<close> the database sessions that record success and
  failure, \<open>wk_enqueue\<close> the push of the retry.
\<close>

record 'c worker_env =
  wk_now :: int
  wk_ms :: nat
  wk_index :: "'c index_env"
  wk_claim :: "exn option"
  wk_setup :: "exn option"
  wk_get :: "exn option"
  wk_delete :: "exn option"
  wk_finalize :: "exn option"
  wk_fail_db :: "exn option"
  wk_enqueue :: "exn option"
  wk_audit_id :: uuid
  wk_trace :: string

datatype job_outcome = JSkipped | JSuccess | JFailure | JRaised exn

fun error_text :: "exn \<Rightarrow> ustr" where
  "error_text (Exn cls msg) = take MAX_INDEX_ERROR_CHARS (asc cls @ asc '': '' @ msg)"

definition is_reindex :: "document \<Rightarrow> bool" where
  "is_reindex d \<longleftrightarrow> dc_indexed_at d \<noteq> None \<or> 0 < dc_chunks d"

definition storage_key :: "document \<Rightarrow> exn + ustr" where
  "storage_key d = (case tag_text ''storage_key'' d of
     None \<Rightarrow> Inl (Exn ''RuntimeError'' (asc ''Document source file unavailable'')) | Some k \<Rightarrow> Inr k)"

definition claim_job :: "'c worker_env \<Rightarrow> job \<Rightarrow> 'c depot \<Rightarrow> document option \<times> 'c depot" where
  "claim_job E j dp =
     (case claim_for_indexing (jb_doc j) (wk_now E) (jb_kind j = JReindex) (docs_of dp) of
        (False, _) \<Rightarrow> (None, dp)
      | (True, docs) \<Rightarrow> (doc_get (jb_doc j) docs, with_docs docs dp))"

definition finalize_success :: "'c worker_env \<Rightarrow> job \<Rightarrow> nat \<Rightarrow> 'c depot \<Rightarrow> exn option \<times> 'c depot" where
  "finalize_success E j n dp = (case wk_finalize E of Some e \<Rightarrow> (Some e, dp)
     | None \<Rightarrow> (None, with_docs (snd (update_status (jb_doc j) DocActive (Some n) None (wk_now E) (docs_of dp))) dp))"

definition record_failure_audit ::
  "'c worker_env \<Rightarrow> document \<Rightarrow> job \<Rightarrow> ustr \<Rightarrow> 'c depot \<Rightarrow> 'c depot" where
  "record_failure_audit E d j error dp =
     (case tag_text ''index_actor_id'' d of
        None \<Rightarrow> dp
      | Some raw \<Rightarrow> (case uuid_of_text raw of None \<Rightarrow> dp
        | Some u \<Rightarrow> (case row_of us_id u (w_users (dp_world dp)) of None \<Rightarrow> dp
          | Some actor \<Rightarrow> dp\<lparr>dp_world := (dp_world dp)\<lparr>w_audits :=
              record_audit (wk_audit_id E) (wk_now E) (wk_trace E) \<lparr>ax_actor = actor,
                ax_action = ''document.index_failed'', ax_entity_type = ''document'',
                ax_entity = Some (dc_id d), ax_detail = Some [(''job_kind'', JStr (asc (kind_name (jb_kind j)))),
                  (''attempt'', JInt (int (jb_attempt j))), (''error'', JStr error)]\<rparr>
              (w_audits (dp_world dp))\<rparr>\<rparr>)))"

definition cleanup_first_index ::
  "'c worker_env \<Rightarrow> bool \<Rightarrow> ustr \<Rightarrow> ustr \<Rightarrow> 'c depot \<Rightarrow> 'c depot" where
  "cleanup_first_index E service doc key dp =
     (let dp1 = (if service then dp\<lparr>dp_stores := snd (delete_document (wk_index E) doc (dp_stores dp))\<rparr> else dp)
      in if key = [] then dp1 else snd (delete_document_bytes (wk_delete E) key dp1))"

definition set_retry_state ::
  "'c worker_env \<Rightarrow> job \<Rightarrow> document \<Rightarrow> ustr \<Rightarrow> 'c depot \<Rightarrow> exn option \<times> 'c depot" where
  "set_retry_state E j d error dp =
     (case wk_fail_db E of Some e \<Rightarrow> (Some e, dp)
      | None \<Rightarrow>
         let docs = (if jb_kind j = JUpload
               then snd (update_status (dc_id d) DocPending (Some (dc_chunks d)) (Some error) (wk_now E) (docs_of dp))
               else snd (restore_active (dc_id d) (dc_chunks d) (Some error) (docs_of dp)));
             dp1 = with_docs docs dp
         in case wk_enqueue E of Some e \<Rightarrow> (Some e, dp1)
            | None \<Rightarrow> (None, dp1\<lparr>dp_queue := enqueue_index_job (j\<lparr>jb_attempt := jb_attempt j + 1\<rparr>) (dp_queue dp1)\<rparr>))"

definition set_terminal_failure ::
  "'c worker_env \<Rightarrow> job \<Rightarrow> document \<Rightarrow> ustr \<Rightarrow> 'c depot \<Rightarrow> exn option \<times> 'c depot" where
  "set_terminal_failure E j d error dp =
     (case wk_fail_db E of Some e \<Rightarrow> (Some e, dp)
      | None \<Rightarrow>
         let (failed, docs) = (if jb_kind j = JUpload
               then mark_failed (dc_id d) error (wk_now E) (docs_of dp)
               else restore_active (dc_id d) (dc_chunks d) (Some error) (docs_of dp));
             dp1 = with_docs docs dp
         in (None, case failed of None \<Rightarrow> dp1 | Some d' \<Rightarrow> record_failure_audit E d' j error dp1))"

definition handle_failure ::
  "'c worker_env \<Rightarrow> job \<Rightarrow> document \<Rightarrow> bool \<Rightarrow> ustr \<Rightarrow> exn \<Rightarrow> 'c depot \<Rightarrow> exn option \<times> 'c depot" where
  "handle_failure E j d service key e dp =
     (let message = error_text e in
      if jb_attempt j < MAX_INDEX_ATTEMPTS then set_retry_state E j d message dp
      else set_terminal_failure E j d message
        (if jb_kind j = JUpload then cleanup_first_index E service (uuid_text (jb_doc j)) key dp else dp))"

text \<open>The body of the \<open>try\<close>: its result, whether the service exists, the storage key, the depot.\<close>

definition index_attempt ::
  "'c worker_env \<Rightarrow> job \<Rightarrow> document \<Rightarrow> 'c depot \<Rightarrow> (exn + nat) \<times> bool \<times> ustr \<times> 'c depot" where
  "index_attempt E j d dp =
     (case storage_key d of
        Inl e \<Rightarrow> (Inl e, False, [], dp)
      | Inr key \<Rightarrow>
         (case wk_setup E of
            Some e \<Rightarrow> (Inl e, False, key, dp)
          | None \<Rightarrow>
             (case get_document_bytes (wk_get E) key dp of
                Inl e \<Rightarrow> (Inl e, True, key, dp)
              | Inr bs \<Rightarrow>
                 (case index_document (wk_index E) (wk_ms E) (uuid_text (jb_doc j))
                        (if or_else (dc_path d) [] = [] then key else or_else (dc_path d) [])
                        (Some bs) (dc_title d) (dc_source d) CHUNK_SIZE CHUNK_OVERLAP (dp_stores dp) of
                    (Inl e, st) \<Rightarrow> (Inl e, True, key, dp\<lparr>dp_stores := st\<rparr>)
                  | (Inr n, st) \<Rightarrow>
                     (case finalize_success E j n (dp\<lparr>dp_stores := st\<rparr>) of
                        (Some e, dp') \<Rightarrow> (Inl e, True, key, dp')
                      | (None, dp') \<Rightarrow> (Inr n, True, key, dp'))))))"

definition process_job :: "'c worker_env \<Rightarrow> job \<Rightarrow> 'c depot \<Rightarrow> job_outcome \<times> 'c depot" where
  "process_job E j dp =
     (case wk_claim E of
        Some e \<Rightarrow> (JRaised e, dp)
      | None \<Rightarrow>
         (case claim_job E j dp of
            (None, dp1) \<Rightarrow> (JSkipped, dp1)
          | (Some d, dp1) \<Rightarrow>
             (case index_attempt E j d dp1 of
                (Inr n, _, _, dp2) \<Rightarrow> (JSuccess, dp2)
              | (Inl e, service, key, dp2) \<Rightarrow>
                 (case handle_failure E j d service key e dp2 of
                    (None, dp3) \<Rightarrow> (JFailure, dp3)
                  | (Some e', dp3) \<Rightarrow> (JRaised e', dp3)))))"

text \<open>One turn of the consumer loop; an exception is logged and the loop goes on.\<close>

definition index_queue_consumer :: "'c worker_env \<Rightarrow> 'c depot \<Rightarrow> 'c depot" where
  "index_queue_consumer E dp =
     (case pop_index_job (dp_queue dp) of
        (None, q) \<Rightarrow> dp\<lparr>dp_queue := q\<rparr>
      | (Some j, q) \<Rightarrow> snd (process_job E j (dp\<lparr>dp_queue := q\<rparr>)))"

text \<open>
  At start-up: the state of each candidate is put back and a job made for it; \<open>pushes\<close> says how
  many jobs are pushed before a push raises.
\<close>

definition requeue_kind :: "document \<Rightarrow> job_kind" where
  "requeue_kind d = (if is_reindex d then JReindex else JUpload)"

definition requeue_doc :: "int \<Rightarrow> document \<Rightarrow> document list \<Rightarrow> document list" where
  "requeue_doc now d docs =
     (if dc_status d \<noteq> DocIndexing then docs
      else if requeue_kind d = JReindex
        then snd (restore_active (dc_id d) (dc_chunks d) (Some ORPHAN_REQUEUE_ERROR) docs)
      else snd (update_status (dc_id d) DocPending None (Some ORPHAN_REQUEUE_ERROR) now docs))"

definition requeue_orphans :: "int \<Rightarrow> nat \<Rightarrow> 'c depot \<Rightarrow> 'c depot" where
  "requeue_orphans now pushes dp =
     (let cands = list_requeue_candidates STALE_INDEXING_REQUEUE_MINUTES now (docs_of dp);
          dp1 = with_docs (fold (requeue_doc now) cands (docs_of dp)) dp;
          jobs = map (\<lambda>d. \<lparr>jb_doc = dc_id d, jb_kind = requeue_kind d, jb_attempt = INITIAL_INDEX_ATTEMPT\<rparr>) cands
      in dp1\<lparr>dp_queue := fold enqueue_index_job (take pushes jobs) (dp_queue dp1)\<rparr>)"

subsection \<open>Endpoints\<close>

text \<open>\<open>APIResponse\<close>: data, or \<open>success=False\<close> with an error text; an \<open>exn\<close> is a server error.\<close>

datatype 'a api = ApiData 'a | ApiError ustr | ApiForbidden | ApiRaised exn

definition ENQUEUE_FAILURE_MESSAGE :: ustr where
  "ENQUEUE_FAILURE_MESSAGE = asc ''Document indexing could not be queued''"

definition build_storage_key :: "uuid \<Rightarrow> ustr \<Rightarrow> ustr" where
  "build_storage_key i filename = asc ''documents/'' @ uuid_text i @ path_suffix filename"

definition role_name :: "user_role \<Rightarrow> ustr" where
  "role_name r = (case r of RUser \<Rightarrow> asc ''user'' | RAgent \<Rightarrow> asc ''agent'' | RAdmin \<Rightarrow> asc ''admin'')"

definition actor_tags :: "user \<Rightarrow> (string \<times> json) list" where
  "actor_tags u = [(''index_actor_id'', JStr (uuid_text (us_id u))),
     (''index_actor_role'', JStr (role_name (us_role u)))]"

definition merge_tags :: "(string \<times> json) list \<Rightarrow> (string \<times> json) list \<Rightarrow> (string \<times> json) list" where
  "merge_tags old new = fold (\<lambda>kv m. AList.update (fst kv) (snd kv) m) new old"

definition set_tags :: "(string \<times> json) list \<Rightarrow> document \<Rightarrow> document" where
  "set_tags tags d = d\<lparr>dc_tags := Some tags\<rparr>"

definition create_pending_document ::
  "uuid \<Rightarrow> int \<Rightarrow> ustr \<Rightarrow> ustr option \<Rightarrow> ustr \<Rightarrow> user \<Rightarrow> 'c depot \<Rightarrow> document \<times> ustr \<times> 'c depot" where
  "create_pending_document i now title source filename u dp =
     (let tags = [(''original_filename'', JStr filename)] @ actor_tags u;
          (d, docs) = doc_create i now title source (Some filename) (Some tags) (docs_of dp);
          key = build_storage_key i filename;
          f = set_tags (merge_tags tags [(''storage_key'', JStr key)])
      in (f d, key, with_docs (set_doc i f docs) dp))"

text \<open>Which of the calls of an endpoint raise, and the audit row it would write.\<close>

record call_env =
  ce_put :: "exn option"
  ce_delete :: "exn option"
  ce_enqueue :: "exn option"
  ce_audit_id :: uuid
  ce_trace :: string

definition audit_document ::
  "call_env \<Rightarrow> int \<Rightarrow> user \<Rightarrow> string \<Rightarrow> uuid \<Rightarrow> (string \<times> json) list \<Rightarrow> 'c depot \<Rightarrow> 'c depot" where
  "audit_document C now u action i detail dp = dp\<lparr>dp_world := (dp_world dp)\<lparr>w_audits :=
     record_audit (ce_audit_id C) now (ce_trace C) \<lparr>ax_actor = u, ax_action = action,
       ax_entity_type = ''document'', ax_entity = Some i, ax_detail = Some detail\<rparr>
     (w_audits (dp_world dp))\<rparr>\<rparr>"

definition cleanup_staged_upload ::
  "call_env \<Rightarrow> uuid \<Rightarrow> ustr \<Rightarrow> bool \<Rightarrow> 'c depot \<Rightarrow> exn option \<times> 'c depot" where
  "cleanup_staged_upload C i key stored dp =
     (case (if stored then delete_document_bytes (ce_delete C) key dp else (None, dp)) of
        (Some e, dp1) \<Rightarrow> (Some e, dp1)
      | (None, dp1) \<Rightarrow> (None, with_docs (snd (doc_delete i (docs_of dp1))) dp1))"

definition upload_document ::
  "call_env \<Rightarrow> uuid \<Rightarrow> int \<Rightarrow> user \<Rightarrow> ustr \<Rightarrow> ustr option \<Rightarrow> ustr \<Rightarrow> bytes \<Rightarrow> 'c depot
   \<Rightarrow> document api \<times> 'c depot" where
  "upload_document C i now u title source name content dp =
     (if us_role u \<noteq> RAdmin \<and> us_role u \<noteq> RAgent then (ApiForbidden, dp)
      else
       let filename = (if name = [] then asc ''upload.bin'' else name);
           (d, key, dp1) = create_pending_document i now title source filename u dp;
           fail = (\<lambda>stored dp'. case cleanup_staged_upload C i key stored dp' of
             (Some e, dp2) \<Rightarrow> (ApiRaised e, dp2) | (None, dp2) \<Rightarrow> (ApiError ENQUEUE_FAILURE_MESSAGE, dp2))
       in case put_document_bytes (ce_put C) key content dp1 of
          (Some e, dp2) \<Rightarrow> fail False dp2
        | (None, dp2) \<Rightarrow>
           (case ce_enqueue C of
              Some e \<Rightarrow> fail True dp2
            | None \<Rightarrow> (ApiData d, audit_document C now u ''document.upload'' i
                [(''title'', JStr title), (''source'', case source of None \<Rightarrow> JNull | Some s \<Rightarrow> JStr s),
                 (''filename'', JStr filename), (''enqueued'', JBool True)]
                (dp2\<lparr>dp_queue := enqueue_index_job
                  \<lparr>jb_doc = i, jb_kind = JUpload, jb_attempt = INITIAL_INDEX_ATTEMPT\<rparr> (dp_queue dp2)\<rparr>))))"

definition reindex_kind :: "document \<Rightarrow> job_kind" where
  "reindex_kind d = (if dc_status d = DocFailed \<and> dc_indexed_at d = None then JUpload else JReindex)"

definition reindex_document ::
  "call_env \<Rightarrow> uuid \<Rightarrow> int \<Rightarrow> user \<Rightarrow> 'c depot \<Rightarrow> document api \<times> 'c depot" where
  "reindex_document C i now u dp =
     (if us_role u \<noteq> RAdmin then (ApiForbidden, dp)
      else case doc_get i (docs_of dp) of
        None \<Rightarrow> (ApiError (asc ''Document not found''), dp)
      | Some d \<Rightarrow>
          if tag_text ''storage_key'' d = None
          then (ApiError (asc ''Document source file unavailable for reindex''), dp)
          else
           let f = set_tags (merge_tags (or_else (dc_tags d) []) (actor_tags u));
               dp1 = with_docs (set_doc i f (docs_of dp)) dp
           in case ce_enqueue C of
              Some e \<Rightarrow> (ApiError ENQUEUE_FAILURE_MESSAGE, dp1)
            | None \<Rightarrow> (ApiData (f d), audit_document C now u ''document.reindex'' i
                [(''enqueued'', JBool True), (''job_kind'', JStr (asc (kind_name (reindex_kind d))))]
                (dp1\<lparr>dp_queue := enqueue_index_job
                  \<lparr>jb_doc = i, jb_kind = reindex_kind d, jb_attempt = INITIAL_INDEX_ATTEMPT\<rparr> (dp_queue dp1)\<rparr>)))"

subsection \<open>Publishing\<close>

text \<open>\<open>knowledge/publisher.py\<close>; \<open>PublishError\<close> is the exception of that name.\<close>

definition UNEXPECTED_FAILURE_MESSAGE :: ustr where
  "UNEXPECTED_FAILURE_MESSAGE = asc ''Document indexing failed unexpectedly''"

fun publish_error :: "exn \<Rightarrow> exn" where
  "publish_error (Exn cls msg) =
     Exn ''PublishError'' (if cls = PROVIDER_ERROR then msg else UNEXPECTED_FAILURE_MESSAGE)"

record 'c publish_env =
  pb_index :: "'c index_env"
  pb_ms :: nat
  pb_setup :: "exn option"
  pb_put :: "exn option"
  pb_delete :: "exn option"

text \<open>Chroma, then MinIO, then PostgreSQL; a step that raises ends it.\<close>

definition publish_rollback ::
  "'c publish_env \<Rightarrow> bool \<Rightarrow> ustr \<Rightarrow> uuid \<Rightarrow> 'c depot \<Rightarrow> exn option \<times> 'c depot" where
  "publish_rollback P service key i dp =
     (case (if service then delete_document (pb_index P) (uuid_text i) (dp_stores dp) else (None, dp_stores dp)) of
        (Some e, st) \<Rightarrow> (Some e, dp\<lparr>dp_stores := st\<rparr>)
      | (None, st) \<Rightarrow>
         (case delete_document_bytes (pb_delete P) key (dp\<lparr>dp_stores := st\<rparr>) of
            (Some e, dp1) \<Rightarrow> (Some e, dp1)
          | (None, dp1) \<Rightarrow> (None, with_docs (snd (doc_delete i (docs_of dp1))) dp1)))"

definition publish_document_bytes ::
  "'c publish_env \<Rightarrow> uuid \<Rightarrow> int \<Rightarrow> ustr \<Rightarrow> ustr \<Rightarrow> bytes \<Rightarrow> ustr option \<Rightarrow> (string \<times> json) list
   \<Rightarrow> 'c depot \<Rightarrow> (exn + document) \<times> 'c depot" where
  "publish_document_bytes P i now title filename content source extra dp =
     (let tags = merge_tags [(''original_filename'', JStr filename)] extra;
          key = build_storage_key i filename;
          (d0, docs0) = doc_create i now title source (Some filename) (Some tags) (docs_of dp);
          f = set_tags (merge_tags tags [(''storage_key'', JStr key)]);
          dp1 = with_docs (set_doc i f docs0) dp;
          fail = (\<lambda>service e dp'. case publish_rollback P service key i dp' of
              (Some e', dp2) \<Rightarrow> (Inl e', dp2) | (None, dp2) \<Rightarrow> (Inl (publish_error e), dp2))
      in case pb_setup P of
         Some e \<Rightarrow> fail False e dp1
       | None \<Rightarrow>
          (case put_document_bytes (pb_put P) key content dp1 of
             (Some e, dp2) \<Rightarrow> fail True e dp2
           | (None, dp2) \<Rightarrow>
              (case index_document (pb_index P) (pb_ms P) (uuid_text i) filename (Some content) title source
                      CHUNK_SIZE CHUNK_OVERLAP (dp_stores dp2) of
                 (Inl e, st) \<Rightarrow> fail True e (dp2\<lparr>dp_stores := st\<rparr>)
               | (Inr n, st) \<Rightarrow>
                  (let dp3 = dp2\<lparr>dp_stores := st\<rparr>;
                       (od, docs) = update_status i DocActive (Some n) None now (docs_of dp3)
                   in (Inr (or_else od (f d0)), with_docs docs dp3)))))"

subsection \<open>Frames\<close>

named_theorems depot_simps "reads of a depot after an operation"

lemma with_docs_reads [depot_simps, simp]:
  "docs_of (with_docs docs dp) = docs" "dp_queue (with_docs docs dp) = dp_queue dp"
  "dp_objects (with_docs docs dp) = dp_objects dp" "dp_stores (with_docs docs dp) = dp_stores dp"
  by (simp_all add: with_docs_def docs_of_def)

lemma docs_of_updates [depot_simps, simp]:
  "docs_of (dp\<lparr>dp_queue := q\<rparr>) = docs_of dp" "docs_of (dp\<lparr>dp_objects := ob\<rparr>) = docs_of dp"
  "docs_of (dp\<lparr>dp_stores := st\<rparr>) = docs_of dp"
  by (simp_all add: docs_of_def)

lemma record_failure_audit_reads [depot_simps, simp]:
  "docs_of (record_failure_audit E d j e dp) = docs_of dp"
  "dp_queue (record_failure_audit E d j e dp) = dp_queue dp"
  by (simp_all add: record_failure_audit_def docs_of_def split: option.splits)

lemma delete_bytes_reads [depot_simps, simp]:
  "docs_of (snd (delete_document_bytes f k dp)) = docs_of dp"
  "dp_queue (snd (delete_document_bytes f k dp)) = dp_queue dp"
  by (simp_all add: delete_document_bytes_def split: option.splits)

lemma delete_bytesD:
  "delete_document_bytes f k dp = (r, dp') \<Longrightarrow> docs_of dp' = docs_of dp \<and> dp_queue dp' = dp_queue dp"
  using delete_bytes_reads [of f k dp] by simp

lemma put_bytes_reads [depot_simps, simp]:
  "docs_of (snd (put_document_bytes f k bs dp)) = docs_of dp"
  "dp_queue (snd (put_document_bytes f k bs dp)) = dp_queue dp"
  by (simp_all add: put_document_bytes_def split: option.splits)

lemma cleanup_first_reads [depot_simps, simp]:
  "docs_of (cleanup_first_index E s doc k dp) = docs_of dp"
  "dp_queue (cleanup_first_index E s doc k dp) = dp_queue dp"
  by (simp_all add: cleanup_first_index_def Let_def)

lemma finalize_reads:
  "finalize_success E j n dp = (r, dp') \<Longrightarrow> dp_queue dp' = dp_queue dp
   \<and> docs_of dp' = (if r = None then snd (update_status (jb_doc j) DocActive (Some n) None (wk_now E) (docs_of dp))
        else docs_of dp)"
  by (auto simp: finalize_success_def split: option.splits)

lemma attempt_reads:
  assumes "index_attempt E j d dp = (r, s, k, dp')"
  shows "dp_queue dp' = dp_queue dp \<and> docs_of dp' = (case r of Inl e \<Rightarrow> docs_of dp
     | Inr n \<Rightarrow> snd (update_status (jb_doc j) DocActive (Some n) None (wk_now E) (docs_of dp)))"
  using assms
  by (auto simp: index_attempt_def dest!: finalize_reads split: sum.splits option.splits prod.splits)

text \<open>What the failure path does to the documents and the queue when the database answers.\<close>

definition failed_doc :: "job \<Rightarrow> document \<Rightarrow> ustr \<Rightarrow> document \<Rightarrow> document" where
  "failed_doc j d error x = x\<lparr>dc_status := (if jb_kind j = JReindex then DocActive
       else if jb_attempt j < MAX_INDEX_ATTEMPTS then DocPending else DocFailed),
     dc_error := Some error,
     dc_chunks := (if jb_kind j = JUpload \<and> \<not> jb_attempt j < MAX_INDEX_ATTEMPTS then dc_chunks x else dc_chunks d),
     dc_started := None\<rparr>"

lemma kind_cases: "k \<noteq> JUpload \<longleftrightarrow> k = JReindex"
  by (cases k) auto

lemma failure_reads:
  assumes "handle_failure E j d s k e dp = (r, dp')"
  shows "(docs_of dp' = docs_of dp \<and> dp_queue dp' = dp_queue dp \<and> r \<noteq> None \<and> wk_fail_db E \<noteq> None)
    \<or> (docs_of dp' = set_doc (dc_id d) (failed_doc j d (error_text e)) (docs_of dp)
       \<and> (if jb_attempt j < MAX_INDEX_ATTEMPTS \<and> wk_enqueue E = None
          then dp_queue dp' = job_item (j\<lparr>jb_attempt := jb_attempt j + 1\<rparr>) # dp_queue dp
          else dp_queue dp' = dp_queue dp)
       \<and> (r = None \<or> wk_enqueue E \<noteq> None) \<and> wk_fail_db E = None)"
proof (cases "wk_fail_db E")
  case None
  with assms show ?thesis
    by (cases "jb_kind j")
      (auto simp: handle_failure_def set_retry_state_def set_terminal_failure_def Let_def
        mark_failed_def update_status_def restore_active_def failed_doc_def [abs_def] enqueue_index_job_def
        split: option.splits prod.splits if_splits)
next
  case (Some x)
  have "r = Some x \<and> docs_of dp' = docs_of dp \<and> dp_queue dp' = dp_queue dp"
    using assms unfolding handle_failure_def set_retry_state_def set_terminal_failure_def Let_def Some
    by (auto split: if_splits)
  then show ?thesis using Some by simp
qed

subsection \<open>The queue empties\<close>

lemma job_roundtrip [simp]: "1 \<le> jb_attempt j \<Longrightarrow> item_job (job_item j) = Some j"
  by (cases j; cases "jb_kind j")
    (auto simp: item_job_def job_item_def index_job_def INITIAL_INDEX_ATTEMPT_def)

lemma item_job_attempt: "item_job it = Some j \<Longrightarrow> 1 \<le> jb_attempt j"
  by (auto simp: item_job_def index_job_def INITIAL_INDEX_ATTEMPT_def split: option.splits if_splits)

definition item_work :: "queue_item \<Rightarrow> nat" where
  "item_work it = (case item_job it of None \<Rightarrow> 1 | Some j \<Rightarrow> 1 + (MAX_INDEX_ATTEMPTS - jb_attempt j))"

lemma item_work_pos [simp]: "item_work it \<noteq> 0"
  by (simp add: item_work_def split: option.splits)

definition queue_work :: "queue_item list \<Rightarrow> nat" where
  "queue_work q = sum_list (map item_work q)"

lemma process_queue:
  "dp_queue (snd (process_job E j dp)) = dp_queue dp \<or>
   (jb_attempt j < MAX_INDEX_ATTEMPTS
    \<and> dp_queue (snd (process_job E j dp)) = job_item (j\<lparr>jb_attempt := jb_attempt j + 1\<rparr>) # dp_queue dp)"
  by (auto simp: process_job_def claim_job_def dest!: attempt_reads failure_reads
      split: option.splits prod.splits sum.splits bool.splits if_splits)

lemma consumer_work:
  assumes "dp_queue dp \<noteq> []"
  shows "queue_work (dp_queue (index_queue_consumer E dp)) < queue_work (dp_queue dp)"
proof -
  have q: "queue_work (dp_queue dp) = queue_work (butlast (dp_queue dp)) + item_work (last (dp_queue dp))"
    by (subst append_butlast_last_id [OF assms, symmetric]) (simp add: queue_work_def)
  show ?thesis
  proof (cases "item_job (last (dp_queue dp))")
    case None
    then show ?thesis using assms q
      by (simp add: index_queue_consumer_def pop_index_job_def item_work_def)
  next
    case (Some j)
    have "queue_work (dp_queue (snd (process_job E j (dp\<lparr>dp_queue := butlast (dp_queue dp)\<rparr>))))
        < queue_work (butlast (dp_queue dp)) + item_work (last (dp_queue dp))"
      using process_queue [of E j "dp\<lparr>dp_queue := butlast (dp_queue dp)\<rparr>"] item_job_attempt [OF Some]
      by (auto simp: queue_work_def item_work_def Some)
    then show ?thesis using assms q Some
      by (simp add: index_queue_consumer_def pop_index_job_def)
  qed
qed

lemma consumer_empty: "dp_queue dp = [] \<Longrightarrow> dp_queue (index_queue_consumer E dp) = []"
  by (simp add: index_queue_consumer_def pop_index_job_def)

lemma drain: "queue_work (dp_queue dp) \<le> length envs \<Longrightarrow> dp_queue (fold index_queue_consumer envs dp) = []"
proof (induction envs arbitrary: dp)
  case Nil
  then have "\<forall>it \<in> set (dp_queue dp). item_work it = 0" by (simp add: queue_work_def)
  then show ?case by (cases "dp_queue dp") auto
next
  case (Cons E envs)
  show ?case
  proof (cases "dp_queue dp = []")
    case True
    then have "queue_work (dp_queue (index_queue_consumer E dp)) = 0"
      by (simp add: consumer_empty queue_work_def)
    then show ?thesis using Cons.IH [of "index_queue_consumer E dp"] by simp
  next
    case False
    then have "queue_work (dp_queue (index_queue_consumer E dp)) \<le> length envs"
      using consumer_work [OF False, of E] Cons.prems by simp
    then show ?thesis using Cons.IH by simp
  qed
qed


definition idle_env :: "row list worker_env" where
  "idle_env = \<lparr>wk_now = 100, wk_ms = 100000, wk_index = mem_env, wk_claim = None, wk_setup = None,
     wk_get = None, wk_delete = None, wk_finalize = None, wk_fail_db = None, wk_enqueue = None,
     wk_audit_id = 0, wk_trace = ''''\<rparr>"

definition sample_doc :: document where
  "sample_doc = \<lparr>dc_id = 5, dc_title = asc ''T'', dc_source = None, dc_path = Some (asc ''a.txt''),
     dc_status = DocPending, dc_chunks = 0, dc_tags = Some [(''storage_key'', JStr (asc ''k''))],
     dc_indexed_at = None, dc_error = None, dc_started = None, dc_created = 0\<rparr>"

definition sample_depot :: "row list depot" where
  "sample_depot = \<lparr>dp_world = empty_world\<lparr>w_docs := [sample_doc]\<rparr>,
     dp_queue = [job_item \<lparr>jb_doc = 5, jb_kind = JUpload, jb_attempt = 1\<rparr>], dp_objects = (\<lambda>_. None),
     dp_stores = \<lparr>st_coll = [], st_bm25 = None, st_file = NoFile\<rparr>\<rparr>"


subsection \<open>Invariants of the documents\<close>

text \<open>
  A document is marked as started exactly while it is being indexed, and once indexed it is never
  pending or failed again.
\<close>

definition doc_inv :: "document \<Rightarrow> bool" where
  "doc_inv d \<longleftrightarrow> (dc_status d = DocIndexing \<longleftrightarrow> dc_started d \<noteq> None)
     \<and> (dc_indexed_at d \<noteq> None \<longrightarrow> dc_status d = DocActive \<or> dc_status d = DocIndexing)"

definition docs_ok :: "document list \<Rightarrow> bool" where
  "docs_ok docs \<longleftrightarrow> distinct (map dc_id docs) \<and> (\<forall>d \<in> set docs. doc_inv d)"

lemma set_doc_ok:
  assumes "docs_ok docs" "\<And>d. dc_id (f d) = dc_id d"
    "\<And>d. d \<in> set docs \<Longrightarrow> dc_id d = i \<Longrightarrow> doc_inv (f d)"
  shows "docs_ok (set_doc i f docs)"
  using assms by (auto simp: docs_ok_def set_doc_def map_set_row set_set_row)

lemma doc_getD: "doc_get i docs = Some d \<Longrightarrow> d \<in> set docs \<and> dc_id d = i"
  by (auto simp: doc_get_def dest: row_of_Some)

lemma doc_get_set_doc:
  "(\<And>d. dc_id (f d) = dc_id d) \<Longrightarrow>
   doc_get k (set_doc i f docs) = (if k = i then map_option f (doc_get i docs) else doc_get k docs)"
  by (simp add: doc_get_def set_doc_def row_of_set_row)

lemma doc_get_unique: "docs_ok docs \<Longrightarrow> d \<in> set docs \<Longrightarrow> doc_get (dc_id d) docs = Some d"
  by (simp add: doc_get_def docs_ok_def row_of_unique)

text \<open>Which documents a job may take, and what taking does.\<close>

definition claimable :: "job_kind \<Rightarrow> document \<Rightarrow> bool" where
  "claimable k d \<longleftrightarrow> dc_status d = DocPending \<or> dc_status d = DocFailed \<or> (k = JReindex \<and> dc_status d = DocActive)"

definition claim_mark :: "int \<Rightarrow> document \<Rightarrow> document" where
  "claim_mark now d = d\<lparr>dc_status := DocIndexing, dc_error := None, dc_started := Some now\<rparr>"

lemma claim_unfold:
  "claim_for_indexing i now (k = JReindex) docs =
    (list_ex (\<lambda>d. dc_id d = i \<and> claimable k d) docs,
     map (\<lambda>d. if dc_id d = i \<and> claimable k d then claim_mark now d else d) docs)"
proof -
  have hit: "dc_status d \<in> set ([DocPending, DocFailed] @ (if k = JReindex then [DocActive] else [])) \<longleftrightarrow> claimable k d"
    for d by (auto simp: claimable_def)
  show ?thesis by (simp only: claim_for_indexing_def Let_def hit claim_mark_def)
qed

lemma claim_eq:
  assumes "docs_ok docs"
  shows "claim_for_indexing i now (k = JReindex) docs =
    (case doc_get i docs of None \<Rightarrow> (False, docs)
     | Some d \<Rightarrow> if claimable k d then (True, set_doc i (claim_mark now) docs) else (False, docs))"
proof -
  have d: "distinct (map dc_id docs)" using assms by (simp add: docs_ok_def)
  show ?thesis
    by (simp add: claim_unfold cond_rows [OF d] doc_get_def set_doc_def split: option.split)
qed

lemma claim_mark_simps [simp]: "dc_id (claim_mark now d) = dc_id d"
  "dc_indexed_at (claim_mark now d) = dc_indexed_at d" "dc_status (claim_mark now d) = DocIndexing"
  "dc_chunks (claim_mark now d) = dc_chunks d" "dc_started (claim_mark now d) = Some now"
  by (simp_all add: claim_mark_def)

lemma claim_job_eq:
  assumes "docs_ok (docs_of dp)"
  shows "claim_job E j dp = (case doc_get (jb_doc j) (docs_of dp) of None \<Rightarrow> (None, dp)
    | Some d \<Rightarrow> if claimable (jb_kind j) d
        then (Some (claim_mark (wk_now E) d), with_docs (set_doc (jb_doc j) (claim_mark (wk_now E)) (docs_of dp)) dp)
        else (None, dp))"
  using assms by (auto simp: claim_job_def claim_eq doc_get_set_doc split: option.splits)

lemma claim_mark_inv: "doc_inv d \<Longrightarrow> claimable k d \<Longrightarrow> doc_inv (claim_mark now d)"
  by (auto simp: doc_inv_def claim_mark_def)

lemma claim_docs_ok:
  assumes "docs_ok docs"
  shows "docs_ok (snd (claim_for_indexing i now (k = JReindex) docs))"
proof (cases "\<exists>d. doc_get i docs = Some d \<and> claimable k d")
  case True
  then obtain d where d: "doc_get i docs = Some d" "claimable k d" by blast
  have "docs_ok (set_doc i (claim_mark now) docs)"
  proof (rule set_doc_ok [OF assms])
    fix x
    assume x: "x \<in> set docs" "dc_id x = i"
    then have "x = d" using doc_get_unique [OF assms, of x] d(1) by simp
    then show "doc_inv (claim_mark now x)" using d(2) x(1) assms by (auto simp: docs_ok_def claim_mark_inv)
  qed simp
  then show ?thesis by (simp add: claim_eq [OF assms] d)
next
  case False
  then show ?thesis using assms by (auto simp: claim_eq [OF assms] split: option.splits)
qed

text \<open>One worker's claim: the instant and the kind of its job.\<close>

definition index_try :: "int \<times> job_kind \<Rightarrow> uuid \<Rightarrow> document list \<Rightarrow> bool \<times> document list" where
  "index_try a i docs = claim_for_indexing i (fst a) (snd a = JReindex) docs"

interpretation index_claims:
  guarded_move dc_id index_try "\<lambda>a d. claimable (snd a) d" "\<lambda>a. claim_mark (fst a)" docs_ok
proof
  fix a :: "int \<times> job_kind" and b :: "int \<times> job_kind" and i j docs and d :: document
  show "docs_ok docs \<Longrightarrow> fst (index_try a i docs) \<longleftrightarrow> (\<exists>r. row_of dc_id i docs = Some r \<and> claimable (snd a) r)"
    by (auto simp: index_try_def claim_eq doc_get_def split: option.split)
  show "docs_ok docs \<Longrightarrow> row_of dc_id j (snd (index_try a i docs)) =
      (if j = i then map_option (\<lambda>r. if claimable (snd a) r then claim_mark (fst a) r else r) (row_of dc_id i docs)
       else row_of dc_id j docs)"
    using doc_get_set_doc [of "claim_mark (fst a)" j i docs]
    by (auto simp: index_try_def claim_eq doc_get_def split: option.split)
  show "docs_ok docs \<Longrightarrow> docs_ok (snd (index_try a i docs))"
    by (simp add: index_try_def claim_docs_ok)
  show "claimable (snd a) d \<Longrightarrow> \<not> claimable (snd b) (claim_mark (fst a) d)"
    by (simp add: claimable_def)
qed

text \<open>The whole job, by what it leaves of its document.\<close>

definition done_doc :: "int \<Rightarrow> nat \<Rightarrow> document \<Rightarrow> document" where
  "done_doc now n d = d\<lparr>dc_status := DocActive, dc_error := None, dc_chunks := n,
     dc_indexed_at := Some now, dc_started := None\<rparr>"

lemma done_doc_eq: "snd (update_status i DocActive (Some n) None now docs) = set_doc i (done_doc now n) docs"
  by (simp add: update_status_def Let_def done_doc_def [abs_def])

lemma set_doc_twice: "(\<And>d. dc_id (f d) = dc_id d) \<Longrightarrow> set_doc i g (set_doc i f docs) = set_doc i (g \<circ> f) docs"
  by (simp add: set_doc_def set_row_def)

lemma failed_doc_id [simp]: "dc_id (failed_doc j d e x) = dc_id x"
  by (simp add: failed_doc_def)

lemma done_doc_id [simp]: "dc_id (done_doc now n x) = dc_id x"
  by (simp add: done_doc_def)

lemma process_cases:
  assumes ok: "docs_ok (docs_of dp)" and run: "process_job E j dp = (out, dp')"
  shows "(docs_of dp' = docs_of dp \<and> dp_queue dp' = dp_queue dp
        \<and> (out = JSkipped \<and> (\<forall>d. doc_get (jb_doc j) (docs_of dp) = Some d \<longrightarrow> \<not> claimable (jb_kind j) d)
           \<or> wk_claim E \<noteq> None))
    \<or> (\<exists>d. doc_get (jb_doc j) (docs_of dp) = Some d \<and> claimable (jb_kind j) d \<and> wk_claim E = None
        \<and> ((\<exists>n. out = JSuccess \<and> dp_queue dp' = dp_queue dp
              \<and> docs_of dp' = set_doc (jb_doc j) (done_doc (wk_now E) n \<circ> claim_mark (wk_now E)) (docs_of dp))
         \<or> (\<exists>e. out = JRaised e \<and> wk_fail_db E \<noteq> None \<and> dp_queue dp' = dp_queue dp
              \<and> docs_of dp' = set_doc (jb_doc j) (claim_mark (wk_now E)) (docs_of dp))
         \<or> (\<exists>e. (out = JFailure \<or> wk_enqueue E \<noteq> None) \<and> wk_fail_db E = None
              \<and> docs_of dp' = set_doc (jb_doc j) (failed_doc j d (error_text e) \<circ> claim_mark (wk_now E)) (docs_of dp)
              \<and> dp_queue dp' = (if jb_attempt j < MAX_INDEX_ATTEMPTS \<and> wk_enqueue E = None
                   then [job_item (j\<lparr>jb_attempt := jb_attempt j + 1\<rparr>)] else []) @ dp_queue dp)))"
proof (cases "wk_claim E")
  case (Some e)
  then show ?thesis using run by (simp add: process_job_def)
next
  case None
  show ?thesis
  proof (cases "doc_get (jb_doc j) (docs_of dp)")
    case n: None
    then show ?thesis using run None by (simp add: process_job_def claim_job_eq [OF ok])
  next
    case (Some d)
    show ?thesis
    proof (cases "claimable (jb_kind j) d")
      case False
      then show ?thesis using run None Some by (simp add: process_job_def claim_job_eq [OF ok])
    next
      case True
      let ?m = "claim_mark (wk_now E)"
      let ?dp1 = "with_docs (set_doc (jb_doc j) ?m (docs_of dp)) dp"
      have c: "claim_job E j dp = (Some (?m d), ?dp1)" using Some True by (simp add: claim_job_eq [OF ok])
      obtain r s k dp2 where a: "index_attempt E j (?m d) ?dp1 = (r, s, k, dp2)" by (metis prod_cases4)
      note ar = attempt_reads [OF a]
      have id: "dc_id d = jb_doc j" using Some by (simp add: doc_getD)
      have fd: "failed_doc j (?m d) = failed_doc j d" by (simp add: failed_doc_def fun_eq_iff)
      show ?thesis
      proof (cases r)
        case (Inr n)
        then have "out = JSuccess" "dp' = dp2" using run None c a by (auto simp: process_job_def)
        then show ?thesis using Inr ar Some True None by (auto simp: done_doc_eq set_doc_twice)
      next
        case (Inl e)
        obtain q dp3 where h: "handle_failure E j (?m d) s k e dp2 = (q, dp3)" by fastforce
        have o: "out = (case q of None \<Rightarrow> JFailure | Some e' \<Rightarrow> JRaised e')" "dp' = dp3"
          using run None c a Inl h by (auto simp: process_job_def split: option.splits)
        from failure_reads [OF h] show ?thesis
        proof (elim disjE)
          assume "docs_of dp3 = docs_of dp2 \<and> dp_queue dp3 = dp_queue dp2 \<and> q \<noteq> None \<and> wk_fail_db E \<noteq> None"
          then have "\<exists>e. out = JRaised e \<and> wk_fail_db E \<noteq> None \<and> dp_queue dp' = dp_queue dp
              \<and> docs_of dp' = set_doc (jb_doc j) ?m (docs_of dp)"
            using o Inl ar by auto
          then show ?thesis using Some True None by blast
        next
          assume a: "docs_of dp3 = set_doc (dc_id (?m d)) (failed_doc j (?m d) (error_text e)) (docs_of dp2)
            \<and> (if jb_attempt j < MAX_INDEX_ATTEMPTS \<and> wk_enqueue E = None
              then dp_queue dp3 = job_item (j\<lparr>jb_attempt := jb_attempt j + 1\<rparr>) # dp_queue dp2
              else dp_queue dp3 = dp_queue dp2)
            \<and> (q = None \<or> wk_enqueue E \<noteq> None) \<and> wk_fail_db E = None"
          note f = a [THEN conjunct1] a [THEN conjunct2, THEN conjunct1]
            a [THEN conjunct2, THEN conjunct2, THEN conjunct1] a [THEN conjunct2, THEN conjunct2, THEN conjunct2]
          have "docs_of dp' = set_doc (jb_doc j) (failed_doc j d (error_text e) \<circ> ?m) (docs_of dp)"
            using f(1) ar Inl o(2) by (simp add: fd id set_doc_twice)
          moreover have "dp_queue dp' = (if jb_attempt j < MAX_INDEX_ATTEMPTS \<and> wk_enqueue E = None
              then [job_item (j\<lparr>jb_attempt := jb_attempt j + 1\<rparr>)] else []) @ dp_queue dp"
            using f(2) ar Inl o(2) by (simp split: if_splits)
          moreover have "out = JFailure \<or> wk_enqueue E \<noteq> None" using f(3) o(1) by auto
          ultimately show ?thesis using Some True None f(4) by blast
        qed
      qed
    qed
  qed
qed

lemma doc_get_pointwise:
  "doc_get i docs = Some d \<Longrightarrow> (\<And>x. dc_id (f x) = dc_id x) \<Longrightarrow> doc_get i (set_doc i f docs) = Some (f d)"
  by (simp add: doc_get_set_doc)

lemma length_error_text: "length (error_text e) \<le> 1000"
  by (cases e) (simp add: MAX_INDEX_ERROR_CHARS_def)



subsection \<open>Reachable depots\<close>

text \<open>Uploads and publications with a fresh identifier, re-index requests, worker turns, restarts.\<close>

inductive depot_step :: "'c depot \<Rightarrow> 'c depot \<Rightarrow> bool" where
  upload: "i \<notin> dc_id ` set (docs_of dp) \<Longrightarrow>
     depot_step dp (snd (upload_document C i now u title source name content dp))"
| reindex: "depot_step dp (snd (reindex_document C i now u dp))"
| work: "depot_step dp (index_queue_consumer E dp)"
| requeue: "depot_step dp (requeue_orphans now n dp)"
| publish: "i \<notin> dc_id ` set (docs_of dp) \<Longrightarrow>
     depot_step dp (snd (publish_document_bytes P i now title filename content source extra dp))"

inductive depot_reach :: "'c depot \<Rightarrow> 'c depot \<Rightarrow> bool" for dp0 where
  start: "depot_reach dp0 dp0"
| step: "depot_reach dp0 dp \<Longrightarrow> depot_step dp dp' \<Longrightarrow> depot_reach dp0 dp'"

inductive_cases depot_stepE: "depot_step dp dp'"

definition item_ok :: "queue_item \<Rightarrow> bool" where
  "item_ok it \<longleftrightarrow> (case item_job it of None \<Rightarrow> False | Some j \<Rightarrow> jb_attempt j \<le> MAX_INDEX_ATTEMPTS)"

definition depot_ok :: "'c depot \<Rightarrow> bool" where
  "depot_ok dp \<longleftrightarrow> docs_ok (docs_of dp) \<and> list_all item_ok (dp_queue dp)"

lemma item_ok_job: "1 \<le> jb_attempt j \<Longrightarrow> jb_attempt j \<le> MAX_INDEX_ATTEMPTS \<Longrightarrow> item_ok (job_item j)"
  by (simp add: item_ok_def)

lemma audit_document_reads [depot_simps, simp]:
  "docs_of (audit_document C now u a i det dp) = docs_of dp"
  "dp_queue (audit_document C now u a i det dp) = dp_queue dp"
  by (simp_all add: audit_document_def docs_of_def)

lemma docs_ok_append:
  "docs_ok docs \<Longrightarrow> dc_id d \<notin> dc_id ` set docs \<Longrightarrow> doc_inv d \<Longrightarrow> docs_ok (docs @ [d])"
  by (auto simp: docs_ok_def)

lemma docs_ok_delete: "docs_ok docs \<Longrightarrow> docs_ok (snd (doc_delete i docs))"
  by (auto simp: docs_ok_def doc_delete_def intro: distinct_map_filter)

lemma set_tags_inv [simp]: "doc_inv (set_tags t d) = doc_inv d" "dc_id (set_tags t d) = dc_id d"
  by (simp_all add: set_tags_def doc_inv_def)

lemma set_tags_ok: "docs_ok docs \<Longrightarrow> docs_ok (set_doc i (set_tags t) docs)"
  by (rule set_doc_ok) (auto simp: docs_ok_def)

lemma doc_create_ok:
  "docs_ok docs \<Longrightarrow> i \<notin> dc_id ` set docs \<Longrightarrow> doc_create i now t s p tags docs = (d, docs') \<Longrightarrow> docs_ok docs'"
  by (auto simp: doc_create_def Let_def doc_inv_def intro: docs_ok_append)

lemma process_docs_ok:
  assumes ok: "docs_ok (docs_of dp)"
  shows "docs_ok (docs_of (snd (process_job E j dp)))"
proof -
  obtain out dp' where r: "process_job E j dp = (out, dp')" by fastforce
  have unique: "x = d" if "doc_get (jb_doc j) (docs_of dp) = Some d" "x \<in> set (docs_of dp)" "dc_id x = jb_doc j" for x d
    using doc_get_unique [OF ok that(2)] that by simp
  have inv: "doc_inv x" if "x \<in> set (docs_of dp)" for x using ok that by (simp add: docs_ok_def)
  have fin: "docs_ok (set_doc (jb_doc j) (done_doc t n \<circ> claim_mark t) (docs_of dp))" for t n
    by (rule set_doc_ok [OF ok]) (auto simp: doc_inv_def done_doc_def)
  have mark: "docs_ok (set_doc (jb_doc j) (claim_mark t) (docs_of dp))" for t
    by (rule set_doc_ok [OF ok]) (auto simp: doc_inv_def)
  have fail: "docs_ok (set_doc (jb_doc j) (failed_doc j d e \<circ> claim_mark t) (docs_of dp))"
    if "doc_get (jb_doc j) (docs_of dp) = Some d" "claimable (jb_kind j) d" for d e t
  proof (rule set_doc_ok [OF ok])
    fix x assume x: "x \<in> set (docs_of dp)" "dc_id x = jb_doc j"
    then have "x = d" using unique [OF that(1)] by blast
    then have "jb_kind j = JReindex \<or> dc_indexed_at x = None"
      using inv [OF x(1)] that(2) by (auto simp: claimable_def doc_inv_def)
    then show "doc_inv ((failed_doc j d e \<circ> claim_mark t) x)"
      by (auto simp: doc_inv_def failed_doc_def)
  qed simp
  show ?thesis using process_cases [OF ok r] fin mark fail by (auto simp: r ok)
qed

lemma consumer_ok:
  assumes "depot_ok dp"
  shows "depot_ok (index_queue_consumer E dp)"
proof (cases "dp_queue dp = []")
  case True
  then show ?thesis using assms by (simp add: index_queue_consumer_def pop_index_job_def depot_ok_def)
next
  case False
  have b: "list_all item_ok (butlast (dp_queue dp))" "item_ok (last (dp_queue dp))"
    using assms False by (auto simp: depot_ok_def list_all_iff dest: in_set_butlastD)
  then obtain j where j: "item_job (last (dp_queue dp)) = Some j" by (auto simp: item_ok_def split: option.splits)
  let ?dp = "dp\<lparr>dp_queue := butlast (dp_queue dp)\<rparr>"
  have "docs_ok (docs_of ?dp)" using assms by (simp add: depot_ok_def)
  then have "docs_ok (docs_of (snd (process_job E j ?dp)))" by (rule process_docs_ok)
  moreover have "list_all item_ok (dp_queue (snd (process_job E j ?dp)))"
    using process_queue [of E j ?dp] b(1) by (auto simp: item_ok_job)
  ultimately show ?thesis using False j
    by (simp add: index_queue_consumer_def pop_index_job_def depot_ok_def)
qed

lemma upload_ok:
  assumes "depot_ok dp" "i \<notin> dc_id ` set (docs_of dp)"
  shows "depot_ok (snd (upload_document C i now u title source name content dp))"
proof -
  let ?fn = "if name = [] then asc ''upload.bin'' else name"
  obtain d key dp1 where p: "create_pending_document i now title source ?fn u dp = (d, key, dp1)"
    by (metis prod_cases3)
  have ok1: "docs_ok (docs_of dp1)" "dp_queue dp1 = dp_queue dp"
    using p assms by (auto simp: create_pending_document_def depot_ok_def Let_def split: prod.splits
        intro!: set_tags_ok dest: doc_create_ok)
  obtain pe dp2 where q: "put_document_bytes (ce_put C) key content dp1 = (pe, dp2)" by fastforce
  have ok2: "docs_ok (docs_of dp2)" "dp_queue dp2 = dp_queue dp"
    using put_bytes_reads [of "ce_put C" key content dp1] q ok1 by simp_all
  have cl: "depot_ok dp3" if "cleanup_staged_upload C i key st dp2 = (r, dp3)" for st r dp3
    using that ok2 assms(1)
    by (auto simp: cleanup_staged_upload_def depot_ok_def docs_ok_delete dest!: delete_bytesD
        split: prod.splits option.splits if_splits)
  have new: "item_ok (job_item \<lparr>jb_doc = i, jb_kind = JUpload, jb_attempt = INITIAL_INDEX_ATTEMPT\<rparr>)"
    by (rule item_ok_job) (simp_all add: INITIAL_INDEX_ATTEMPT_def MAX_INDEX_ATTEMPTS_def)
  have e: "upload_document C i now u title source name content dp =
     (if us_role u \<noteq> RAdmin \<and> us_role u \<noteq> RAgent then (ApiForbidden, dp)
      else case pe of
          Some e \<Rightarrow> (case cleanup_staged_upload C i key False dp2 of
             (Some e, dp2) \<Rightarrow> (ApiRaised e, dp2) | (None, dp2) \<Rightarrow> (ApiError ENQUEUE_FAILURE_MESSAGE, dp2))
        | None \<Rightarrow>
           (case ce_enqueue C of
              Some e \<Rightarrow> (case cleanup_staged_upload C i key True dp2 of
             (Some e, dp2) \<Rightarrow> (ApiRaised e, dp2) | (None, dp2) \<Rightarrow> (ApiError ENQUEUE_FAILURE_MESSAGE, dp2))
            | None \<Rightarrow> (ApiData d, audit_document C now u ''document.upload'' i
                [(''title'', JStr title), (''source'', case source of None \<Rightarrow> JNull | Some s \<Rightarrow> JStr s),
                 (''filename'', JStr ?fn), (''enqueued'', JBool True)]
                (dp2\<lparr>dp_queue := enqueue_index_job
                  \<lparr>jb_doc = i, jb_kind = JUpload, jb_attempt = INITIAL_INDEX_ATTEMPT\<rparr> (dp_queue dp2)\<rparr>))))"
    by (simp only: upload_document_def Let_def p q prod.case)
  show ?thesis
  proof (cases "us_role u \<noteq> RAdmin \<and> us_role u \<noteq> RAgent")
    case True
    then show ?thesis using assms(1) by (simp add: e)
  next
    case False
    obtain r1 d1 r2 d2 where c: "cleanup_staged_upload C i key False dp2 = (r1, d1)"
        "cleanup_staged_upload C i key True dp2 = (r2, d2)" by fastforce
    show ?thesis
      unfolding e if_not_P [OF False] c prod.case
      using cl [OF c(1)] cl [OF c(2)] ok2 assms(1) new
      by (simp add: depot_ok_def enqueue_index_job_def split: option.split)
  qed
qed

lemma reindex_ok:
  assumes "depot_ok dp"
  shows "depot_ok (snd (reindex_document C i now u dp))"
proof -
  have new: "item_ok (job_item \<lparr>jb_doc = i, jb_kind = k, jb_attempt = INITIAL_INDEX_ATTEMPT\<rparr>)" for k
    by (rule item_ok_job) (simp_all add: INITIAL_INDEX_ATTEMPT_def MAX_INDEX_ATTEMPTS_def)
  show ?thesis
    using assms set_tags_ok new
    by (auto simp: reindex_document_def Let_def depot_ok_def enqueue_index_job_def split: option.splits)
qed

lemma publish_ok:
  assumes "depot_ok dp" "i \<notin> dc_id ` set (docs_of dp)"
  shows "depot_ok (snd (publish_document_bytes P i now title filename content source extra dp))"
proof -
  let ?key = "build_storage_key i filename"
  let ?tags = "merge_tags [(''original_filename'', JStr filename)] extra"
  let ?f = "set_tags (merge_tags ?tags [(''storage_key'', JStr ?key)])"
  obtain d0 docs0 where c: "doc_create i now title source (Some filename) (Some ?tags) (docs_of dp) = (d0, docs0)"
    by fastforce
  define dp1 where "dp1 = with_docs (set_doc i ?f docs0) dp"
  have ok1: "depot_ok dp1"
    using assms c by (auto simp: depot_ok_def dp1_def intro!: set_tags_ok dest: doc_create_ok)
  obtain pe dp2 where q: "put_document_bytes (pb_put P) ?key content dp1 = (pe, dp2)" by fastforce
  have ok2: "depot_ok dp2"
    using put_bytes_reads [of "pb_put P" ?key content dp1] q ok1 by (simp add: depot_ok_def)
  have roll: "depot_ok dp4" if "publish_rollback P s ?key i dp3 = (r, dp4)" "depot_ok dp3" for s dp3 dp4 r
    using that
    by (auto simp: publish_rollback_def depot_ok_def docs_ok_delete dest!: delete_bytesD
        split: prod.splits option.splits if_splits)
  have fin: "docs_ok (set_doc i (done_doc t n) docs)" if "docs_ok docs" for t n docs
    by (rule set_doc_ok [OF that]) (auto simp: doc_inv_def done_doc_def)
  show ?thesis
    using ok1 ok2 roll fin [unfolded done_doc_def [abs_def]]
    by (auto simp: publish_document_bytes_def c q dp1_def [symmetric] Let_def depot_ok_def update_status_def
        split: prod.splits option.splits sum.splits)
qed

text \<open>Putting candidates back keeps every identifier and indexing date.\<close>

definition dated :: "document list \<Rightarrow> (uuid \<times> int option) list" where
  "dated docs = map (\<lambda>d. (dc_id d, dc_indexed_at d)) docs"

lemma dated_set_doc:
  "(\<And>d. dc_id (f d) = dc_id d \<and> dc_indexed_at (f d) = dc_indexed_at d) \<Longrightarrow> dated (set_doc i f docs) = dated docs"
  by (simp add: dated_def set_doc_def set_row_def)

lemma requeue_doc_dated: "dated (requeue_doc now d docs) = dated docs"
  by (auto simp: requeue_doc_def restore_active_def update_status_def Let_def intro!: dated_set_doc)

lemma requeue_doc_ok:
  assumes ok: "docs_ok docs" and d: "(dc_id d, dc_indexed_at d) \<in> set (dated docs)"
  shows "docs_ok (requeue_doc now d docs)"
proof -
  have date: "dc_indexed_at x = dc_indexed_at d" if "x \<in> set docs" "dc_id x = dc_id d" for x
  proof -
    obtain y where y: "y \<in> set docs" "dc_id y = dc_id d" "dc_indexed_at y = dc_indexed_at d"
      using d by (auto simp: dated_def)
    have "x = y" using doc_get_unique [OF ok that(1)] doc_get_unique [OF ok y(1)] that(2) y(2) by simp
    then show ?thesis using y(3) by simp
  qed
  have "docs_ok (set_doc (dc_id d) f docs)"
    if "\<And>x. dc_id (f x) = dc_id x \<and> dc_status (f x) \<noteq> DocIndexing \<and> dc_started (f x) = None
          \<and> dc_indexed_at (f x) = dc_indexed_at x"
      "dc_indexed_at d = None \<or> (\<forall>x. dc_status (f x) = DocActive)" for f
    by (rule set_doc_ok [OF ok]) (use that date in \<open>auto simp: doc_inv_def\<close>)
  then show ?thesis
    using ok by (auto simp: requeue_doc_def restore_active_def update_status_def Let_def requeue_kind_def
        is_reindex_def)
qed

lemma requeue_fold_ok:
  "docs_ok docs \<Longrightarrow> (\<forall>d \<in> set ds. (dc_id d, dc_indexed_at d) \<in> set (dated docs))
   \<Longrightarrow> docs_ok (fold (requeue_doc now) ds docs)"
proof (induction ds arbitrary: docs)
  case (Cons d ds)
  then show ?case using requeue_doc_ok [of docs d now] by (simp add: requeue_doc_dated)
qed simp

lemma requeue_ok:
  assumes "depot_ok dp"
  shows "depot_ok (requeue_orphans now n dp)"
proof -
  let ?c = "list_requeue_candidates STALE_INDEXING_REQUEUE_MINUTES now (docs_of dp)"
  have c: "\<forall>d \<in> set ?c. (dc_id d, dc_indexed_at d) \<in> set (dated (docs_of dp))"
    by (auto simp: list_requeue_candidates_def dated_def)
  have "list_all item_ok (fold enqueue_index_job js q)"
    if "list_all item_ok q" "\<forall>j \<in> set js. jb_attempt j = INITIAL_INDEX_ATTEMPT" for js q
    using that
  proof (induction js arbitrary: q)
    case (Cons j js)
    then have "item_ok (job_item j)"
      by (intro item_ok_job) (simp_all add: INITIAL_INDEX_ATTEMPT_def MAX_INDEX_ATTEMPTS_def)
    then show ?case using Cons by (simp add: enqueue_index_job_def)
  qed simp
  moreover have "\<forall>j \<in> set (take n (map (\<lambda>d. \<lparr>jb_doc = dc_id d, jb_kind = requeue_kind d,
      jb_attempt = INITIAL_INDEX_ATTEMPT\<rparr>) ?c)). jb_attempt j = INITIAL_INDEX_ATTEMPT"
    by (auto dest!: in_set_takeD)
  ultimately show ?thesis
    using assms requeue_fold_ok [OF _ c, of now]
    by (simp add: requeue_orphans_def Let_def depot_ok_def)
qed

lemma depot_step_ok: "depot_step dp dp' \<Longrightarrow> depot_ok dp \<Longrightarrow> depot_ok dp'"
  by (erule depot_stepE) (simp_all add: upload_ok reindex_ok consumer_ok requeue_ok publish_ok)

lemma depot_reach_ok: "depot_reach dp0 dp \<Longrightarrow> depot_ok dp0 \<Longrightarrow> depot_ok dp"
  by (induction rule: depot_reach.induct) (auto intro: depot_step_ok)

text \<open>
  C7: whatever the order of uploads, re-index requests, publications, worker turns and restarts,
  and whichever outside calls fail, from an empty depot: document identifiers stay unique, a
  document has a start time exactly while it is being indexed, a document that has been indexed
  is only ever active or being indexed, and every queued job is valid with an attempt of at most
  three.
\<close>

theorem depot_invariant:
  assumes "depot_reach dp0 dp" and "docs_of dp0 = []" and "dp_queue dp0 = []"
  shows "distinct (map dc_id (docs_of dp))
    \<and> (\<forall>d \<in> set (docs_of dp). (dc_started d \<noteq> None \<longleftrightarrow> dc_status d = DocIndexing)
        \<and> (dc_indexed_at d = None \<or> dc_status d = DocActive \<or> dc_status d = DocIndexing))
    \<and> (\<forall>it \<in> set (dp_queue dp). \<exists>j. item_job it = Some j \<and> 1 \<le> jb_attempt j \<and> jb_attempt j \<le> 3)"
proof -
  have "depot_ok dp0" by (simp add: depot_ok_def docs_ok_def assms(2,3))
  then have ok: "depot_ok dp" using assms(1) depot_reach_ok by blast
  have "\<exists>j. item_job it = Some j \<and> 1 \<le> jb_attempt j \<and> jb_attempt j \<le> 3" if "item_ok it" for it
    using that item_job_attempt by (auto simp: item_ok_def MAX_INDEX_ATTEMPTS_def split: option.splits)
  then show ?thesis using ok by (auto simp: depot_ok_def docs_ok_def doc_inv_def list_all_iff)
qed

theorem depot_invariant_witness:
  "\<exists>dp. depot_reach (sample_depot\<lparr>dp_world := empty_world, dp_queue := []\<rparr>) dp
     \<and> docs_of dp \<noteq> [] \<and> distinct (map dc_id (docs_of dp))"
proof -
  let ?fresh = "sample_depot\<lparr>dp_world := empty_world, dp_queue := []\<rparr>"
  let ?C = "\<lparr>ce_put = None, ce_delete = None, ce_enqueue = None, ce_audit_id = 0, ce_trace = ''''\<rparr>"
  let ?u = "\<lparr>us_id = 1, us_name = [], us_role = RAdmin, us_active = True\<rparr>"
  let ?dp = "snd (upload_document ?C 7 0 ?u (asc ''T'') None (asc ''a.txt'') (asc ''hi'') ?fresh)"
  have e: "docs_of ?fresh = []" "dp_queue ?fresh = []" by (simp_all add: docs_of_def empty_world_def)
  have r: "depot_reach ?fresh ?dp"
    by (rule depot_reach.step [OF depot_reach.start depot_step.upload]) (simp add: docs_of_def empty_world_def)
  have "docs_of ?dp \<noteq> []"
    by (simp add: upload_document_def create_pending_document_def doc_create_def Let_def
        put_document_bytes_def set_doc_def set_row_def e)
  then show ?thesis using depot_invariant [OF r e] r by blast
qed

end
