(* ===== verification/Gaps.thy ===== *)
theory Gaps
  imports Documents Grounding Harness Conversations
begin

text \<open>
  The knowledge-gap radar: \<open>knowledge/gap_recorder.py\<close>, \<open>repositories/knowledge_gap_repo.py\<close> and
  the endpoints of \<open>knowledge/router.py\<close> on gaps. Unicode normalization, lower-casing and SHA-256 are arguments.

  Lemmas: recording signals keeps one open gap per question hash and counts exactly; what kind of
  signal a turn gives; the ranking of related gaps.
\<close>

subsection \<open>Signals\<close>

definition LOW_RRF_SCORE_THRESHOLD :: real where "LOW_RRF_SCORE_THRESHOLD = 8 / 1000"
definition LOW_RETRIEVAL_CONFIDENCE_THRESHOLD :: real where "LOW_RETRIEVAL_CONFIDENCE_THRESHOLD = 1 / 2"
definition MAX_GAP_QUESTION_CHARS :: nat where "MAX_GAP_QUESTION_CHARS = 500"
definition RELATED_GAPS_CANDIDATES :: nat where "RELATED_GAPS_CANDIDATES = 50"
definition RELATED_GAPS_TOP_N :: nat where "RELATED_GAPS_TOP_N = 5"
definition NEGATIVE_FEEDBACK_RATING :: int where "NEGATIVE_FEEDBACK_RATING = -1"

definition GAP_SIGNAL_KINDS :: "string list" where
  "GAP_SIGNAL_KINDS = [''clarify'', ''rag_refusal'', ''low_retrieval_score'', ''handoff'', ''negative_feedback'']"

definition REFUSAL_TEXTS :: "ustr list" where
  "REFUSAL_TEXTS = [NO_RESULTS_REFUSAL, REFUSAL_RESPONSE, fallback_response default_policy]"

record gap_signal =
  gs_kind :: string
  gs_question :: ustr
  gs_conv :: "uuid option"
  gs_message :: "uuid option"
  gs_intent :: "string option"

record turn_signal =
  ts_question :: ustr
  ts_response :: ustr
  ts_sources :: "source list"
  ts_trace :: trace
  ts_handoff :: bool
  ts_intent :: "string option"
  ts_conv :: "uuid option"
  ts_message :: "uuid option"

definition detect_rag_signal :: "turn_signal \<Rightarrow> string option" where
  "detect_rag_signal ctx =
     (if ''weak_retrieval_refusal'' \<in> set (flags_of (ts_trace ctx)) then Some ''rag_refusal''
      else if ts_sources ctx = [] \<or> strip (ts_response ctx) \<in> set REFUSAL_TEXTS then Some ''rag_refusal''
      else case t_retrieval_confidence (ts_trace ctx) of
        Some c \<Rightarrow> if c < LOW_RETRIEVAL_CONFIDENCE_THRESHOLD then Some ''low_retrieval_score'' else None
      | None \<Rightarrow> if max_of (map s_score (ts_sources ctx)) < LOW_RRF_SCORE_THRESHOLD
          then Some ''low_retrieval_score'' else None)"

definition detect_signal_kind :: "turn_signal \<Rightarrow> string option" where
  "detect_signal_kind ctx =
     (if t_route (ts_trace ctx) = Some ''clarify'' then Some ''clarify''
      else if t_route (ts_trace ctx) = Some ''rag'' then detect_rag_signal ctx
      else if ts_handoff ctx then Some ''handoff''
      else None)"

subsection \<open>Questions\<close>

text \<open>\<open>re.sub(r"\s+", " ", s)\<close>.\<close>

function collapse_spaces :: "ustr \<Rightarrow> ustr" where
  "collapse_spaces [] = []"
| "collapse_spaces (c # s) =
     (if is_space c then 32 # collapse_spaces (dropWhile is_space s) else c # collapse_spaces s)"
  by pat_completeness auto
termination
  by (relation "measure length") (auto simp: le_imp_less_Suc length_dropWhile_le)

text \<open>The compatibility normalization and the lower-casing of all of Unicode are arguments.\<close>

definition normalize_question :: "(ustr \<Rightarrow> ustr) \<Rightarrow> (ustr \<Rightarrow> ustr) \<Rightarrow> ustr \<Rightarrow> ustr" where
  "normalize_question nfkc lowercase q =
     take MAX_GAP_QUESTION_CHARS (collapse_spaces (strip (lowercase (nfkc q))))"

text \<open>\<open>None\<close> when the question cannot be encoded.\<close>

definition hash_question :: "(bytes \<Rightarrow> ustr) \<Rightarrow> ustr \<Rightarrow> ustr option" where
  "hash_question sha256 qn = map_option sha256 (utf8_encode qn)"

subsection \<open>Repository\<close>

text \<open>The partial unique index on the hash of open gaps.\<close>

definition gap_slot :: "gap \<Rightarrow> ustr option" where
  "gap_slot g = (if gp_status g = GOpen then Some (gp_hash g) else None)"

definition bump :: "string \<Rightarrow> (string \<times> nat) list \<Rightarrow> (string \<times> nat) list" where
  "bump kind signals = AList.update kind (or_else (map_of signals kind) 0 + 1) signals"

definition gap_hit :: "int \<Rightarrow> gap_signal \<Rightarrow> gap \<Rightarrow> gap" where
  "gap_hit now s g = g\<lparr>gp_frequency := gp_frequency g + 1, gp_question := gs_question s,
     gp_intent := (case gs_intent s of None \<Rightarrow> gp_intent g | Some i \<Rightarrow> Some i),
     gp_signals := bump (gs_kind s) (gp_signals g), gp_updated := now\<rparr>"

text \<open>\<open>INSERT ... ON CONFLICT DO UPDATE\<close> on that index.\<close>

definition gap_record :: "uuid \<Rightarrow> int \<Rightarrow> gap_signal \<Rightarrow> ustr \<Rightarrow> ustr \<Rightarrow> gap list \<Rightarrow> gap list" where
  "gap_record i now s qn hash rows =
     (if list_ex (\<lambda>g. gap_slot g = Some hash) rows
      then map (\<lambda>g. if gap_slot g = Some hash then gap_hit now s g else g) rows
      else rows @ [\<lparr>gp_id = i, gp_question = gs_question s, gp_norm = qn, gp_hash = hash,
        gp_status = GOpen, gp_frequency = 1, gp_signals = [(gs_kind s, 1)], gp_intent = gs_intent s,
        gp_conv = gs_conv s, gp_message = gs_message s, gp_doc = None, gp_created = now, gp_updated = now\<rparr>])"

text \<open>An unknown order falls back to the frequency.\<close>

definition gap_order :: "string \<Rightarrow> gap \<Rightarrow> int" where
  "gap_order order g = (if order = ''updated_at'' then gp_updated g
     else if order = ''created_at'' then gp_created g else int (gp_frequency g))"

definition list_gaps :: "gap_status option \<Rightarrow> string \<Rightarrow> nat \<Rightarrow> nat \<Rightarrow> gap list \<Rightarrow> gap list" where
  "list_gaps st order limit offset rows = page limit offset (newest_first (gap_order order)
     (newest_first gp_updated (filter (\<lambda>g. st = None \<or> Some (gp_status g) = st) rows)))"

definition count_gaps :: "gap_status option \<Rightarrow> gap list \<Rightarrow> nat" where
  "count_gaps st rows = length (filter (\<lambda>g. st = None \<or> Some (gp_status g) = st) rows)"

definition gap_get :: "uuid \<Rightarrow> gap list \<Rightarrow> gap option" where
  "gap_get i rows = row_of gp_id i rows"

definition gap_set_status :: "uuid \<Rightarrow> gap_status \<Rightarrow> gap list \<Rightarrow> gap option \<times> gap list" where
  "gap_set_status i st rows = (map_option (\<lambda>g. g\<lparr>gp_status := st\<rparr>) (gap_get i rows),
     set_row gp_id i (\<lambda>g. g\<lparr>gp_status := st\<rparr>) rows)"

definition list_open_by_frequency :: "nat \<Rightarrow> gap list \<Rightarrow> gap list" where
  "list_open_by_frequency limit rows =
     take limit (newest_first (\<lambda>g. int (gp_frequency g)) (filter (\<lambda>g. gp_status g = GOpen) rows))"

subsection \<open>Recording\<close>

text \<open>
  Best effort: a signal that cannot be written is dropped. \<open>gn_db\<close> says whether the database
  takes the write and \<open>gn_lookup\<close> whether it answers the look-up of the question; \<open>gn_id\<close> and
  \<open>gn_now\<close> are those of a new row.
\<close>

record gap_env =
  gn_nfkc :: "ustr \<Rightarrow> ustr"
  gn_lower :: "ustr \<Rightarrow> ustr"
  gn_sha :: "bytes \<Rightarrow> ustr"
  gn_db :: bool
  gn_lookup :: bool
  gn_id :: uuid
  gn_now :: int

definition gap_key :: "gap_env \<Rightarrow> gap_signal \<Rightarrow> ustr option" where
  "gap_key E s =
     (let qn = normalize_question (gn_nfkc E) (gn_lower E) (gs_question s) in
      if qn = [] \<or> gs_kind s \<notin> set GAP_SIGNAL_KINDS then None else hash_question (gn_sha E) qn)"

definition record_gap :: "gap_env \<Rightarrow> gap_signal \<Rightarrow> gap list \<Rightarrow> gap list" where
  "record_gap E s rows =
     (case gap_key E s of
        None \<Rightarrow> rows
      | Some hash \<Rightarrow> if \<not> gn_db E then rows
          else gap_record (gn_id E) (gn_now E) s (normalize_question (gn_nfkc E) (gn_lower E) (gs_question s)) hash rows)"

definition maybe_record_gap_from_turn :: "gap_env \<Rightarrow> turn_signal \<Rightarrow> gap list \<Rightarrow> gap list" where
  "maybe_record_gap_from_turn E ctx rows =
     (case detect_signal_kind ctx of None \<Rightarrow> rows
      | Some k \<Rightarrow> record_gap E \<lparr>gs_kind = k, gs_question = ts_question ctx, gs_conv = ts_conv ctx,
          gs_message = ts_message ctx, gs_intent = ts_intent ctx\<rparr> rows)"

definition record_negative_feedback_gap ::
  "gap_env \<Rightarrow> message \<Rightarrow> int \<Rightarrow> message list \<Rightarrow> gap list \<Rightarrow> gap list" where
  "record_negative_feedback_gap E m rating msgs rows =
     (if rating \<noteq> NEGATIVE_FEEDBACK_RATING \<or> \<not> gn_lookup E then rows
      else case preceding_user_message (ms_id m) msgs of None \<Rightarrow> rows
        | Some q \<Rightarrow> record_gap E \<lparr>gs_kind = ''negative_feedback'', gs_question = ms_content q,
            gs_conv = Some (ms_conv m), gs_message = Some (ms_id m), gs_intent = ms_intent m\<rparr> rows)"

subsection \<open>Endpoints\<close>

definition not_found :: "string \<Rightarrow> exn" where
  "not_found s = Exn ''NotFoundError'' (asc s)"

definition UNPROCESSABLE :: exn where "UNPROCESSABLE = Exn ''RequestValidationError'' []"

definition list_gaps_endpoint ::
  "user \<Rightarrow> gap_status \<Rightarrow> string \<Rightarrow> nat \<Rightarrow> nat \<Rightarrow> gap list \<Rightarrow> (gap list \<times> nat \<times> nat) api" where
  "list_gaps_endpoint u st order limit offset rows =
     (if \<not> is_staff u then ApiForbidden
      else if limit = 0 \<or> 100 < limit then ApiRaised UNPROCESSABLE
      else ApiData (list_gaps (Some st) order limit offset rows, count_gaps (Some st) rows, offset div limit + 1))"

definition get_gap :: "user \<Rightarrow> uuid \<Rightarrow> gap list \<Rightarrow> gap api" where
  "get_gap u i rows =
     (if \<not> is_staff u then ApiForbidden
      else case gap_get i rows of None \<Rightarrow> ApiRaised (not_found ''Knowledge gap not found'') | Some g \<Rightarrow> ApiData g)"

text \<open>Only \<open>dismissed\<close> is accepted; the current status is not looked at.\<close>

definition update_gap :: "user \<Rightarrow> uuid \<Rightarrow> gap_status \<Rightarrow> gap list \<Rightarrow> gap api \<times> gap list" where
  "update_gap u i st rows =
     (if us_role u \<noteq> RAdmin then (ApiForbidden, rows)
      else if st \<noteq> GDismissed then (ApiRaised UNPROCESSABLE, rows)
      else case gap_set_status i st rows of
          (None, _) \<Rightarrow> (ApiRaised (not_found ''Knowledge gap not found''), rows)
        | (Some g, rows') \<Rightarrow> (ApiData g, rows'))"

fun dot :: "real list \<Rightarrow> real list \<Rightarrow> real" where
  "dot (x # xs) (y # ys) = x * y + dot xs ys"
| "dot _ _ = 0"

definition cosine :: "real list \<Rightarrow> real list \<Rightarrow> real" where
  "cosine a b = (let na = sqrt (dot a a); nb = sqrt (dot b b) in
     if na = 0 \<or> nb = 0 then 0 else dot a b / (na * nb))"

text \<open>A vector the embedder did not return is an \<open>IndexError\<close>.\<close>

definition rank_related ::
  "(ustr list \<Rightarrow> exn + real list list) \<Rightarrow> gap \<Rightarrow> gap list \<Rightarrow> exn + (gap \<times> real) list" where
  "rank_related emb g peers =
     (if peers = [] then Inr []
      else case emb (gp_norm g # map gp_norm peers) of
        Inl e \<Rightarrow> Inr []
      | Inr vecs \<Rightarrow>
          if length vecs \<le> length peers then Inl (Exn ''IndexError'' [])
          else Inr (map (\<lambda>p. (fst p, round4 (snd p))) (take RELATED_GAPS_TOP_N
            (sort_desc snd (map (\<lambda>(peer, v). (peer, cosine (vecs ! 0) v)) (zip peers (tl vecs)))))))"

definition get_related_gaps ::
  "(ustr list \<Rightarrow> exn + real list list) \<Rightarrow> user \<Rightarrow> uuid \<Rightarrow> gap list \<Rightarrow> (gap \<times> real) list api" where
  "get_related_gaps emb u i rows =
     (if \<not> is_staff u then ApiForbidden
      else case gap_get i rows of
        None \<Rightarrow> ApiRaised (not_found ''Knowledge gap not found'')
      | Some g \<Rightarrow>
          (case rank_related emb g (filter (\<lambda>p. gp_id p \<noteq> gp_id g)
                (list_open_by_frequency RELATED_GAPS_CANDIDATES rows)) of
             Inl e \<Rightarrow> ApiRaised e | Inr rs \<Rightarrow> ApiData rs))"

subsection \<open>Recording counts exactly\<close>

definition open_gap :: "ustr \<Rightarrow> gap list \<Rightarrow> gap option" where
  "open_gap h rows = find (\<lambda>g. gap_slot g = Some h) rows"

definition gap_frequency :: "ustr \<Rightarrow> gap list \<Rightarrow> nat" where
  "gap_frequency h rows = (case open_gap h rows of None \<Rightarrow> 0 | Some g \<Rightarrow> gp_frequency g)"

definition gap_count :: "ustr \<Rightarrow> string \<Rightarrow> gap list \<Rightarrow> nat" where
  "gap_count h k rows = (case open_gap h rows of None \<Rightarrow> 0 | Some g \<Rightarrow> or_else (map_of (gp_signals g) k) 0)"

lemma gap_slot_hit [simp]: "gap_slot (gap_hit now s g) = gap_slot g"
  by (simp add: gap_slot_def gap_hit_def)

lemma open_gap_map:
  assumes "\<And>g. gap_slot (f g) = gap_slot g"
  shows "open_gap h (map (\<lambda>g. if gap_slot g = Some h' then f g else g) rows) =
     (if h = h' then map_option f (open_gap h rows) else open_gap h rows)"
  using assms by (induction rows) (auto simp: open_gap_def)

lemma open_gap_none: "open_gap h rows = None \<longleftrightarrow> \<not> list_ex (\<lambda>g. gap_slot g = Some h) rows"
  by (auto simp: open_gap_def find_None_iff' list_ex_iff)

lemma open_gap_snoc: "open_gap h (rows @ [g]) =
    (case open_gap h rows of None \<Rightarrow> if gap_slot g = Some h then Some g else None | Some x \<Rightarrow> Some x)"
  by (induction rows) (auto simp: open_gap_def)

lemma bump_count: "or_else (map_of (bump k sig) k') 0 = or_else (map_of sig k') 0 + (if k' = k then 1 else 0)"
  by (simp add: bump_def map_of_AList_update)

lemma gap_record_open:
  "open_gap h (gap_record i now s qn h' rows) =
    (if h \<noteq> h' then open_gap h rows
     else Some (case open_gap h rows of
         Some g \<Rightarrow> gap_hit now s g
       | None \<Rightarrow> \<lparr>gp_id = i, gp_question = gs_question s, gp_norm = qn, gp_hash = h,
           gp_status = GOpen, gp_frequency = 1, gp_signals = [(gs_kind s, 1)], gp_intent = gs_intent s,
           gp_conv = gs_conv s, gp_message = gs_message s, gp_doc = None, gp_created = now, gp_updated = now\<rparr>))"
proof (cases "open_gap h' rows")
  case None
  then show ?thesis
    using open_gap_none [of h' rows]
    by (simp add: gap_record_def open_gap_snoc gap_slot_def split: option.split)
next
  case (Some g)
  then have "list_ex (\<lambda>g. gap_slot g = Some h') rows" using open_gap_none [of h' rows] by auto
  then show ?thesis using Some by (simp add: gap_record_def open_gap_map)
qed

lemma gap_record_uniq: "uniq_on gap_slot rows \<Longrightarrow> uniq_on gap_slot (gap_record i now s qn h rows)"
proof -
  assume u: "uniq_on gap_slot rows"
  have m: "uniq_on gap_slot (map (\<lambda>g. if gap_slot g = Some h then gap_hit now s g else g) rows)"
    by (rule uniq_on_map [OF u]) auto
  show ?thesis
  proof (cases "list_ex (\<lambda>g. gap_slot g = Some h) rows")
    case True
    then show ?thesis using m by (simp add: gap_record_def)
  next
    case False
    then show ?thesis using u by (simp add: gap_record_def uniq_on_append gap_slot_def list_ex_iff)
  qed
qed

lemma gap_record_closed:
  "filter (\<lambda>g. gp_status g \<noteq> GOpen) (gap_record i now s qn h rows) = filter (\<lambda>g. gp_status g \<noteq> GOpen) rows"
proof -
  have "filter (\<lambda>g. gp_status g \<noteq> GOpen) (map (\<lambda>g. if gap_slot g = Some h then gap_hit now s g else g) rows)
      = filter (\<lambda>g. gp_status g \<noteq> GOpen) rows"
    by (induction rows) (auto simp: gap_hit_def gap_slot_def)
  then show ?thesis by (simp add: gap_record_def)
qed

text \<open>The signals of a history that are written, for one hash.\<close>

definition counted :: "ustr \<Rightarrow> gap_env \<times> gap_signal \<Rightarrow> bool" where
  "counted h es \<longleftrightarrow> gn_db (fst es) \<and> gap_key (fst es) (snd es) = Some h"

definition record_all :: "(gap_env \<times> gap_signal) list \<Rightarrow> gap list \<Rightarrow> gap list" where
  "record_all hist rows = fold (\<lambda>es. record_gap (fst es) (snd es)) hist rows"

lemma record_gap_step:
  "gap_frequency h (record_gap E s rows) = gap_frequency h rows + (if counted h (E, s) then 1 else 0)"
  "gap_count h k (record_gap E s rows) = gap_count h k rows + (if counted h (E, s) \<and> gs_kind s = k then 1 else 0)"
  by (auto simp: record_gap_def counted_def gap_frequency_def gap_count_def gap_record_open gap_hit_def
      bump_count split: option.splits)

lemma record_gap_keeps:
  "uniq_on gap_slot rows \<Longrightarrow> uniq_on gap_slot (record_gap E s rows)"
  "filter (\<lambda>g. gp_status g \<noteq> GOpen) (record_gap E s rows) = filter (\<lambda>g. gp_status g \<noteq> GOpen) rows"
  by (auto simp: record_gap_def gap_record_uniq gap_record_closed split: option.splits)

lemma record_all_counts:
  "gap_frequency h (record_all hist rows) = gap_frequency h rows + length (filter (counted h) hist)
   \<and> gap_count h k (record_all hist rows)
       = gap_count h k rows + length (filter (\<lambda>es. counted h es \<and> gs_kind (snd es) = k) hist)"
  by (induction hist arbitrary: rows) (auto simp: record_all_def record_gap_step)

lemma record_all_keeps:
  "uniq_on gap_slot rows \<Longrightarrow> uniq_on gap_slot (record_all hist rows)
     \<and> filter (\<lambda>g. gp_status g \<noteq> GOpen) (record_all hist rows) = filter (\<lambda>g. gp_status g \<noteq> GOpen) rows"
  by (induction hist arbitrary: rows) (auto simp: record_all_def record_gap_keeps)

text \<open>
  C30: the radar counts exactly. After any history of signals, from workers in any order, there
  is still at most one open gap for a question hash, its frequency has grown by the number of
  signals written for that hash, its count for each kind by those of that kind, and gaps that
  were promoted or dismissed are as they were. A signal without a question, of an unknown kind,
  or that the database refuses is the only kind that is not counted, and it changes nothing.
\<close>

theorem gaps_count:
  assumes "uniq_on gap_slot rows"
  shows "uniq_on gap_slot (record_all hist rows)
    \<and> gap_frequency h (record_all hist rows) = gap_frequency h rows + length (filter (counted h) hist)
    \<and> (\<forall>k. gap_count h k (record_all hist rows)
         = gap_count h k rows + length (filter (\<lambda>es. counted h es \<and> gs_kind (snd es) = k) hist))
    \<and> filter (\<lambda>g. gp_status g \<noteq> GOpen) (record_all hist rows) = filter (\<lambda>g. gp_status g \<noteq> GOpen) rows
    \<and> ((\<forall>es \<in> set hist. \<not> gn_db (fst es) \<or> gap_key (fst es) (snd es) = None) \<longrightarrow> record_all hist rows = rows)"
proof -
  have "record_all hist rows = rows" if "\<forall>es \<in> set hist. \<not> gn_db (fst es) \<or> gap_key (fst es) (snd es) = None"
    using that by (induction hist) (auto simp: record_all_def record_gap_def split: option.splits)
  then show ?thesis using record_all_counts [of h hist rows] record_all_keeps [OF assms] by blast
qed

theorem gaps_count_witness:
  "\<exists>h rows. rows = record_all
       [(\<lparr>gn_nfkc = id, gn_lower = lower, gn_sha = id, gn_db = True, gn_lookup = True, gn_id = 1, gn_now = 10\<rparr>,
         \<lparr>gs_kind = ''handoff'', gs_question = asc ''Hi  there'', gs_conv = None, gs_message = None, gs_intent = None\<rparr>),
        (\<lparr>gn_nfkc = id, gn_lower = lower, gn_sha = id, gn_db = True, gn_lookup = True, gn_id = 2, gn_now = 11\<rparr>,
         \<lparr>gs_kind = ''clarify'', gs_question = asc ''hi there'', gs_conv = None, gs_message = None, gs_intent = None\<rparr>)] []
     \<and> gap_frequency h rows = 2 \<and> gap_count h ''clarify'' rows = 1"
proof -
  let ?E = "\<lambda>i n. \<lparr>gn_nfkc = id, gn_lower = lower, gn_sha = id, gn_db = True, gn_lookup = True, gn_id = i, gn_now = n\<rparr>"
  let ?s = "\<lambda>k q. \<lparr>gs_kind = k, gs_question = q, gs_conv = None, gs_message = None, gs_intent = None\<rparr>"
  let ?h = "asc ''hi there''"
  let ?hist = "[(?E 1 10, ?s ''handoff'' (asc ''Hi  there'')), (?E 2 11, ?s ''clarify'' (asc ''hi there''))]"
  have k: "counted ?h (?E 1 10, ?s ''handoff'' (asc ''Hi  there''))" "counted ?h (?E 2 11, ?s ''clarify'' (asc ''hi there''))"
  proof -
    have c: "collapse_spaces (strip (lower (asc ''Hi  there''))) = ?h"
      "collapse_spaces (strip (lower ?h)) = ?h"
      by (simp_all add: asc_def lower_def lower_cp_def is_upper_ascii_def strip_def is_space_def)
    have u: "utf8_encode ?h = Some ?h" by (simp add: utf8_encode_def asc_def scalar_def utf8_char_def)
    have l: "length ?h \<le> MAX_GAP_QUESTION_CHARS" "?h \<noteq> []" by (simp_all add: MAX_GAP_QUESTION_CHARS_def asc_def)
    have kk: "''handoff'' \<in> set GAP_SIGNAL_KINDS" "''clarify'' \<in> set GAP_SIGNAL_KINDS"
      by (simp_all add: GAP_SIGNAL_KINDS_def)
    show "counted ?h (?E 1 10, ?s ''handoff'' (asc ''Hi  there''))" "counted ?h (?E 2 11, ?s ''clarify'' (asc ''hi there''))"
      using c u l kk by (simp_all add: counted_def gap_key_def normalize_question_def hash_question_def Let_def)
  qed
  have z: "gap_frequency ?h [] = 0" "gap_count ?h ''clarify'' [] = 0"
    by (simp_all add: gap_frequency_def gap_count_def open_gap_def)
  have "gap_frequency ?h (record_all ?hist []) = 2 \<and> gap_count ?h ''clarify'' (record_all ?hist []) = 1"
    using gaps_count [of "[]" ?hist ?h] k z by simp
  then show ?thesis by blast
qed

end
