(* ===== verification/Drafts.thy ===== *)
theory Drafts
  imports Gaps
begin

text \<open>
  Draft knowledge entries: \<open>repositories/knowledge_draft_repo.py\<close>, \<open>knowledge/draft_service.py\<close> and
  \<open>knowledge/router_drafts.py\<close>. The partial unique index on pending drafts interprets
  \<open>keyed_insert\<close>. An exception that leaves an endpoint rolls the database session back, while what
  was written to Chroma and MinIO stays.

  Lemmas: at most one pending draft for a gap; what approving does on every path, down to the
  chunks that become searchable.
\<close>

subsection \<open>Repository\<close>

definition draft_slot :: "draft \<Rightarrow> uuid option" where
  "draft_slot d = (if df_status d = DDraft then df_gap d else None)"

definition draft_insert :: "draft \<Rightarrow> draft list \<Rightarrow> draft list option" where
  "draft_insert d rows = insert_guarded draft_slot d rows"

interpretation dr: keyed_insert draft_insert draft_slot
  by (rule keyed_insertI) (simp add: draft_insert_def)

definition find_pending_by_gap :: "uuid option \<Rightarrow> draft list \<Rightarrow> draft option" where
  "find_pending_by_gap gap rows = (case gap of None \<Rightarrow> None
     | Some g \<Rightarrow> find (\<lambda>d. df_gap d = Some g \<and> df_status d = DDraft) rows)"

definition draft_get :: "uuid \<Rightarrow> draft list \<Rightarrow> draft option" where
  "draft_get i rows = row_of df_id i rows"

definition draft_create :: "draft \<Rightarrow> draft list \<Rightarrow> (exn + draft) \<times> draft list" where
  "draft_create d rows =
     (case draft_insert d rows of
        Some rows' \<Rightarrow>
          (case draft_get (df_id d) rows' of
             Some x \<Rightarrow> (Inr x, rows')
           | None \<Rightarrow> (Inl (Exn ''RuntimeError'' (asc ''draft_insert_lost_after_returning'')), rows'))
      | None \<Rightarrow>
          (case find_pending_by_gap (df_gap d) rows of
             Some x \<Rightarrow> (Inr x, rows)
           | None \<Rightarrow> (Inl (Exn ''RuntimeError'' (asc ''draft_create_conflict_unresolved'')), rows)))"

definition list_drafts :: "draft_status option \<Rightarrow> nat \<Rightarrow> nat \<Rightarrow> draft list \<Rightarrow> draft list" where
  "list_drafts st limit offset rows = page limit offset (newest_first df_created
     (filter (\<lambda>d. st = None \<or> Some (df_status d) = st) rows))"

definition count_drafts :: "draft_status option \<Rightarrow> draft list \<Rightarrow> nat" where
  "count_drafts st rows = length (filter (\<lambda>d. st = None \<or> Some (df_status d) = st) rows)"

definition update_body :: "uuid \<Rightarrow> ustr option \<Rightarrow> ustr option \<Rightarrow> draft list \<Rightarrow> draft option \<times> draft list" where
  "update_body i q a rows =
     (let f = (\<lambda>d. d\<lparr>df_question := or_else q (df_question d), df_answer := or_else a (df_answer d)\<rparr>)
      in (map_option f (draft_get i rows), set_row df_id i f rows))"

definition moved :: "draft_status \<Rightarrow> uuid option \<Rightarrow> ustr option \<Rightarrow> draft \<Rightarrow> draft" where
  "moved st reviewer note d = d\<lparr>df_status := st,
     df_reviewed_by := (case reviewer of None \<Rightarrow> df_reviewed_by d | Some r \<Rightarrow> Some r),
     df_note := (case note of None \<Rightarrow> df_note d | Some n \<Rightarrow> Some n)\<rparr>"

definition transition_status ::
  "uuid \<Rightarrow> draft_status \<Rightarrow> draft_status \<Rightarrow> uuid option \<Rightarrow> ustr option \<Rightarrow> draft list \<Rightarrow> draft option \<times> draft list" where
  "transition_status i from_st to_st reviewer note rows =
     (let hit = (\<lambda>d. df_id d = i \<and> df_status d = from_st);
          rows' = map (\<lambda>d. if hit d then moved to_st reviewer note d else d) rows
      in if list_ex hit rows then (draft_get i rows', rows') else (None, rows))"

subsection \<open>Material\<close>

definition MAX_TRANSCRIPT_CHARS :: nat where "MAX_TRANSCRIPT_CHARS = 8000"
definition MAX_DRAFT_ANSWER_CHARS :: nat where "MAX_DRAFT_ANSWER_CHARS = 20000"
definition DOCUMENT_TITLE_MAX_CHARS :: nat where "DOCUMENT_TITLE_MAX_CHARS = 255"
definition TRANSCRIPT_LIMIT :: nat where "TRANSCRIPT_LIMIT = 50"

definition KB_DOC_SOURCE :: ustr where "KB_DOC_SOURCE = asc ''knowledge-loop''"
definition KB_TITLE_PREFIX :: ustr where "KB_TITLE_PREFIX = asc ''[KB] ''"

definition EMPTY_ANSWER_PLACEHOLDER :: ustr where
  "EMPTY_ANSWER_PLACEHOLDER = [65288, 24453, 34917, 20805, 65306, 35831, 22312, 35780, 23457, 26102, 22635, 20889, 31572, 26696, 20869, 23481,
     12290, 65289]"

definition DRAFT_SYNTHESIS_SYSTEM_PROMPT :: ustr where
  "DRAFT_SYNTHESIS_SYSTEM_PROMPT = asc (''You are a knowledge-base editor. Write a concise Q&A knowledge entry in markdown, ''
     @ ''grounded ONLY in the provided material. Answer in the same language as the question. ''
     @ ''Do not invent facts that are not in the material.'')"

definition synthesis_prompt :: "ustr \<Rightarrow> ustr \<Rightarrow> ustr" where
  "synthesis_prompt q material = asc ''### Question'' @ [10] @ q @ [10, 10]
     @ asc ''### Material'' @ [10] @ material @ [10, 10] @ asc ''### Task'' @ [10]
     @ asc ''Write the answer body (markdown, no title heading) for this question based only on the material.''"

record draft_source =
  dsrc_ticket :: "uuid option"
  dsrc_conv :: "uuid option"
  dsrc_manual :: "ustr option"
  dsrc_synthesize :: bool

text \<open>
  The model (\<open>None\<close> for an exception or a time-out), its name, and \<open>json.dumps\<close> of a ticket's
  content with \<open>ensure_ascii=False, indent=2\<close>.
\<close>

record draft_env =
  de_chat :: "history \<Rightarrow> ustr option"
  de_model :: ustr
  de_dumps :: "json \<Rightarrow> ustr"

definition ROLE_NAMES :: "(msg_role \<times> string) list" where
  "ROLE_NAMES = [(MUser, ''user''), (MAssistant, ''assistant''), (MSystem, ''system''), (MStaff, ''staff'')]"

text \<open>An empty JSON value counts as absent.\<close>

definition json_given :: "json \<Rightarrow> bool" where
  "json_given j = (case j of JNull \<Rightarrow> False | JBool b \<Rightarrow> b | JInt i \<Rightarrow> i \<noteq> 0 | JReal r \<Rightarrow> r \<noteq> 0
     | JStr s \<Rightarrow> s \<noteq> [] | JList xs \<Rightarrow> xs \<noteq> [] | JDict kvs \<Rightarrow> kvs \<noteq> [])"

definition ticket_material :: "draft_env \<Rightarrow> uuid \<Rightarrow> world \<Rightarrow> exn + ustr" where
  "ticket_material D i w =
     (case row_of tk_id i (w_tickets w) of
        None \<Rightarrow> Inl (not_found ''Source ticket not found'')
      | Some t \<Rightarrow> Inr (join [10, 10] ([asc ''## '' @ tk_title t]
          @ (if or_else (tk_desc t) [] = [] then [] else [or_else (tk_desc t) []])
          @ (case tk_content t of None \<Rightarrow> [] | Some c \<Rightarrow> if json_given c then [de_dumps D c] else []))))"

definition transcript_material :: "uuid \<Rightarrow> world \<Rightarrow> exn + ustr" where
  "transcript_material i w =
     (let ms = list_by_conversation i TRANSCRIPT_LIMIT (w_msgs w) in
      if ms = [] then Inl (not_found ''Source conversation has no messages'')
      else Inr (take MAX_TRANSCRIPT_CHARS (join [10]
        (map (\<lambda>m. asc (or_else (map_of ROLE_NAMES (ms_role m)) '''') @ asc '': '' @ ms_content m) ms))))"

definition assemble_material :: "draft_env \<Rightarrow> draft_source \<Rightarrow> world \<Rightarrow> exn + ustr" where
  "assemble_material D src w =
     (case dsrc_ticket src of Some i \<Rightarrow> ticket_material D i w
      | None \<Rightarrow> (case dsrc_conv src of Some i \<Rightarrow> transcript_material i w
        | None \<Rightarrow> Inr (if or_else (dsrc_manual src) [] = [] then EMPTY_ANSWER_PLACEHOLDER
            else or_else (dsrc_manual src) [])))"

definition synthesize :: "draft_env \<Rightarrow> ustr \<Rightarrow> ustr \<Rightarrow> ustr \<times> (string \<times> json) list" where
  "synthesize D q material =
     (let meta = (\<lambda>g. [(''model'', JStr (de_model D)), (''prompt_version'', JStr (asc ''kb-draft-v1'')),
            (''generated'', JBool g)])
      in case de_chat D [(asc ''system'', DRAFT_SYNTHESIS_SYSTEM_PROMPT),
            (asc ''user'', synthesis_prompt q (take MAX_TRANSCRIPT_CHARS material))] of
           Some answer \<Rightarrow> if strip answer \<noteq> [] then (answer, meta True) else (material, meta False)
         | None \<Rightarrow> (material, meta False))"

definition create_from_gap ::
  "draft_env \<Rightarrow> uuid \<Rightarrow> int \<Rightarrow> uuid \<Rightarrow> draft_source \<Rightarrow> uuid \<Rightarrow> world \<Rightarrow> (exn + draft) \<times> world" where
  "create_from_gap D i now gap_i src by_user w =
     (case gap_get gap_i (w_gaps w) of
        None \<Rightarrow> (Inl (not_found ''Knowledge gap not found''), w)
      | Some g \<Rightarrow>
         (case assemble_material D src w of
            Inl e \<Rightarrow> (Inl e, w)
          | Inr material \<Rightarrow>
              let (answer, meta) = (if dsrc_synthesize src
                    then (let (a, m) = synthesize D (gp_question g) material in (a, Some m)) else (material, None));
                  body = take MAX_DRAFT_ANSWER_CHARS answer;
                  (r, rows) = draft_create \<lparr>df_id = i, df_gap = Some gap_i, df_question = gp_question g,
                    df_answer = (if body = [] then EMPTY_ANSWER_PLACEHOLDER else body), df_status = DDraft,
                    df_ticket = dsrc_ticket src, df_conv = dsrc_conv src, df_synthesis = meta,
                    df_created_by = Some by_user, df_reviewed_by = None, df_doc = None, df_note = None,
                    df_created = now\<rparr> (w_drafts w)
              in (r, w\<lparr>w_drafts := rows\<rparr>)))"

text \<open>At most one of the three sources may be given.\<close>

definition single_material :: "draft_source \<Rightarrow> bool" where
  "single_material src \<longleftrightarrow> length (filter id [dsrc_ticket src \<noteq> None, dsrc_conv src \<noteq> None,
     or_else (dsrc_manual src) [] \<noteq> []]) \<le> 1"

fun finish_request :: "world \<Rightarrow> (exn + 'a) \<times> world \<Rightarrow> 'a api \<times> world" where
  "finish_request w0 (Inl e, w) = (ApiRaised e, w0)"
| "finish_request w0 (Inr x, w) = (ApiData x, w)"

definition create_draft_from_gap ::
  "draft_env \<Rightarrow> uuid \<Rightarrow> int \<Rightarrow> user \<Rightarrow> uuid \<Rightarrow> draft_source \<Rightarrow> world \<Rightarrow> draft api \<times> world" where
  "create_draft_from_gap D i now u gap_i src w =
     (if \<not> is_staff u then (ApiForbidden, w)
      else if \<not> single_material src then (ApiRaised UNPROCESSABLE, w)
      else finish_request w (create_from_gap D i now gap_i src (us_id u) w))"

subsection \<open>Review\<close>

definition render_draft_markdown :: "draft \<Rightarrow> ustr" where
  "render_draft_markdown d =
     (let provenance = [asc ''source: '' @ KB_DOC_SOURCE]
        @ (case df_gap d of None \<Rightarrow> [] | Some g \<Rightarrow> [asc ''gap: '' @ uuid_text g])
        @ (case df_ticket d of None \<Rightarrow> [] | Some t \<Rightarrow> [asc ''ticket: '' @ uuid_text t])
        @ (case df_conv d of None \<Rightarrow> [] | Some c \<Rightarrow> [asc ''conversation: '' @ uuid_text c])
      in join [10] [asc ''# '' @ df_question d, [], df_answer d, [], asc ''---'', [],
           join (asc '' | '') provenance, []])"

definition with_drafts :: "draft list \<Rightarrow> 'c depot \<Rightarrow> 'c depot" where
  "with_drafts rows dp = dp\<lparr>dp_world := (dp_world dp)\<lparr>w_drafts := rows\<rparr>\<rparr>"

definition promote_gap :: "uuid option \<Rightarrow> uuid \<Rightarrow> gap list \<Rightarrow> gap list" where
  "promote_gap gap_i doc rows = (case gap_i of None \<Rightarrow> rows
     | Some g \<Rightarrow> set_row gp_id g (\<lambda>x. x\<lparr>gp_status := GPromoted, gp_doc := Some doc\<rparr>) rows)"

definition approve_title :: "draft \<Rightarrow> ustr" where
  "approve_title d = take DOCUMENT_TITLE_MAX_CHARS (KB_TITLE_PREFIX @ df_question d)"

definition approve ::
  "'c publish_env \<Rightarrow> uuid \<Rightarrow> int \<Rightarrow> uuid \<Rightarrow> uuid \<Rightarrow> 'c depot \<Rightarrow> (exn + document) \<times> 'c depot" where
  "approve P new_doc now draft_i reviewer dp =
     (case draft_get draft_i (w_drafts (dp_world dp)) of
        None \<Rightarrow> (Inl (not_found ''Draft not found''), dp)
      | Some _ \<Rightarrow>
         (case transition_status draft_i DDraft DApproved (Some reviewer) None (w_drafts (dp_world dp)) of
            (None, rows) \<Rightarrow> (Inl (Exn ''ConflictError'' (asc ''Draft already reviewed'')), with_drafts rows dp)
          | (Some won, rows) \<Rightarrow>
             (case utf8_encode (render_draft_markdown won) of
                None \<Rightarrow> (Inl (Exn ''UnicodeEncodeError'' []), with_drafts rows dp)
              | Some content \<Rightarrow>
                 (case publish_document_bytes P new_doc now (approve_title won)
                        (asc ''kb-'' @ uuid_text draft_i @ asc ''.md'') content (Some KB_DOC_SOURCE)
                        [(''kb_draft_id'', JStr (uuid_text draft_i))] (with_drafts rows dp) of
                    (Inl (Exn cls msg), dp1) \<Rightarrow>
                      (Inl (Exn cls msg), if cls = ''PublishError''
                         then with_drafts (snd (transition_status draft_i DApproved DDraft None None
                                (w_drafts (dp_world dp1)))) dp1
                         else dp1)
                  | (Inr d, dp1) \<Rightarrow>
                      (Inr d, dp1\<lparr>dp_world := (dp_world dp1)\<lparr>
                         w_drafts := set_row df_id draft_i (\<lambda>x. x\<lparr>df_doc := Some (dc_id d)\<rparr>) (w_drafts (dp_world dp1)),
                         w_gaps := promote_gap (df_gap won) (dc_id d) (w_gaps (dp_world dp1))\<rparr>\<rparr>)))))"

definition reject :: "uuid \<Rightarrow> uuid \<Rightarrow> ustr option \<Rightarrow> world \<Rightarrow> (exn + draft) \<times> world" where
  "reject i reviewer note w =
     (case draft_get i (w_drafts w) of
        None \<Rightarrow> (Inl (not_found ''Draft not found''), w)
      | Some _ \<Rightarrow>
         (case transition_status i DDraft DRejected (Some reviewer) note (w_drafts w) of
            (None, rows) \<Rightarrow> (Inl (Exn ''ConflictError'' (asc ''Draft already reviewed'')), w\<lparr>w_drafts := rows\<rparr>)
          | (Some d, rows) \<Rightarrow> (Inr d, w\<lparr>w_drafts := rows\<rparr>)))"

subsection \<open>Endpoints\<close>

definition list_drafts_endpoint ::
  "user \<Rightarrow> draft_status \<Rightarrow> nat \<Rightarrow> nat \<Rightarrow> draft list \<Rightarrow> (draft list \<times> nat \<times> nat) api" where
  "list_drafts_endpoint u st limit offset rows =
     (if \<not> is_staff u then ApiForbidden
      else if limit = 0 \<or> 100 < limit then ApiRaised UNPROCESSABLE
      else ApiData (list_drafts (Some st) limit offset rows, count_drafts (Some st) rows, offset div limit + 1))"

definition get_draft :: "user \<Rightarrow> uuid \<Rightarrow> draft list \<Rightarrow> draft api" where
  "get_draft u i rows =
     (if \<not> is_staff u then ApiForbidden
      else case draft_get i rows of None \<Rightarrow> ApiRaised (not_found ''Draft not found'') | Some d \<Rightarrow> ApiData d)"

definition update_draft ::
  "user \<Rightarrow> uuid \<Rightarrow> ustr option \<Rightarrow> ustr option \<Rightarrow> draft list \<Rightarrow> draft api \<times> draft list" where
  "update_draft u i q a rows =
     (if \<not> is_staff u then (ApiForbidden, rows)
      else case draft_get i rows of
        None \<Rightarrow> (ApiRaised (not_found ''Draft not found''), rows)
      | Some d \<Rightarrow>
          if df_status d \<noteq> DDraft
          then (ApiRaised (Exn ''ConflictError'' (asc ''Only pending drafts can be edited'')), rows)
          else (case update_body i q a rows of
              (None, rows') \<Rightarrow> (ApiRaised (not_found ''Draft not found''), rows)
            | (Some x, rows') \<Rightarrow> (ApiData x, rows')))"

definition approve_draft ::
  "'c publish_env \<Rightarrow> uuid \<Rightarrow> int \<Rightarrow> user \<Rightarrow> uuid \<Rightarrow> 'c depot \<Rightarrow> document api \<times> 'c depot" where
  "approve_draft P new_doc now u i dp =
     (if us_role u \<noteq> RAdmin then (ApiForbidden, dp)
      else case approve P new_doc now i (us_id u) dp of
        (Inr d, dp1) \<Rightarrow> (ApiData d, dp1)
      | (Inl (Exn cls msg), dp1) \<Rightarrow>
          if cls = ''PublishError'' then (ApiError msg, dp1)
          else (ApiRaised (Exn cls msg), dp1\<lparr>dp_world := dp_world dp\<rparr>))"

definition reject_draft :: "user \<Rightarrow> uuid \<Rightarrow> ustr option \<Rightarrow> world \<Rightarrow> draft api \<times> world" where
  "reject_draft u i note w =
     (if us_role u \<noteq> RAdmin then (ApiForbidden, w) else finish_request w (reject i (us_id u) note w))"

subsection \<open>One pending draft for a gap\<close>

lemma find_pending_slot: "find_pending_by_gap (Some g) rows = find (\<lambda>d. draft_slot d = Some g) rows"
  by (auto simp: find_pending_by_gap_def draft_slot_def intro!: arg_cong [where f = "\<lambda>P. find P rows"])

lemma draft_create_one:
  assumes "uniq_on draft_slot rows" "draft_slot d = Some g" "df_id d \<notin> df_id ` set rows"
    and "draft_create d rows = (r, rows')"
  shows "uniq_on draft_slot rows' \<and> (\<exists>x \<in> set rows'. r = Inr x \<and> draft_slot x = Some g)"
proof (cases "draft_insert d rows")
  case None
  then obtain x where x: "x \<in> set rows" "draft_slot x = Some g" using dr.ins_None [of d rows] assms(2) by auto
  then obtain y where y: "find (\<lambda>d. draft_slot d = Some g) rows = Some y"
    using find_None_iff' [of "\<lambda>d. draft_slot d = Some g" rows] by (cases "find (\<lambda>d. draft_slot d = Some g) rows") auto
  have gap: "df_gap d = Some g" using assms(2) by (simp add: draft_slot_def split: if_splits)
  show ?thesis using assms(1,4) None hd_filter_find [OF y]
    by (simp add: draft_create_def gap find_pending_slot y) blast
next
  case (Some rows2)
  then have e: "rows2 = rows @ [d]" by (rule dr.ins_Some)
  have "row_of df_id (df_id d) rows = None" using assms(3) by (simp add: row_of_None)
  then have "draft_get (df_id d) rows2 = Some d" by (simp add: e draft_get_def row_of_append row_of_Cons)
  then show ?thesis using assms(2,4) Some dr.ins_uniq [OF Some assms(1)] by (auto simp: draft_create_def e)
qed

subsection \<open>Publishing a text\<close>

lemma chunks_nonempty:
  assumes "c \<in> set t" "\<not> is_space c"
  shows "chunk_paragraphs t sz ov \<noteq> []"
proof -
  obtain gs where gs: "concat gs = paragraphs t" "chunk_paragraphs t sz ov = with_overlap ov [] gs"
    using chunk_groups [of t "longest (paragraphs t)" sz ov] longest_ge by blast
  have "inked t \<noteq> []" using assms by (auto simp: inked_def filter_empty_conv)
  then have "paragraphs t \<noteq> []" using inked_paragraphs [of t] by auto
  then have "gs \<noteq> []" using gs(1) by auto
  then show ?thesis unfolding gs(2) by (cases gs) (simp_all add: Let_def)
qed

lemma hex_digits: "c \<in> set (hex n) \<Longrightarrow> (48 \<le> c \<and> c \<le> 57) \<or> (97 \<le> c \<and> c \<le> 102)"
proof (induction n rule: hex.induct)
  case (1 n)
  have d: "(48 \<le> hex_digit m \<and> hex_digit m \<le> 57) \<or> (97 \<le> hex_digit m \<and> hex_digit m \<le> 102)" if "m < 16" for m
    using that by (auto simp: hex_digit_def)
  have "n mod 16 < 16" by simp
  then show ?case using 1 d [of n] d [of "n mod 16"] by (subst (asm) hex.simps) (auto split: if_splits)
qed

lemma uuid_text_chars: "c \<in> set (uuid_text u) \<Longrightarrow> c = 45 \<or> (48 \<le> c \<and> c \<le> 57) \<or> (97 \<le> c \<and> c \<le> 102)"
  by (auto simp: uuid_text_def Let_def dest!: in_set_takeD in_set_dropD hex_digits)

lemma split_on_none: "c \<notin> set s \<Longrightarrow> split_on c s = [s]"
  by (induction s) auto

lemma find_last_index:
  assumes "x \<notin> set w"
  shows "find (\<lambda>i. (d @ x # w) ! i = x) (rev [0 ..< length (d @ x # w)]) = Some (length d)"
proof (rule find_rev_upt)
  fix i assume i: "length d < i" "i < length (d @ x # w)"
  then have "(d @ x # w) ! i = w ! (i - Suc (length d))" by (simp add: nth_append)
  moreover have "i - Suc (length d) < length w" using i by auto
  ultimately show "(d @ x # w) ! i \<noteq> x" using assms by (metis nth_mem)
qed (simp_all add: nth_append)

lemma path_suffix_plain:
  assumes "47 \<notin> set d" "d \<noteq> []" "46 \<notin> set w" "47 \<notin> set w" "w \<noteq> []"
  shows "path_suffix (d @ 46 # w) = 46 # w"
proof -
  have "path_name (d @ 46 # w) = d @ 46 # w"
    using assms by (simp add: path_name_def split_on_none asc_def append_eq_Cons_conv)
  moreover have "0 < length d" "length d < length (d @ 46 # w) - 1" using assms by (cases w; simp)+
  ultimately show ?thesis
    using find_last_index [OF assms(3), of d] by (simp add: path_suffix_def Let_def)
qed

text \<open>A markdown file of an encoded text is read back as that text.\<close>

lemma parse_md_file:
  assumes "utf8_encode t = Some bs" "t \<noteq> []" "47 \<notin> set d" "d \<noteq> []"
  shows "parse_file E (d @ asc ''.md'') (Some bs) = Inr t"
proof -
  have "path_suffix (d @ 46 # [109, 100]) = 46 # [109, 100]"
    by (rule path_suffix_plain) (use assms(3,4) in auto)
  then have s: "lower (path_suffix (d @ asc ''.md'')) = asc ''.md''"
    by (simp add: asc_def lower_def lower_cp_def is_upper_ascii_def)
  have "utf8_char c \<noteq> []" for c by (simp add: utf8_char_def)
  then have "bs \<noteq> []" using assms by (cases t) (auto simp: utf8_encode_def split: if_splits)
  moreover have "asc ''.md'' \<noteq> asc ''.pdf''" "asc ''.md'' \<noteq> asc ''.docx''" by (simp_all add: asc_def)
  ultimately show ?thesis
    by (simp add: parse_file_def s bytes_or_disk_def decode_strict_def utf8_roundtrip [OF assms(1)] Let_def)
qed

lemma parse_markdown:
  assumes "utf8_encode t = Some bs" "t \<noteq> []"
  shows "parse_file E (asc ''kb-'' @ uuid_text i @ asc ''.md'') (Some bs) = Inr t"
proof -
  have "47 \<notin> set (uuid_text i)" by (auto dest: uuid_text_chars)
  then show ?thesis using parse_md_file [OF assms, of "asc ''kb-'' @ uuid_text i" E] by (simp add: asc_def)
qed

text \<open>What publishing leaves alone, and what it leaves when it succeeds.\<close>

definition same_tables :: "'c depot \<Rightarrow> 'c depot \<Rightarrow> bool" where
  "same_tables dp dp' \<longleftrightarrow> dp_world dp' = (dp_world dp)\<lparr>w_docs := docs_of dp'\<rparr>"

lemma same_tablesI [intro]:
  "same_tables dp (with_docs docs dp)" "same_tables dp (dp\<lparr>dp_stores := st\<rparr>)"
  "same_tables dp (dp\<lparr>dp_objects := ob\<rparr>)" "same_tables dp dp"
  by (simp_all add: same_tables_def with_docs_def docs_of_def)

lemma same_tables_trans [trans]: "same_tables a b \<Longrightarrow> same_tables b c \<Longrightarrow> same_tables a c"
  by (simp add: same_tables_def)

lemma put_same: "put_document_bytes f k bs dp = (r, dp') \<Longrightarrow> same_tables dp dp' \<and> docs_of dp' = docs_of dp"
  by (auto simp: put_document_bytes_def split: option.splits)

lemma delete_same: "delete_document_bytes f k dp = (r, dp') \<Longrightarrow> same_tables dp dp' \<and> docs_of dp' = docs_of dp"
  by (auto simp: delete_document_bytes_def split: option.splits)

lemma rollback_same:
  assumes "publish_rollback P s k i dp = (r, dp')"
  shows "same_tables dp dp' \<and> docs_of dp' = (if r = None then filter (\<lambda>d. dc_id d \<noteq> i) (docs_of dp) else docs_of dp)"
proof -
  obtain a st where a: "(if s then delete_document (pb_index P) (uuid_text i) (dp_stores dp) else (None, dp_stores dp)) = (a, st)"
    by fastforce
  show ?thesis
  proof (cases a)
    case (Some e)
    then show ?thesis using assms a by (auto simp: publish_rollback_def)
  next
    case None
    obtain b dp1 where b: "delete_document_bytes (pb_delete P) k (dp\<lparr>dp_stores := st\<rparr>) = (b, dp1)" by fastforce
    have d: "same_tables dp dp1 \<and> docs_of dp1 = docs_of dp"
      using delete_same [OF b] same_tables_trans [of dp "dp\<lparr>dp_stores := st\<rparr>" dp1] by auto
    show ?thesis using assms a None b d same_tables_trans [of dp dp1]
      by (auto simp: publish_rollback_def doc_delete_def split: option.splits)
  qed
qed

definition rollback_up :: "'c publish_env \<Rightarrow> bool" where
  "rollback_up P \<longleftrightarrow> pb_delete P = None \<and> (\<forall>d c. fst (ch_delete_doc (xe_chroma (pb_index P)) d c) = None)"

lemma rollback_up_ok: "rollback_up P \<Longrightarrow> fst (publish_rollback P s k i dp) = None"
proof -
  assume u: "rollback_up P"
  have "fst (delete_document (pb_index P) d st) = None" for d st
  proof -
    obtain e c where "ch_delete_doc (xe_chroma (pb_index P)) d (st_coll st) = (e, c)" by fastforce
    moreover from this have "e = None" using u unfolding rollback_up_def by (metis fst_conv)
    ultimately show ?thesis by (simp add: delete_document_def delete_by_doc_id_def)
  qed
  then have "fst (if s then delete_document (pb_index P) (uuid_text i) (dp_stores dp) else (None, dp_stores dp)) = None"
    by simp
  then show ?thesis
    using u by (auto simp: publish_rollback_def rollback_up_def delete_document_bytes_def split: prod.splits option.splits)
qed

lemma set_doc_last:
  "i \<notin> dc_id ` set docs \<Longrightarrow> dc_id d = i \<Longrightarrow> set_doc i f (docs @ [d]) = docs @ [f d]"
proof -
  assume a: "i \<notin> dc_id ` set docs" "dc_id d = i"
  then have "\<forall>x \<in> set docs. dc_id x \<noteq> i" by (metis imageI)
  then show ?thesis using a(2) by (auto simp: set_doc_def set_row_def intro!: map_idI)
qed

lemma filter_last:
  "i \<notin> dc_id ` set docs \<Longrightarrow> dc_id d = i \<Longrightarrow> filter (\<lambda>d. dc_id d \<noteq> i) (docs @ [d]) = docs"
proof -
  assume a: "i \<notin> dc_id ` set docs" "dc_id d = i"
  then have "\<forall>x \<in> set docs. dc_id x \<noteq> i" by (metis imageI)
  then show ?thesis using a(2) by simp
qed

lemma publish_cases:
  assumes fresh: "i \<notin> dc_id ` set (docs_of dp)"
    and run: "publish_document_bytes P i now title filename content source extra dp = (r, dp')"
  shows "same_tables dp dp' \<and>
    (case r of
      Inl e \<Rightarrow> rollback_up P \<longrightarrow> docs_of dp' = docs_of dp
    | Inr d \<Rightarrow> docs_of dp' = docs_of dp @ [d] \<and> dc_id d = i \<and> dc_status d = DocActive \<and> dc_title d = title
        \<and> dc_source d = source
        \<and> (\<exists>n. index_document (pb_index P) (pb_ms P) (uuid_text i) filename (Some content) title source
              CHUNK_SIZE CHUNK_OVERLAP (dp_stores dp) = (Inr n, dp_stores dp')))"
proof -
  let ?key = "build_storage_key i filename"
  let ?tags = "merge_tags [(''original_filename'', JStr filename)] extra"
  let ?f = "set_tags (merge_tags ?tags [(''storage_key'', JStr ?key)])"
  obtain d0 where c: "doc_create i now title source (Some filename) (Some ?tags) (docs_of dp) = (d0, docs_of dp @ [d0])"
      and d0: "dc_id d0 = i" "dc_title d0 = title" "dc_source d0 = source"
    by (simp add: doc_create_def Let_def)
  have f: "dc_id (?f d0) = i" "dc_title (?f d0) = title" "dc_source (?f d0) = source"
    using d0 by (simp_all add: set_tags_def)
  have s: "set_doc i ?f (docs_of dp @ [d0]) = docs_of dp @ [?f d0]" by (rule set_doc_last [OF fresh d0(1)])
  define dp1 where "dp1 = with_docs (docs_of dp @ [?f d0]) dp"
  have st1: "same_tables dp dp1" "docs_of dp1 = docs_of dp @ [?f d0]" "dp_stores dp1 = dp_stores dp"
    by (auto simp: dp1_def)
  define fail where "fail = (\<lambda>service e dpx. case publish_rollback P service ?key i dpx of
              (Some e', dp2) \<Rightarrow> (Inl e', dp2) | (None, dp2) \<Rightarrow> (Inl (publish_error e) :: exn + document, dp2))"
  have F: "\<exists>x. r = Inl x \<and> same_tables dp dp' \<and> (rollback_up P \<longrightarrow> docs_of dp' = docs_of dp)"
    if "(r, dp') = fail sv e dpx" "same_tables dp dpx" "docs_of dpx = docs_of dp1" for sv e dpx
  proof -
    obtain b dp2 where b: "publish_rollback P sv ?key i dpx = (b, dp2)" by fastforce
    have "rollback_up P \<longrightarrow> b = None" using rollback_up_ok [of P sv ?key i dpx] b by simp
    then show ?thesis
      using that b rollback_same [OF b] same_tables_trans [OF that(2), of dp2] st1(2) filter_last [OF fresh f(1)]
      by (auto simp: fail_def split: option.splits)
  qed
  obtain pe dp2 where q: "put_document_bytes (pb_put P) ?key content dp1 = (pe, dp2)" by fastforce
  have st2: "same_tables dp dp2" "docs_of dp2 = docs_of dp1" "dp_stores dp2 = dp_stores dp"
    using put_same [OF q] same_tables_trans [OF st1(1), of dp2] q st1(3)
    by (auto simp: put_document_bytes_def split: option.splits)
  obtain x st where ix: "index_document (pb_index P) (pb_ms P) (uuid_text i) filename (Some content) title source
      CHUNK_SIZE CHUNK_OVERLAP (dp_stores dp2) = (x, st)" by fastforce
  define dp3 where "dp3 = dp2\<lparr>dp_stores := st\<rparr>"
  have st3: "same_tables dp dp3" "docs_of dp3 = docs_of dp1" "dp_stores dp3 = st"
    using st2 same_tables_trans [OF st2(1), of dp3] by (auto simp: dp3_def)
  have run': "(r, dp') = (case pb_setup P of Some e \<Rightarrow> fail False e dp1
      | None \<Rightarrow> (case pe of Some e \<Rightarrow> fail True e dp2
        | None \<Rightarrow> (case x of Inl e \<Rightarrow> fail True e dp3
          | Inr n \<Rightarrow> (let (od, docs) = update_status i DocActive (Some n) None now (docs_of dp3)
                 in (Inr (or_else od (?f d0)), with_docs docs dp3)))))"
    using run [symmetric] unfolding publish_document_bytes_def Let_def c prod.case s dp1_def [symmetric]
      q prod.case ix dp3_def [symmetric] fail_def by (simp split: option.splits sum.splits)
  show ?thesis
  proof (cases "pb_setup P \<noteq> None \<or> pe \<noteq> None \<or> (\<exists>e. x = Inl e)")
    case True
    then have "\<exists>sv e dpx. (r, dp') = fail sv e dpx \<and> same_tables dp dpx \<and> docs_of dpx = docs_of dp1"
      using run' st1 st2 st3 by (cases "pb_setup P"; cases pe; cases x) (simp_all, blast+)
    then show ?thesis using F by fastforce
  next
    case False
    then obtain n where n: "pb_setup P = None" "pe = None" "x = Inr n" by (cases x) auto
    let ?g = "\<lambda>d. d\<lparr>dc_status := DocActive, dc_error := None, dc_chunks := n, dc_indexed_at := Some now, dc_started := None\<rparr>"
    have u: "update_status i DocActive (Some n) None now (docs_of dp3) = (Some (?g (?f d0)), docs_of dp @ [?g (?f d0)])"
    proof -
      have "doc_get i (docs_of dp @ [?f d0]) = Some (?f d0)"
      proof -
        have "row_of dc_id i (docs_of dp) = None" using fresh by (simp add: row_of_None)
        then show ?thesis using f(1) by (simp add: doc_get_def row_of_append row_of_Cons)
      qed
      then show ?thesis
        using set_doc_last [OF fresh f(1), of ?g] by (simp add: update_status_def st3(2) st1(2))
    qed
    have "r = Inr (?g (?f d0))" "dp' = with_docs (docs_of dp @ [?g (?f d0)]) dp3"
      using run' n u by simp_all
    then show ?thesis
      using f st3 st2 ix n same_tables_trans [OF st3(1), of dp'] by auto
  qed
qed

subsection \<open>Approving\<close>

lemma transition_eq:
  assumes "distinct (map df_id rows)"
  shows "transition_status i a b rv note rows = (case draft_get i rows of None \<Rightarrow> (None, rows)
    | Some d \<Rightarrow> if df_status d = a then (Some (moved b rv note d), set_row df_id i (moved b rv note) rows)
        else (None, rows))"
  using row_of_set_row [of df_id "moved b rv note" i i rows]
  by (simp add: transition_status_def Let_def cond_rows [OF assms] draft_get_def moved_def split: option.split)

lemma moved_simps [simp]:
  "df_id (moved s r n d) = df_id d" "df_status (moved s r n d) = s" "df_gap (moved s r n d) = df_gap d"
  "df_question (moved s r n d) = df_question d" "df_answer (moved s r n d) = df_answer d"
  "df_doc (moved s r n d) = df_doc d"
  by (simp_all add: moved_def)

lemma render_moved [simp]: "render_draft_markdown (moved s r n d) = render_draft_markdown d"
  by (simp add: render_draft_markdown_def moved_def)

lemma approve_title_moved [simp]: "approve_title (moved s r n d) = approve_title d"
  by (simp add: approve_title_def)

lemma draft_get_set: "(\<And>d. df_id (f d) = df_id d) \<Longrightarrow>
    draft_get i (set_row df_id i f rows) = map_option f (draft_get i rows)"
  by (simp add: draft_get_def row_of_set_row)

lemma render_text: "35 \<in> set (render_draft_markdown d)"
  by (simp add: render_draft_markdown_def Let_def asc_def)

text \<open>The searchable chunks of a published draft are those of its markdown.\<close>

lemma published_chunks:
  assumes enc: "utf8_encode (render_draft_markdown d) = Some content"
    and ok: "chroma_ok (xe_chroma E) rows"
    and fresh: "row_id ` set (rows (st_coll st)) \<inter> range (chunk_ref doc now) = {}"
    and run: "index_document E now doc (asc ''kb-'' @ uuid_text i @ asc ''.md'') (Some content) ti so
      CHUNK_SIZE CHUNK_OVERLAP st = (Inr n, st')"
  shows "corpus (rows (st_coll st')) =
    (corpus (rows (st_coll st)))(doc := chunk_paragraphs (render_draft_markdown d) CHUNK_SIZE CHUNK_OVERLAP)"
proof -
  have ne: "render_draft_markdown d \<noteq> []" using render_text [of d] by auto
  have p: "parse_file (xe_parse E) (asc ''kb-'' @ uuid_text i @ asc ''.md'') (Some content) = Inr (render_draft_markdown d)"
    by (rule parse_markdown [OF enc ne])
  have "chunk_paragraphs (render_draft_markdown d) CHUNK_SIZE CHUNK_OVERLAP \<noteq> []"
    by (rule chunks_nonempty [OF render_text]) (simp add: is_space_def)
  then show ?thesis using index_contract [OF ok fresh run] p by auto
qed

definition back_in_queue :: "uuid \<Rightarrow> 'c depot \<Rightarrow> 'c depot \<Rightarrow> bool" where
  "back_in_queue i dp dp' \<longleftrightarrow> (\<exists>x x'. draft_get i (w_drafts (dp_world dp)) = Some x \<and> df_status x = DDraft
     \<and> draft_get i (w_drafts (dp_world dp')) = Some x' \<and> df_status x' = DDraft
     \<and> df_question x' = df_question x \<and> df_answer x' = df_answer x \<and> df_doc x' = df_doc x)"

definition published_as :: "uuid \<Rightarrow> uuid \<Rightarrow> uuid \<Rightarrow> draft \<Rightarrow> 'c depot \<Rightarrow> bool" where
  "published_as i doc reviewer x dp' \<longleftrightarrow> (\<exists>x'. draft_get i (w_drafts (dp_world dp')) = Some x'
     \<and> df_status x' = DApproved \<and> df_doc x' = Some doc \<and> df_question x' = df_question x \<and> df_answer x' = df_answer x)
     \<and> (\<forall>g y. df_gap x = Some g \<longrightarrow> gap_get g (w_gaps (dp_world dp')) = Some y
          \<longrightarrow> gp_status y = GPromoted \<and> gp_doc y = Some doc)"

lemma approve_cases:
  assumes dist: "distinct (map df_id (w_drafts (dp_world dp)))" and fresh: "doc \<notin> dc_id ` set (docs_of dp)"
    and run: "approve P doc now i rv dp = (res, dp')"
  shows "(case res of
      Inr d \<Rightarrow> \<exists>x content. draft_get i (w_drafts (dp_world dp)) = Some x \<and> df_status x = DDraft
        \<and> published_as i doc rv x dp' \<and> docs_of dp' = docs_of dp @ [d] \<and> dc_id d = doc \<and> dc_status d = DocActive
        \<and> dc_title d = approve_title x
        \<and> utf8_encode (render_draft_markdown x) = Some content
        \<and> (\<exists>n. index_document (pb_index P) (pb_ms P) (uuid_text doc) (asc ''kb-'' @ uuid_text i @ asc ''.md'')
             (Some content) (approve_title x) (Some KB_DOC_SOURCE) CHUNK_SIZE CHUNK_OVERLAP (dp_stores dp)
             = (Inr n, dp_stores dp'))
    | Inl (Exn cls m) \<Rightarrow> cls = ''PublishError'' \<longrightarrow> back_in_queue i dp dp'
        \<and> w_gaps (dp_world dp') = w_gaps (dp_world dp) \<and> (rollback_up P \<longrightarrow> docs_of dp' = docs_of dp))"
proof (cases "draft_get i (w_drafts (dp_world dp))")
  case None
  then show ?thesis using run by (auto simp: approve_def not_found_def)
next
  case (Some x)
  show ?thesis
  proof (cases "df_status x = DDraft")
    case False
    then show ?thesis using run Some by (auto simp: approve_def transition_eq [OF dist])
  next
    case True
    let ?w = "moved DApproved (Some rv) None x"
    let ?rows = "set_row df_id i (moved DApproved (Some rv) None) (w_drafts (dp_world dp))"
    have t: "transition_status i DDraft DApproved (Some rv) None (w_drafts (dp_world dp)) = (Some ?w, ?rows)"
      using Some True by (simp add: transition_eq [OF dist])
    have dist': "distinct (map df_id ?rows)" using dist by (simp add: map_set_row)
    have g: "draft_get i ?rows = Some ?w" using Some by (simp add: draft_get_set)
    show ?thesis
    proof (cases "utf8_encode (render_draft_markdown x)")
      case None
      then show ?thesis using run Some t by (auto simp: approve_def)
    next
      case enc: (Some content)
      obtain r dp1 where p: "publish_document_bytes P doc now (approve_title x)
          (asc ''kb-'' @ uuid_text i @ asc ''.md'') content (Some KB_DOC_SOURCE)
          [(''kb_draft_id'', JStr (uuid_text i))] (with_drafts ?rows dp) = (r, dp1)" by fastforce
      have wd: "docs_of (with_drafts ?rows dp) = docs_of dp" "dp_stores (with_drafts ?rows dp) = dp_stores dp"
        "w_drafts (dp_world (with_drafts ?rows dp)) = ?rows" "w_gaps (dp_world (with_drafts ?rows dp)) = w_gaps (dp_world dp)"
        by (simp_all add: with_drafts_def docs_of_def)
      have fresh': "doc \<notin> dc_id ` set (docs_of (with_drafts ?rows dp))" using fresh wd by simp
      note pc = publish_cases [OF fresh' p]
      have w1: "w_drafts (dp_world dp1) = ?rows" "w_gaps (dp_world dp1) = w_gaps (dp_world dp)"
        using pc wd by (simp_all add: same_tables_def)
      show ?thesis
      proof (cases r)
        case (Inr d)
        have dp': "dp' = dp1\<lparr>dp_world := (dp_world dp1)\<lparr>
              w_drafts := set_row df_id i (\<lambda>x. x\<lparr>df_doc := Some (dc_id d)\<rparr>) ?rows,
              w_gaps := promote_gap (df_gap x) (dc_id d) (w_gaps (dp_world dp))\<rparr>\<rparr>" "res = Inr d"
          using run Some t enc p Inr w1 by (auto simp: approve_def)
        have idd: "dc_id d = doc" using pc Inr by simp
        have "draft_get i (w_drafts (dp_world dp')) = Some (?w\<lparr>df_doc := Some doc\<rparr>)"
          using Some idd by (simp add: dp' draft_get_set)
        moreover have "gp_status y = GPromoted \<and> gp_doc y = Some doc"
          if "df_gap x = Some gi" "gap_get gi (w_gaps (dp_world dp')) = Some y" for gi y
          using that idd by (auto simp: dp' promote_gap_def gap_get_def row_of_set_row)
        ultimately have "published_as i doc rv x dp'" by (simp add: published_as_def)
        moreover have "docs_of dp' = docs_of dp1" "dp_stores dp' = dp_stores dp1" by (simp_all add: dp' docs_of_def)
        ultimately show ?thesis using pc Inr Some True enc wd dp' by auto
      next
        case (Inl e)
        obtain cls m where e: "e = Exn cls m" by (cases e)
        show ?thesis
        proof (cases "cls = ''PublishError''")
          case False
          then show ?thesis using run Some t enc p Inl e by (auto simp: approve_def)
        next
          case pe: True
          let ?undone = "set_row df_id i (moved DDraft None None) ?rows"
          have "transition_status i DApproved DDraft None None ?rows = (Some (moved DDraft None None ?w), ?undone)"
            using g by (simp add: transition_eq [OF dist'])
          then have dp': "dp' = with_drafts ?undone dp1" "res = Inl e"
            using run Some t enc p Inl e pe w1 by (auto simp: approve_def)
          have "draft_get i ?undone = Some (moved DDraft None None ?w)" using Some by (simp add: draft_get_set)
          then have "back_in_queue i dp dp'" using Some True by (simp add: back_in_queue_def dp' with_drafts_def)
          moreover have "docs_of dp' = docs_of dp1" "w_gaps (dp_world dp') = w_gaps (dp_world dp1)"
            by (simp_all add: dp' with_drafts_def docs_of_def)
          ultimately show ?thesis using pc Inl e pe dp' wd w1 by auto
        qed
      qed
    qed
  qed
qed

lemma transition_ids: "map df_id (snd (transition_status i a b rv note rows)) = map df_id rows"
  by (simp add: transition_status_def Let_def moved_def)

lemma publish_drafts:
  "publish_document_bytes P i now ti fn content so extra dp = (r, dp') \<Longrightarrow> w_drafts (dp_world dp') = w_drafts (dp_world dp)"
proof -
  have s: "w_drafts (dp_world dp2) = w_drafts (dp_world dp1)" if "same_tables dp1 dp2" for dp1 dp2 :: "'a depot"
    using that by (simp add: same_tables_def)
  show "publish_document_bytes P i now ti fn content so extra dp = (r, dp') \<Longrightarrow> ?thesis"
    using s [OF same_tablesI(1)]
    by (auto simp: publish_document_bytes_def Let_def dest!: put_same rollback_same s
        split: prod.splits option.splits sum.splits)
qed

lemma approve_keeps_ids:
  "map df_id (w_drafts (dp_world (snd (approve P doc now i rv dp)))) = map df_id (w_drafts (dp_world dp))"
proof -
  have t: "map df_id rows' = map df_id rows" if "transition_status i a b v nt rows = (res, rows')" for a b v nt rows res rows'
    using transition_ids [of i a b v nt rows] that by simp
  show ?thesis
    by (auto simp: approve_def with_drafts_def transition_ids map_set_row dest!: publish_drafts t
        split: option.splits prod.splits sum.splits exn.splits)
qed

text \<open>
  C8: approving a draft. When an administrator approves a draft, it is published at most once
  and never left in between: with data in the answer, the draft was pending and is now approved
  and linked to one new active document, its gap is promoted to that document, and what becomes
  searchable for the document are the chunks of the draft's markdown; with an error text, the
  draft is pending again as it was and no gap has changed, and, when the clean-up calls work, no
  document is left; with any other error the database is as before. Approving again after a
  success is a conflict and changes nothing.
\<close>

theorem approve_publishes:
  assumes role: "us_role u = RAdmin" and dist: "distinct (map df_id (w_drafts (dp_world dp)))"
    and fresh: "doc \<notin> dc_id ` set (docs_of dp)"
    and run: "approve_draft P doc now u i dp = (res, dp')"
  shows "case res of
      ApiData d \<Rightarrow> (\<exists>x. draft_get i (w_drafts (dp_world dp)) = Some x \<and> df_status x = DDraft
          \<and> published_as i doc (us_id u) x dp' \<and> docs_of dp' = docs_of dp @ [d] \<and> dc_id d = doc \<and> dc_status d = DocActive
          \<and> (\<forall>rows. chroma_ok (xe_chroma (pb_index P)) rows
               \<and> row_id ` set (rows (st_coll (dp_stores dp))) \<inter> range (chunk_ref (uuid_text doc) (pb_ms P)) = {}
               \<longrightarrow> corpus (rows (st_coll (dp_stores dp'))) (uuid_text doc)
                   = chunk_paragraphs (render_draft_markdown x) CHUNK_SIZE CHUNK_OVERLAP))
        \<and> approve_draft P2 doc2 now2 u i dp' = (ApiRaised (Exn ''ConflictError'' (asc ''Draft already reviewed'')), dp')
    | ApiError m \<Rightarrow> back_in_queue i dp dp' \<and> w_gaps (dp_world dp') = w_gaps (dp_world dp)
        \<and> (rollback_up P \<longrightarrow> docs_of dp' = docs_of dp)
    | ApiRaised e \<Rightarrow> dp_world dp' = dp_world dp
    | ApiForbidden \<Rightarrow> False"
proof -
  obtain r dp1 where a: "approve P doc now i (us_id u) dp = (r, dp1)" by fastforce
  note ac = approve_cases [OF dist fresh a]
  show ?thesis
  proof (cases r)
    case (Inl e)
    obtain cls m where "e = Exn cls m" by (cases e)
    then show ?thesis using run role a Inl ac by (auto simp: approve_draft_def split: if_splits)
  next
    case (Inr d)
    then have out: "res = ApiData d" "dp' = dp1" using run role a by (auto simp: approve_draft_def)
    obtain x content n where x: "draft_get i (w_drafts (dp_world dp)) = Some x" "df_status x = DDraft"
        "published_as i doc (us_id u) x dp'" "docs_of dp' = docs_of dp @ [d]" "dc_id d = doc" "dc_status d = DocActive"
        "utf8_encode (render_draft_markdown x) = Some content"
        "index_document (pb_index P) (pb_ms P) (uuid_text doc) (asc ''kb-'' @ uuid_text i @ asc ''.md'')
             (Some content) (approve_title x) (Some KB_DOC_SOURCE) CHUNK_SIZE CHUNK_OVERLAP (dp_stores dp)
             = (Inr n, dp_stores dp')"
      using ac Inr out by auto
    have ch: "corpus (rows (st_coll (dp_stores dp'))) (uuid_text doc)
          = chunk_paragraphs (render_draft_markdown x) CHUNK_SIZE CHUNK_OVERLAP"
      if "chroma_ok (xe_chroma (pb_index P)) rows"
        "row_id ` set (rows (st_coll (dp_stores dp))) \<inter> range (chunk_ref (uuid_text doc) (pb_ms P)) = {}" for rows
      using published_chunks [OF x(7) that x(8)] by simp
    obtain x' where x': "draft_get i (w_drafts (dp_world dp')) = Some x'" "df_status x' = DApproved"
      using x(3) by (auto simp: published_as_def)
    have hit: "\<not> list_ex (\<lambda>d. df_id d = i \<and> df_status d = DDraft) (w_drafts (dp_world dp'))"
    proof -
      have "distinct (map df_id (w_drafts (dp_world dp')))"
        using approve_keeps_ids [of P doc now i "us_id u" dp] dist a out(2) by simp
      then show ?thesis using x' by (simp add: cond_rows(2) draft_get_def)
    qed
    have "approve_draft P2 doc2 now2 u i dp' = (ApiRaised (Exn ''ConflictError'' (asc ''Draft already reviewed'')), dp')"
      using role x' hit by (simp add: approve_draft_def approve_def transition_status_def Let_def with_drafts_def)
    then show ?thesis using x ch out(1) by auto
  qed
qed

lemma mem_index_returns:
  assumes "parse_file (xe_parse mem_env) path content = Inr t"
  shows "\<exists>n st'. index_document mem_env now doc path content ti so sz ov st = (Inr n, st')"
  using assms
  by (auto simp: index_document_def mem_env_simps delete_doc_chunks_except_def mem_chroma_def Let_def
      split: prod.splits)

theorem approve_publishes_witness:
  "\<exists>dp d dp'. approve_draft \<lparr>pb_index = mem_env, pb_ms = 1, pb_setup = None, pb_put = None, pb_delete = None\<rparr>
       8 0 \<lparr>us_id = 1, us_name = [], us_role = RAdmin, us_active = True\<rparr> 3 dp = (ApiData d, dp')
     \<and> w_docs (dp_world dp) = [] \<and> dc_status d = DocActive
     \<and> corpus (uniq_rows (st_coll (dp_stores dp'))) (uuid_text 8) \<noteq> []"
proof -
  define P where "P = \<lparr>pb_index = mem_env, pb_ms = 1, pb_setup = None, pb_put = None, pb_delete = None\<rparr>"
  define u where "u = \<lparr>us_id = 1, us_name = [], us_role = RAdmin, us_active = True\<rparr>"
  define d0 where "d0 = \<lparr>df_id = 3, df_gap = None, df_question = asc ''Q'', df_answer = asc ''A'', df_status = DDraft,
     df_ticket = None, df_conv = None, df_synthesis = None, df_created_by = None, df_reviewed_by = None,
     df_doc = None, df_note = None, df_created = 0\<rparr>"
  define dp where "dp = sample_depot\<lparr>dp_world := empty_world\<lparr>w_drafts := [d0]\<rparr>\<rparr>"
  let ?t = "render_draft_markdown d0"
  have P: "pb_index P = mem_env" "pb_setup P = None" "pb_put P = None" "us_role u = RAdmin" "df_status d0 = DDraft"
    by (simp_all add: P_def u_def d0_def)
  obtain bs where bs: "utf8_encode ?t = Some bs"
    by (simp add: utf8_encode_def render_draft_markdown_def KB_DOC_SOURCE_def asc_def scalar_def Let_def d0_def)
  have ne: "?t \<noteq> []" using render_text [of d0] by auto
  have w: "w_drafts (dp_world dp) = [d0]" "docs_of dp = []" "w_docs (dp_world dp) = []" "st_coll (dp_stores dp) = []"
    by (simp_all add: dp_def docs_of_def empty_world_def sample_depot_def)
  have dist: "distinct (map df_id (w_drafts (dp_world dp)))" by (simp add: w)
  have fresh: "8 \<notin> dc_id ` set (docs_of dp)" by (simp add: w)
  obtain res dp' where run: "approve_draft P 8 0 u 3 dp = (res, dp')" by fastforce
  have g: "draft_get 3 [d0] = Some d0" by (simp add: draft_get_def row_of_Cons d0_def)
  note p = parse_markdown [OF bs ne, of "xe_parse mem_env" 3]
  have pub: "\<exists>d dp1. publish_document_bytes P 8 0 ti (asc ''kb-'' @ uuid_text 3 @ asc ''.md'') bs so ex dpx = (Inr d, dp1)"
    for ti so ex and dpx :: "row list depot"
  proof -
    obtain n st' where "index_document mem_env (pb_ms P) (uuid_text 8) (asc ''kb-'' @ uuid_text 3 @ asc ''.md'')
        (Some bs) ti so CHUNK_SIZE CHUNK_OVERLAP (dp_stores dpx) = (Inr n, st')"
      using mem_index_returns [OF p] by blast
    then show ?thesis
      by (simp add: publish_document_bytes_def Let_def P put_document_bytes_def doc_create_def split: prod.split)
  qed
  have "\<exists>d. res = ApiData d"
  proof -
    obtain d dp1 where "publish_document_bytes P 8 0 (approve_title d0) (asc ''kb-'' @ uuid_text 3 @ asc ''.md'') bs
        (Some KB_DOC_SOURCE) [(''kb_draft_id'', JStr (uuid_text 3))]
        (with_drafts (set_row df_id 3 (moved DApproved (Some (us_id u)) None) [d0]) dp) = (Inr d, dp1)"
      using pub by blast
    then show ?thesis
      using run by (auto simp: approve_draft_def approve_def w g transition_eq [OF dist [unfolded w]] bs P)
  qed
  then obtain d where d: "res = ApiData d" by blast
  have ok: "chroma_ok (xe_chroma (pb_index P)) uniq_rows" by (simp add: P mem_env_simps mem_chroma_ok)
  have r: "dc_status d = DocActive"
    "corpus (uniq_rows (st_coll (dp_stores dp'))) (uuid_text 8) = chunk_paragraphs ?t CHUNK_SIZE CHUNK_OVERLAP"
    using approve_publishes [OF P(4) dist fresh run, of P 9 0] ok by (auto simp: d w g)
  have "chunk_paragraphs ?t CHUNK_SIZE CHUNK_OVERLAP \<noteq> []"
    by (rule chunks_nonempty [OF render_text]) (simp add: is_space_def)
  then have "approve_draft P 8 0 u 3 dp = (ApiData d, dp') \<and> w_docs (dp_world dp) = [] \<and> dc_status d = DocActive
     \<and> corpus (uniq_rows (st_coll (dp_stores dp'))) (uuid_text 8) \<noteq> []"
    using run d r w(3) by simp
  then show ?thesis unfolding P_def u_def by blast
qed

subsection \<open>One reviewer, one worker\<close>

text \<open>A review of a draft as its conditional update: approve or reject, the reviewer, the note.\<close>

definition review_try :: "bool \<times> uuid \<times> ustr option \<Rightarrow> uuid \<Rightarrow> draft list \<Rightarrow> bool \<times> draft list" where
  "review_try a i rows =
     (case transition_status i DDraft (if fst a then DApproved else DRejected) (Some (fst (snd a)))
        (if fst a then None else snd (snd a)) rows of (d, rows') \<Rightarrow> (d \<noteq> None, rows'))"

definition reviewed :: "bool \<times> uuid \<times> ustr option \<Rightarrow> draft \<Rightarrow> draft" where
  "reviewed a = moved (if fst a then DApproved else DRejected) (Some (fst (snd a)))
     (if fst a then None else snd (snd a))"

interpretation reviews:
  guarded_move df_id review_try "\<lambda>_ d. df_status d = DDraft" reviewed "\<lambda>rows. distinct (map df_id rows)"
proof
  fix a :: "bool \<times> uuid \<times> ustr option" and b :: "bool \<times> uuid \<times> ustr option" and i j rows and d :: draft
  show "distinct (map df_id rows) \<Longrightarrow> fst (review_try a i rows) \<longleftrightarrow>
      (\<exists>r. row_of df_id i rows = Some r \<and> df_status r = DDraft)"
    by (auto simp: review_try_def transition_eq draft_get_def split: option.split)
  show "distinct (map df_id rows) \<Longrightarrow> row_of df_id j (snd (review_try a i rows)) =
      (if j = i then map_option (\<lambda>r. if df_status r = DDraft then reviewed a r else r) (row_of df_id i rows)
       else row_of df_id j rows)"
    by (auto simp: review_try_def reviewed_def transition_eq draft_get_def row_of_set_row split: option.split)
  show "distinct (map df_id rows) \<Longrightarrow> distinct (map df_id (snd (review_try a i rows)))"
    using transition_ids [of i DDraft] by (simp add: review_try_def split_beta)
  show "df_status d = DDraft \<Longrightarrow> df_status (reviewed a d) \<noteq> DDraft"
    by (simp add: reviewed_def)
qed

lemma reject_tries:
  assumes "distinct (map df_id (w_drafts w))"
  shows "isl (fst (reject i r nt w)) \<longleftrightarrow> \<not> fst (review_try (False, r, nt) i (w_drafts w))"
  using assms by (simp add: reject_def review_try_def transition_eq split: option.split)

lemma job_tries:
  assumes "docs_ok (docs_of dp)"
  shows "fst (claim_job E jb dp) = None
    \<longleftrightarrow> \<not> fst (index_try (wk_now E, jb_kind jb) (jb_doc jb) (docs_of dp))"
  using assms by (simp add: claim_job_eq index_try_def claim_eq split: option.split)


definition pending_draft :: draft where
  "pending_draft = \<lparr>df_id = 3, df_gap = None, df_question = asc ''Q'', df_answer = asc ''A'', df_status = DDraft,
     df_ticket = None, df_conv = None, df_synthesis = None, df_created_by = None, df_reviewed_by = None,
     df_doc = None, df_note = None, df_created = 0\<rparr>"

definition two_reviews :: "((bool \<times> uuid \<times> ustr option) \<times> uuid) list" where
  "two_reviews = [((True, 7, None), 3), ((False, 8, Some (asc ''dup'')), 3)]"

definition two_jobs :: "((int \<times> job_kind) \<times> uuid) list" where
  "two_jobs = [((100, JUpload), 5), ((101, JReindex), 5)]"


end
