(* ===== verification/Chat.thy ===== *)
theory Chat
  imports Agent Gaps Session
begin

text \<open>
  A chat message from its frame to its answer: \<open>chat/turns.py\<close>, \<open>chat/service.py\<close>, the message loop
  and the feedback endpoint of \<open>chat/router.py\<close>, \<open>repositories/feedback_repo.py\<close> and
  \<open>core/rate_limiter.py\<close>. What is sent is returned: the frames for the connection in order, and
  the frames pushed to other users.

  Lemmas: the gates before the agent (rate limit, ownership, human take-over), and that what is
  stored, what is streamed and what the last frame says are the same answer.
\<close>

subsection \<open>Rate limit\<close>

text \<open>
  The Redis counter of a user with the time it expires. Every request pushes the expiry a minute
  ahead, so the counter only starts again after a minute without any request.
\<close>

type_synonym rates = "uuid \<Rightarrow> nat \<times> int"

datatype rate_answer = RateOk | RateOver | RateDown

definition RATE_WINDOW :: int where "RATE_WINDOW = 60"

definition check_rate_limit :: "nat \<Rightarrow> bool \<Rightarrow> int \<Rightarrow> uuid \<Rightarrow> rates \<Rightarrow> rate_answer \<times> rates" where
  "check_rate_limit per_minute redis_up now u rs =
     (if \<not> redis_up then (RateDown, rs)
      else let (n, expires) = rs u;
               current = (if now < expires then n else 0) + 1
           in (if per_minute < current then RateOver else RateOk, rs(u := (current, now + RATE_WINDOW))))"

subsection \<open>A turn\<close>

definition AGENT_ERROR_RESPONSE :: ustr where
  "AGENT_ERROR_RESPONSE = [25265, 27465, 65292, 22788, 29702, 36807, 31243, 20013, 20986, 29616, 38169, 35823, 65292, 35831, 31245, 21518,
     20877, 35797, 12290]"

record agent_turn =
  tn_text :: ustr
  tn_intent :: "intent_result option"
  tn_sources :: "source list"
  tn_trace :: trace
  tn_handoff :: bool

definition turn_signal_context :: "ustr \<Rightarrow> agent_turn \<Rightarrow> uuid \<Rightarrow> uuid \<Rightarrow> turn_signal" where
  "turn_signal_context q tn conv m = \<lparr>ts_question = q, ts_response = tn_text tn, ts_sources = tn_sources tn,
     ts_trace = tn_trace tn, ts_handoff = tn_handoff tn, ts_intent = map_option label (tn_intent tn),
     ts_conv = Some conv, ts_message = Some m\<rparr>"

definition push_intent :: "uuid \<Rightarrow> agent_turn \<Rightarrow> frame list" where
  "push_intent c tn = (case tn_intent tn of None \<Rightarrow> [] | Some i \<Rightarrow> [FIntent c (label i) (confidence i)])"

definition push_side_effects :: "uuid \<Rightarrow> process_result \<Rightarrow> frame list" where
  "push_side_effects c r =
     (case pr_ticket r of None \<Rightarrow> [] | Some td \<Rightarrow> [FTicket (Some c) td])
     @ (if pr_handoff r then [FHandoff c] else [])"

text \<open>
  \<open>cancel_after\<close> says at which token the cancel flag is seen. The agent may raise before it returns
  a result, or its token stream may raise in place of a token.
\<close>

datatype agent_fate = AgentRuns | AgentRaises | StreamRaises nat

definition stream_agent_response ::
  "agent_env \<Rightarrow> agent_fate \<Rightarrow> nat option \<Rightarrow> uuid \<Rightarrow> ustr \<Rightarrow> history \<Rightarrow> uuid \<Rightarrow> pending option \<Rightarrow> world
   \<Rightarrow> agent_turn \<times> frame list \<times> world" where
  "stream_agent_response A fate cancel_after c q hist u pend w =
     (if fate = AgentRaises then (\<lparr>tn_text = AGENT_ERROR_RESPONSE, tn_intent = None, tn_sources = [],
          tn_trace = empty_trace, tn_handoff = False\<rparr>, [FToken c AGENT_ERROR_RESPONSE], w)
      else
        let (r, w') = process A (Some q) (map (\<lambda>(role, content). (Some role, Some content)) hist) (Hex u) (Hex c) pend w;
            heard = (case cancel_after of None \<Rightarrow> pr_tokens r | Some k \<Rightarrow> take k (pr_tokens r));
            (toks, told) = (case fate of
                StreamRaises j \<Rightarrow> if j \<le> length heard then (take j heard @ [AGENT_ERROR_RESPONSE], [])
                  else (heard, push_side_effects c r)
              | _ \<Rightarrow> (heard, push_side_effects c r));
            tn = \<lparr>tn_text = concat toks, tn_intent = pr_intent r, tn_sources = pr_sources r,
              tn_trace = pr_trace r, tn_handoff = pr_handoff r\<rparr>
        in (tn, push_intent c tn @ map (FToken c) toks @ told, w'))"

subsection \<open>The service\<close>

record chat_state =
  ch_world :: world
  ch_store :: store
  ch_rates :: rates

record chat_env =
  ct_now :: int
  ct_rate_limit :: nat
  ct_redis_up :: bool
  ct_mask :: bool
  ct_agent :: agent_env
  ct_fate :: agent_fate
  ct_loads :: "ustr \<Rightarrow> json option"
  ct_judge :: "ustr \<Rightarrow> real \<Rightarrow> ustr option"
  ct_gap :: gap_env
  ct_rate_text :: ustr
  ct_conv_id :: uuid
  ct_user_msg :: uuid
  ct_answer_msg :: uuid
  ct_answer_time :: int

definition persisted_content :: "bool \<Rightarrow> ustr \<Rightarrow> ustr" where
  "persisted_content on t = (if on then mask_text t else t)"

definition enforce_rate_limit :: "chat_env \<Rightarrow> uuid \<Rightarrow> rates \<Rightarrow> frame list option \<times> rates" where
  "enforce_rate_limit E u rs =
     (case check_rate_limit (ct_rate_limit E) (ct_redis_up E) (ct_now E) u rs of
        (RateOk, rs') \<Rightarrow> (None, rs')
      | (RateOver, rs') \<Rightarrow> (Some [FError (ct_rate_text E)], rs')
      | (RateDown, rs') \<Rightarrow> (Some [FError (asc ''Rate limit check failed'')], rs'))"

text \<open>An identifier that does not parse or is not in the table starts a new conversation.\<close>

definition ensure_conversation ::
  "chat_env \<Rightarrow> idstr option \<Rightarrow> uuid \<Rightarrow> conversation list \<Rightarrow> conversation option \<times> conversation list" where
  "ensure_conversation E raw u convs =
     (let new = (let (c, rows) = conv_create (ct_conv_id E) (ct_now E) u None convs in (Some c, rows))
      in case raw of Some (Hex i) \<Rightarrow>
           (case conv_get i convs of None \<Rightarrow> new
            | Some c \<Rightarrow> if cv_user c \<noteq> u then (None, convs) else (Some c, convs))
         | _ \<Rightarrow> new)"

definition user_message :: "chat_env \<Rightarrow> uuid \<Rightarrow> ustr \<Rightarrow> message" where
  "user_message E c content = \<lparr>ms_id = ct_user_msg E, ms_conv = c, ms_role = MUser,
     ms_content = persisted_content (ct_mask E) content, ms_intent = None, ms_confidence = None,
     ms_sources = None, ms_extra = None, ms_created = ct_now E\<rparr>"

definition handle_transferred_message ::
  "chat_env \<Rightarrow> conversation \<Rightarrow> ustr \<Rightarrow> chat_state \<Rightarrow> frame list \<times> (uuid \<times> frame) list \<times> chat_state" where
  "handle_transferred_message E c content st =
     (let i = cv_id c; w = ch_world st;
          w' = w\<lparr>w_msgs := snd (msg_create (user_message E i content) (w_msgs w))\<rparr>;
          session = find_open_by_conversation i (w_handoffs w');
          status = (case session of None \<Rightarrow> ''transferred'' | Some h \<Rightarrow> ho_name (ho_status h))
      in ([FHandoffUpdate i status None None],
          (case session of None \<Rightarrow> []
           | Some h \<Rightarrow> (case ho_assignee h of None \<Rightarrow> []
             | Some a \<Rightarrow> [(a, FHandoffUpdate i status (Some content) None)])),
          st\<lparr>ch_world := w', ch_store := add_message i (asc ''user'') content (ch_store st)\<rparr>))"

definition record_verify_flags :: "trace \<Rightarrow> verification \<Rightarrow> trace" where
  "record_verify_flags t v =
     (let fs = flags_of t;
          fs1 = (if \<not> vf_checked v then append_new ''verify_skipped'' fs else fs);
          fs2 = (if vf_invalid v \<noteq> [] then append_new ''invalid_citations'' fs1 else fs1)
      in t\<lparr>t_flags := Some fs2\<rparr>)"

definition maybe_verify_answer :: "chat_env \<Rightarrow> agent_turn \<Rightarrow> verification option \<times> agent_turn" where
  "maybe_verify_answer E tn =
     (if t_route (tn_trace tn) = Some ''rag'' \<and> tn_sources tn \<noteq> [] \<and> tn_text tn \<noteq> []
         \<and> ''weak_retrieval_refusal'' \<notin> set (flags_of (tn_trace tn))
      then let v = verify_answer (ct_loads E) (ct_judge E) (tn_text tn) (tn_sources tn)
           in (Some v, tn\<lparr>tn_trace := record_verify_flags (tn_trace tn) v\<rparr>)
      else (None, tn))"

definition build_message_extra ::
  "agent_turn \<Rightarrow> verification option \<Rightarrow> answer_conf option \<Rightarrow> msg_extra option" where
  "build_message_extra tn v a =
     (let x = \<lparr>ex_trace = (if tn_trace tn = empty_trace then None else Some (tn_trace tn)),
          ex_verification = v, ex_answer = a\<rparr>
      in if ex_trace x = None \<and> v = None \<and> a = None then None else Some x)"

definition answer_message ::
  "chat_env \<Rightarrow> uuid \<Rightarrow> agent_turn \<Rightarrow> verification option \<Rightarrow> answer_conf option \<Rightarrow> message" where
  "answer_message E c tn v a = \<lparr>ms_id = ct_answer_msg E, ms_conv = c, ms_role = MAssistant,
     ms_content = persisted_content (ct_mask E) (tn_text tn),
     ms_intent = map_option label (tn_intent tn), ms_confidence = map_option confidence (tn_intent tn),
     ms_sources = (if tn_sources tn = [] then None else Some (tn_sources tn)),
     ms_extra = build_message_extra tn v a, ms_created = ct_answer_time E\<rparr>"

definition finalize_assistant_turn ::
  "chat_env \<Rightarrow> uuid \<Rightarrow> ustr \<Rightarrow> agent_turn \<Rightarrow> chat_state \<Rightarrow> frame list \<times> chat_state" where
  "finalize_assistant_turn E c q tn0 st =
     (let (v, tn) = maybe_verify_answer E tn0;
          a = compute_answer_confidence (Some (tn_trace tn)) v;
          w = ch_world st;
          (m, msgs) = msg_create (answer_message E c tn v a) (w_msgs w);
          gaps = maybe_record_gap_from_turn (ct_gap E) (turn_signal_context q tn c (ms_id m)) (w_gaps w)
      in ((if tn_sources tn = [] then [] else [FSource c (tn_sources tn)])
            @ [FMessageEnd c \<lparr>ep_sources = tn_sources tn, ep_message = Some (ms_id m), ep_verification = v, ep_answer = a\<rparr>],
          st\<lparr>ch_world := w\<lparr>w_msgs := msgs, w_gaps := gaps\<rparr>,
             ch_store := add_message c (asc ''assistant'') (tn_text tn) (ch_store st)\<rparr>))"

definition process_user_message ::
  "chat_env \<Rightarrow> uuid \<Rightarrow> idstr option \<Rightarrow> ustr \<Rightarrow> nat option \<Rightarrow> chat_state
   \<Rightarrow> frame list \<times> (uuid \<times> frame) list \<times> chat_state" where
  "process_user_message E u raw content cancel_after st =
     (case enforce_rate_limit E u (ch_rates st) of
        (Some fs, rs) \<Rightarrow> (fs, [], st\<lparr>ch_rates := rs\<rparr>)
      | (None, rs) \<Rightarrow>
         (case ensure_conversation E raw u (w_convs (ch_world st)) of
            (None, _) \<Rightarrow> ([FError (asc ''Conversation not found for current user'')], [], st\<lparr>ch_rates := rs\<rparr>)
          | (Some c, convs) \<Rightarrow>
             (let st1 = st\<lparr>ch_rates := rs, ch_world := (ch_world st)\<lparr>w_convs := convs\<rparr>\<rparr>; i = cv_id c in
              if cv_status c = CTransferred then handle_transferred_message E c content st1
              else
                let sto = add_message i (asc ''user'') content (ch_store st1);
                    w1 = ch_world st1;
                    w2 = w1\<lparr>w_msgs := snd (msg_create (user_message E i content) (w_msgs w1))\<rparr>;
                    (tn, fs, w3) = stream_agent_response (ct_agent E) (ct_fate E) cancel_after i content
                      (get_history i sto) u (read_pending_tool (cv_meta c)) w2;
                    (fs', st2) = finalize_assistant_turn E i content tn (st1\<lparr>ch_world := w3, ch_store := sto\<rparr>)
                in (fs @ fs', [], st2))))"

subsection \<open>The session loop\<close>

datatype client_frame = CAuth | CMessage "idstr option" ustr | CCancel | CPing | CInvalid

text \<open>
  One received frame. The loop awaits the whole processing of a message before it reads the next
  frame, so the cancel flag, which a message clears first, is never set while tokens stream.
\<close>

definition session_step ::
  "chat_env \<Rightarrow> uuid \<Rightarrow> client_frame \<Rightarrow> bool \<times> chat_state \<Rightarrow> (frame list \<times> (uuid \<times> frame) list) \<times> bool \<times> chat_state" where
  "session_step E u fr cs =
     (case cs of (flag, st) \<Rightarrow>
       (case fr of
          CInvalid \<Rightarrow> (([FError (asc ''Invalid message format'')], []), flag, st)
        | CAuth \<Rightarrow> (([], []), flag, st)
        | CPing \<Rightarrow> (([FPong], []), flag, st)
        | CCancel \<Rightarrow> (([], []), True, st)
        | CMessage raw content \<Rightarrow>
            (case process_user_message E u raw content None st of
               (fs, ps, st') \<Rightarrow> ((fs, ps), False, st'))))"

fun run_session :: "uuid \<Rightarrow> (chat_env \<times> client_frame) list \<Rightarrow> bool \<times> chat_state \<Rightarrow> frame list \<times> bool \<times> chat_state" where
  "run_session u [] cs = ([], cs)"
| "run_session u ((E, fr) # rest) cs =
     (case session_step E u fr cs of ((fs, ps), cs') \<Rightarrow>
       (case run_session u rest cs' of (fs', cs'') \<Rightarrow> (fs @ fs', cs'')))"

subsection \<open>Connections\<close>

text \<open>
  \<open>chat/manager.py\<close>: the connections of the process, and those of each user; a frame for a user
  goes to each connection of the user that is still open.
\<close>

record manager =
  mg_open :: "nat set"
  mg_user :: "uuid \<Rightarrow> nat set"

definition mg_connect :: "nat \<Rightarrow> uuid \<Rightarrow> manager \<Rightarrow> manager" where
  "mg_connect k u m = m\<lparr>mg_open := insert k (mg_open m), mg_user := (mg_user m)(u := insert k (mg_user m u))\<rparr>"

definition mg_disconnect :: "nat \<Rightarrow> uuid \<Rightarrow> manager \<Rightarrow> manager" where
  "mg_disconnect k u m = m\<lparr>mg_open := mg_open m - {k}, mg_user := (mg_user m)(u := mg_user m u - {k})\<rparr>"

definition mg_receivers :: "uuid \<Rightarrow> manager \<Rightarrow> nat set" where
  "mg_receivers u m = mg_user m u \<inter> mg_open m"

subsection \<open>Feedback\<close>

definition feedback_upsert ::
  "uuid \<Rightarrow> int \<Rightarrow> uuid \<Rightarrow> uuid \<Rightarrow> int \<Rightarrow> ustr option \<Rightarrow> feedback list \<Rightarrow> feedback option \<times> feedback list" where
  "feedback_upsert i now m u rating comment rows =
     (let hit = (\<lambda>f. fb_message f = m \<and> fb_user f = u);
          rows' = (if list_ex hit rows
             then map (\<lambda>f. if hit f then f\<lparr>fb_rating := rating, fb_comment := comment\<rparr> else f) rows
             else rows @ [\<lparr>fb_id = i, fb_message = m, fb_user = u, fb_rating = rating, fb_comment = comment, fb_created = now\<rparr>])
      in (find hit rows', rows'))"

definition feedback_get :: "uuid \<Rightarrow> uuid \<Rightarrow> feedback list \<Rightarrow> feedback option" where
  "feedback_get m u rows = find (\<lambda>f. fb_message f = m \<and> fb_user f = u) rows"

definition submit_feedback ::
  "gap_env \<Rightarrow> uuid \<Rightarrow> int \<Rightarrow> uuid \<Rightarrow> uuid \<Rightarrow> int \<Rightarrow> ustr option \<Rightarrow> world \<Rightarrow> (err + feedback) \<times> world" where
  "submit_feedback G i now m u rating comment w =
     (if rating \<noteq> 1 \<and> rating \<noteq> -1 then (Inl Unprocessable, w)
      else case row_of ms_id m (w_msgs w) of
        None \<Rightarrow> (Inl NotFound, w)
      | Some msg \<Rightarrow>
         (case user_conversation (ms_conv msg) u (w_convs w) of
            Inl e \<Rightarrow> (Inl e, w)
          | Inr c \<Rightarrow>
             (case feedback_upsert i now m u rating comment (w_feedback w) of
                (None, rows) \<Rightarrow> (Inl (OtherErr []), w)
              | (Some f, rows) \<Rightarrow> (Inr f, w\<lparr>w_feedback := rows,
                   w_gaps := record_negative_feedback_gap G msg rating (w_msgs w) (w_gaps w)\<rparr>))))"

subsection \<open>A turn's frames and what is stored\<close>

definition token_texts :: "uuid \<Rightarrow> frame list \<Rightarrow> ustr list" where
  "token_texts i fs = concat (map (\<lambda>f. case f of FToken c t \<Rightarrow> if c = i then [t] else [] | _ \<Rightarrow> []) fs)"

lemma token_texts_simps [simp]:
  "token_texts i [] = []" "token_texts i (fs @ fs') = token_texts i fs @ token_texts i fs'"
  "token_texts i (map (FToken i) ts) = ts" "token_texts i (push_intent i tn) = []"
  "token_texts i (push_side_effects i r) = []" "token_texts i [FToken i t] = [t]"
  "token_texts i [FSource i s] = []" "token_texts i [FMessageEnd i p] = []"
proof -
  have "concat (map (\<lambda>x. [x]) ts) = ts" by (induction ts) simp_all
  then show "token_texts i (map (FToken i) ts) = ts" by (simp add: token_texts_def o_def)
qed (cases "tn_intent tn"; cases "pr_ticket r"; simp add: token_texts_def push_intent_def push_side_effects_def)+

definition told :: "uuid \<Rightarrow> uuid \<Rightarrow> frame list \<Rightarrow> world \<Rightarrow> world \<Rightarrow> bool" where
  "told u i fs w w' \<longleftrightarrow>
     (w_handoffs w' = w_handoffs w \<or> FHandoff i \<in> set fs)
     \<and> (w_tickets w' = w_tickets w \<or> (\<exists>td t. FTicket (Some i) td \<in> set fs \<and> t \<in> set (w_tickets w')
          \<and> tk_id t = td_ticket_id td \<and> tk_user t = u))"

lemma stream_facts:
  assumes "ae_policy A = default_policy" "ticket_env_ok A w"
    and "stream_agent_response A fate cancel i q hist u pend w = (tn, fs, w')"
  shows "turn_frame (Hex i) w w' \<and> tickets_ok (w_tickets w') \<and> tn_text tn = concat (token_texts i fs)
     \<and> (fate = AgentRuns \<longrightarrow> told u i fs w w')"
proof (cases "fate = AgentRaises")
  case True
  then have "tn_text tn = AGENT_ERROR_RESPONSE \<and> fs = [FToken i AGENT_ERROR_RESPONSE] \<and> w' = w"
    using assms(3) by (auto simp: stream_agent_response_def)
  then show ?thesis using True assms(2) by (simp add: ticket_env_ok_def)
next
  case False
  obtain r w1 where p: "process A (Some q) (map (\<lambda>(role, content). (Some role, Some content)) hist) (Hex u) (Hex i) pend w = (r, w1)"
    by fastforce
  have w': "w' = w1" using assms(3) False by (auto simp: stream_agent_response_def p Let_def split: prod.splits)
  have spoken: "tn_text tn = concat (token_texts i fs)"
    using assms(3) False by (auto simp: stream_agent_response_def p Let_def split: prod.splits agent_fate.splits if_splits)
  have runs: "told u i fs w w'" if "fate = AgentRuns"
  proof -
    have fs: "set (push_side_effects i r) \<subseteq> set fs"
      using assms(3) that by (auto simp: stream_agent_response_def p Let_def)
    have c: "pr_ticket r = None \<longrightarrow> w_tickets w1 = w_tickets w" "\<not> pr_handoff r \<longrightarrow> w_handoffs w1 = w_handoffs w"
      "\<forall>td. pr_ticket r = Some td \<longrightarrow> (\<exists>t \<in> set (w_tickets w1). tk_id t = td_ticket_id td \<and> Hex u = Hex (tk_user t))"
      using process_contract [OF assms(1,2) p] by blast+
    show ?thesis using fs c unfolding w' told_def
      by (cases "pr_ticket r"; cases "pr_handoff r") (auto simp: push_side_effects_def)
  qed
  show ?thesis using process_contract [OF assms(1,2) p] spoken runs unfolding w' by blast
qed

lemma verify_keeps:
  "maybe_verify_answer E tn = (v, tn') \<Longrightarrow> tn_text tn' = tn_text tn \<and> tn_sources tn' = tn_sources tn \<and> tn_intent tn' = tn_intent tn"
  by (auto simp: maybe_verify_answer_def Let_def split: if_splits)

lemma extra_fields:
  "case_option None ex_verification (build_message_extra tn v a) = v"
  "case_option None ex_answer (build_message_extra tn v a) = a"
  by (auto simp: build_message_extra_def Let_def)

lemma ensure_cases:
  assumes "ensure_conversation E raw u convs = (Some c, rows)"
  shows "cv_user c = u \<and> (rows = convs \<or> rows = convs @ [c] \<and> cv_id c = ct_conv_id E \<and> cv_status c = CActive)"
  using assms by (auto simp: ensure_conversation_def conv_create_def Let_def split: option.splits idstr.splits if_splits)

lemma finalize_facts:
  assumes "finalize_assistant_turn E i q tn st = (fs, st')"
  shows "\<exists>m p. w_msgs (ch_world st') = w_msgs (ch_world st) @ [m] \<and> ms_role m = MAssistant \<and> ms_conv m = i
     \<and> ms_content m = persisted_content (ct_mask E) (tn_text tn)
     \<and> fs \<noteq> [] \<and> last fs = FMessageEnd i p \<and> ep_message p = Some (ms_id m) \<and> ep_sources p = or_else (ms_sources m) []
     \<and> ep_verification p = case_option None ex_verification (ms_extra m)
     \<and> ep_answer p = case_option None ex_answer (ms_extra m) \<and> token_texts i fs = []
     \<and> ch_world st' = (ch_world st)\<lparr>w_msgs := w_msgs (ch_world st'), w_gaps := w_gaps (ch_world st')\<rparr>
     \<and> ch_store st' = add_message i (asc ''assistant'') (tn_text tn) (ch_store st) \<and> ch_rates st' = ch_rates st"
proof -
  obtain v tn1 where v: "maybe_verify_answer E tn = (v, tn1)" by fastforce
  define a where "a = compute_answer_confidence (Some (tn_trace tn1)) v"
  define m where "m = answer_message E i tn1 v a"
  let ?p = "\<lparr>ep_sources = tn_sources tn1, ep_message = Some (ms_id m), ep_verification = v, ep_answer = a\<rparr>"
  have f: "fs = (if tn_sources tn1 = [] then [] else [FSource i (tn_sources tn1)]) @ [FMessageEnd i ?p]"
    "w_msgs (ch_world st') = w_msgs (ch_world st) @ [m]"
    "ch_world st' = (ch_world st)\<lparr>w_msgs := w_msgs (ch_world st'), w_gaps := w_gaps (ch_world st')\<rparr>"
    "ch_store st' = add_message i (asc ''assistant'') (tn_text tn1) (ch_store st)" "ch_rates st' = ch_rates st"
    using assms v by (auto simp: finalize_assistant_turn_def a_def m_def msg_create_def Let_def)
  have m: "ms_role m = MAssistant" "ms_conv m = i" "ms_content m = persisted_content (ct_mask E) (tn_text tn)"
    "or_else (ms_sources m) [] = tn_sources tn1" "ms_extra m = build_message_extra tn1 v a"
    using verify_keeps [OF v] by (simp_all add: m_def answer_message_def)
  show ?thesis
    by (rule exI [of _ m], rule exI [of _ ?p]) (use f m extra_fields verify_keeps [OF v] in simp)
qed

definition rejected :: "frame list \<Rightarrow> (uuid \<times> frame) list \<Rightarrow> chat_state \<Rightarrow> chat_state \<Rightarrow> bool" where
  "rejected fs ps st st' \<longleftrightarrow>
     ps = [] \<and> (\<exists>e. fs = [FError e]) \<and> ch_world st' = ch_world st \<and> ch_store st' = ch_store st"

definition relayed :: "chat_env \<Rightarrow> uuid \<Rightarrow> ustr \<Rightarrow> frame list \<Rightarrow> (uuid \<times> frame) list \<Rightarrow> world \<Rightarrow> world \<Rightarrow> bool" where
  "relayed E i q fs ps w w' \<longleftrightarrow>
     w' = w\<lparr>w_msgs := w_msgs w @ [user_message E i q]\<rparr>
     \<and> (\<exists>s. fs = [FHandoffUpdate i s None None]
        \<and> (ps = [] \<or> (\<exists>h a. find_open_by_conversation i (w_handoffs w) = Some h \<and> ho_assignee h = Some a
             \<and> ps = [(a, FHandoffUpdate i s (Some q) None)])))"

definition answered :: "chat_env \<Rightarrow> uuid \<Rightarrow> ustr \<Rightarrow> frame list \<Rightarrow> world \<Rightarrow> world \<Rightarrow> bool" where
  "answered E i q fs w w' \<longleftrightarrow>
     (\<exists>m p. w_msgs w' = w_msgs w @ [user_message E i q, m] \<and> ms_role m = MAssistant \<and> ms_conv m = i
        \<and> ms_content m = persisted_content (ct_mask E) (concat (token_texts i fs))
        \<and> last fs = FMessageEnd i p \<and> ep_message p = Some (ms_id m) \<and> ep_sources p = or_else (ms_sources m) []
        \<and> ep_verification p = case_option None ex_verification (ms_extra m)
        \<and> ep_answer p = case_option None ex_answer (ms_extra m))
     \<and> (\<exists>w1. turn_frame (Hex i) w w1 \<and> w' = w1\<lparr>w_msgs := w_msgs w', w_gaps := w_gaps w'\<rparr>)
     \<and> tickets_ok (w_tickets w')"

lemma answered_turn:
  assumes "ae_policy (ct_agent E) = default_policy" "ticket_env_ok (ct_agent E) w"
    and "stream_agent_response (ct_agent E) fate cancel i q hist u pend (w\<lparr>w_msgs := w_msgs w @ [user_message E i q]\<rparr>)
      = (tn, fs, w3)"
    and "finalize_assistant_turn E i q tn (st\<lparr>ch_world := w3, ch_store := sto\<rparr>) = (fs', st2)"
  shows "answered E i q (fs @ fs') w (ch_world st2) \<and> (fate = AgentRuns \<longrightarrow> told u i (fs @ fs') w (ch_world st2))"
proof -
  have env: "ticket_env_ok (ct_agent E) (w\<lparr>w_msgs := w_msgs w @ [user_message E i q]\<rparr>)"
    using assms(2) by (simp add: ticket_env_ok_def)
  note s = stream_facts [OF assms(1) env assms(3)]
  obtain m p where f: "w_msgs (ch_world st2) = w_msgs w3 @ [m]" "ms_role m = MAssistant" "ms_conv m = i"
     "ms_content m = persisted_content (ct_mask E) (tn_text tn)"
     "fs' \<noteq> []" "last fs' = FMessageEnd i p" "ep_message p = Some (ms_id m)" "ep_sources p = or_else (ms_sources m) []"
     "ep_verification p = case_option None ex_verification (ms_extra m)"
     "ep_answer p = case_option None ex_answer (ms_extra m)" "token_texts i fs' = []"
     "ch_world st2 = w3\<lparr>w_msgs := w_msgs (ch_world st2), w_gaps := w_gaps (ch_world st2)\<rparr>"
    using finalize_facts [OF assms(4)] by auto
  have msgs: "w_msgs w3 = w_msgs w @ [user_message E i q]" using s by (simp add: turn_frame_def)
  have frame: "turn_frame (Hex i) w (w3\<lparr>w_msgs := w_msgs w\<rparr>)" using s by (simp add: turn_frame_def)
  have w2: "ch_world st2 = (w3\<lparr>w_msgs := w_msgs w\<rparr>)\<lparr>w_msgs := w_msgs (ch_world st2), w_gaps := w_gaps (ch_world st2)\<rparr>"
    by (subst f(12)) simp
  have same: "w_handoffs (ch_world st2) = w_handoffs w3" "w_tickets (ch_world st2) = w_tickets w3"
    using f(12) by (metis world.select_convs world.surjective world.update_convs world.simps)+
  have "answered E i q (fs @ fs') w (ch_world st2)"
    unfolding answered_def using f(1-11) s msgs frame w2 same by auto
  moreover have "told u i (fs @ fs') w (ch_world st2)" if "fate = AgentRuns"
    using s that same by (auto simp: told_def)
  ultimately show ?thesis by blast
qed

definition foreign :: "uuid \<Rightarrow> idstr option \<Rightarrow> conversation list \<Rightarrow> bool" where
  "foreign u raw convs \<longleftrightarrow> (\<exists>i c. raw = Some (Hex i) \<and> row_of cv_id i convs = Some c \<and> cv_user c \<noteq> u)"

lemma ensure_foreign: "fst (ensure_conversation E raw u convs) = None \<longleftrightarrow> foreign u raw convs"
  by (auto simp: ensure_conversation_def foreign_def conv_get_def Let_def case_prod_beta
      split: option.splits idstr.splits if_splits)

lemma rate_gate:
  "fst (enforce_rate_limit E u rs) = None \<longleftrightarrow>
     fst (check_rate_limit (ct_rate_limit E) (ct_redis_up E) (ct_now E) u rs) = RateOk"
  "fst (enforce_rate_limit E u rs) = Some fs \<Longrightarrow> \<exists>e. fs = [FError e]"
  by (auto simp: enforce_rate_limit_def split: prod.splits rate_answer.splits)

lemma ensure_source:
  "ensure_conversation E raw u convs = (Some c, rows) \<Longrightarrow> row_of cv_id (cv_id c) convs = Some c \<or> cv_id c = ct_conv_id E"
  by (auto simp: ensure_conversation_def conv_create_def conv_get_def Let_def dest: row_of_Some
      split: option.splits idstr.splits if_splits)

lemma message_contract:
  assumes "ae_policy (ct_agent E) = default_policy" "ticket_env_ok (ct_agent E) (ch_world st)"
    and "process_user_message E u raw q cancel st = (fs, ps, st')"
  shows "if fst (check_rate_limit (ct_rate_limit E) (ct_redis_up E) (ct_now E) u (ch_rates st)) \<noteq> RateOk
       \<or> foreign u raw (w_convs (ch_world st))
     then rejected fs ps st st'
     else \<exists>c convs. ensure_conversation E raw u (w_convs (ch_world st)) = (Some c, convs) \<and> cv_user c = u
       \<and> (if cv_status c = CTransferred
          then relayed E (cv_id c) q fs ps ((ch_world st)\<lparr>w_convs := convs\<rparr>) (ch_world st')
          else ps = [] \<and> answered E (cv_id c) q fs ((ch_world st)\<lparr>w_convs := convs\<rparr>) (ch_world st')
            \<and> (ct_fate E = AgentRuns \<longrightarrow> told u (cv_id c) fs ((ch_world st)\<lparr>w_convs := convs\<rparr>) (ch_world st')))"
proof -
  obtain stop rs where r: "enforce_rate_limit E u (ch_rates st) = (stop, rs)" by fastforce
  obtain oc convs where e: "ensure_conversation E raw u (w_convs (ch_world st)) = (oc, convs)" by fastforce
  note gate = rate_gate [of E u "ch_rates st", unfolded r fst_conv]
  note own = ensure_foreign [of E raw u "w_convs (ch_world st)", unfolded e fst_conv]
  show ?thesis
  proof (cases stop)
    case (Some x)
    then show ?thesis using assms(3) r gate by (auto simp: process_user_message_def rejected_def)
  next
    case None
    note ok = None
    show ?thesis
    proof (cases oc)
      case None
      then show ?thesis using assms(3) r e ok own by (auto simp: process_user_message_def rejected_def)
    next
      case (Some c)
      let ?w = "(ch_world st)\<lparr>w_convs := convs\<rparr>" and ?i = "cv_id c"
      have u: "cv_user c = u" using ensure_cases e Some by blast
      have run: "if cv_status c = CTransferred then relayed E ?i q fs ps ?w (ch_world st')
         else ps = [] \<and> answered E ?i q fs ?w (ch_world st') \<and> (ct_fate E = AgentRuns \<longrightarrow> told u ?i fs ?w (ch_world st'))"
      proof (cases "cv_status c = CTransferred")
        case True
        then show ?thesis using assms(3) r e ok Some
          by (auto simp: process_user_message_def handle_transferred_message_def relayed_def msg_create_def
              Let_def split: option.splits)
      next
        case False
        define sto where "sto = add_message ?i (asc ''user'') q (ch_store st)"
        obtain tn fs1 w3 where s: "stream_agent_response (ct_agent E) (ct_fate E) cancel ?i q (get_history ?i sto) u
            (read_pending_tool (cv_meta c)) (?w\<lparr>w_msgs := w_msgs ?w @ [user_message E ?i q]\<rparr>) = (tn, fs1, w3)"
          by (metis prod_cases3)
        define st1 where "st1 = st\<lparr>ch_rates := rs, ch_world := ?w\<rparr>"
        obtain fs2 st2 where f: "finalize_assistant_turn E ?i q tn (st1\<lparr>ch_world := w3, ch_store := sto\<rparr>) = (fs2, st2)"
          by fastforce
        have out: "fs = fs1 @ fs2" "ps = []" "st' = st2"
          using assms(3) r e ok Some False s f
          by (simp_all add: process_user_message_def msg_create_def sto_def st1_def Let_def)
        have "ticket_env_ok (ct_agent E) ?w" using assms(2) by (simp add: ticket_env_ok_def)
        from answered_turn [OF assms(1) this s f] show ?thesis using False out by simp
      qed
      then show ?thesis using u e Some own gate ok by auto
    qed
  qed
qed

text \<open>A user's message leaves the conversations of other users, and their messages, alone.\<close>

lemma message_isolation:
  assumes "ae_policy (ct_agent E) = default_policy" "ticket_env_ok (ct_agent E) (ch_world st)"
    and "process_user_message E u raw q cancel st = (fs, ps, st')"
    and "ct_conv_id E \<notin> cv_id ` set (w_convs (ch_world st))" "distinct (map cv_id (w_convs (ch_world st)))"
    and "row_of cv_id j (w_convs (ch_world st)) = Some c" "cv_user c \<noteq> u"
  shows "row_of cv_id j (w_convs (ch_world st')) = Some c
     \<and> filter (\<lambda>m. ms_conv m = j) (w_msgs (ch_world st')) = filter (\<lambda>m. ms_conv m = j) (w_msgs (ch_world st))"
proof -
  note c = message_contract [OF assms(1-3)]
  show ?thesis
  proof (cases "fst (check_rate_limit (ct_rate_limit E) (ct_redis_up E) (ct_now E) u (ch_rates st)) \<noteq> RateOk
       \<or> foreign u raw (w_convs (ch_world st))")
    case True
    then show ?thesis using c assms(6) by (simp add: rejected_def)
  next
    case False
    then obtain d convs where d: "ensure_conversation E raw u (w_convs (ch_world st)) = (Some d, convs)" "cv_user d = u"
      "if cv_status d = CTransferred
       then relayed E (cv_id d) q fs ps ((ch_world st)\<lparr>w_convs := convs\<rparr>) (ch_world st')
       else answered E (cv_id d) q fs ((ch_world st)\<lparr>w_convs := convs\<rparr>) (ch_world st')"
      using c by (auto split: if_splits)
    have same: "row_of cv_id j convs = Some c"
      using ensure_cases [OF d(1)] assms(6) by (auto simp: row_of_append)
    have "j \<in> cv_id ` set (w_convs (ch_world st))" using assms(6) row_of_Some by fastforce
    then have ne: "cv_id d \<noteq> j"
      using ensure_source [OF d(1)] assms(4,6,7) d(2) by auto
    show ?thesis
    proof (cases "cv_status d = CTransferred")
      case True
      then show ?thesis using d(3) same ne by (auto simp: relayed_def user_message_def)
    next
      case no: False
      then obtain m w1 where w: "w_msgs (ch_world st') = w_msgs (ch_world st) @ [user_message E (cv_id d) q, m]"
        "ms_conv m = cv_id d" "turn_frame (Hex (cv_id d)) ((ch_world st)\<lparr>w_convs := convs\<rparr>) w1"
        "ch_world st' = w1\<lparr>w_msgs := w_msgs (ch_world st'), w_gaps := w_gaps (ch_world st')\<rparr>"
        using d(3) by (auto simp: answered_def)
      have "w_convs (ch_world st') = w_convs w1" by (subst w(4)) simp
      then have "row_of cv_id j (w_convs (ch_world st')) = Some c"
        using w(3) ne same by (simp add: turn_frame_def)
      then show ?thesis using w(1,2) ne by (simp add: user_message_def)
    qed
  qed
qed


definition sample_chat :: chat_env where
  "sample_chat = \<lparr>ct_now = 5, ct_rate_limit = 20, ct_redis_up = True, ct_mask = False, ct_agent = sample_env,
     ct_fate = AgentRuns, ct_loads = \<lambda>_. None, ct_judge = \<lambda>_ _. None,
     ct_gap = \<lparr>gn_nfkc = id, gn_lower = lower, gn_sha = id, gn_db = True, gn_lookup = True, gn_id = 6, gn_now = 5\<rparr>,
     ct_rate_text = [], ct_conv_id = 30, ct_user_msg = 41, ct_answer_msg = 42, ct_answer_time = 7\<rparr>"

definition sample_start :: chat_state where
  "sample_start = \<lparr>ch_world = empty_world, ch_store = \<lambda>_. [], ch_rates = \<lambda>_. (0, 0)\<rparr>"

definition fresh_conv :: conversation where
  "fresh_conv = \<lparr>cv_id = 30, cv_user = 1, cv_status = CActive, cv_title = None, cv_meta = None, cv_created = 5,
     cv_updated = 5\<rparr>"


subsection \<open>Rate, connections and ratings\<close>

text \<open>
  While the requests of a user come less than a minute apart the counter never starts again, so a
  user who asks steadily but slowly is refused after the limit, however long that took.
\<close>

fun steady :: "int \<Rightarrow> int list \<Rightarrow> bool" where
  "steady e [] = True"
| "steady e (t # ts) \<longleftrightarrow> t < e \<and> steady (t + RATE_WINDOW) ts"

lemma rate_counts:
  assumes "steady (snd (rs u)) ts"
  shows "fst (fold (\<lambda>t rs. snd (check_rate_limit n True t u rs)) ts rs u) = fst (rs u) + length ts"
  using assms
proof (induction ts arbitrary: rs)
  case (Cons t ts)
  let ?rs = "snd (check_rate_limit n True t u rs)"
  have "?rs u = (fst (rs u) + 1, t + RATE_WINDOW)"
    using Cons.prems by (auto simp: check_rate_limit_def Let_def case_prod_beta)
  then show ?case using Cons.IH [of ?rs] Cons.prems by simp
qed simp

lemma rate_others: "v \<noteq> u \<Longrightarrow> snd (check_rate_limit n up t u rs) v = rs v"
  by (simp add: check_rate_limit_def Let_def case_prod_beta)

lemma rate_over:
  "steady (snd (rs u)) (ts @ [t]) \<Longrightarrow> n \<le> fst (rs u) + length ts \<Longrightarrow>
   fst (check_rate_limit n True t u (fold (\<lambda>t rs. snd (check_rate_limit n True t u rs)) ts rs)) = RateOver"
proof -
  let ?r = "fold (\<lambda>t rs. snd (check_rate_limit n True t u rs)) ts rs"
  assume s: "steady (snd (rs u)) (ts @ [t])" and n: "n \<le> fst (rs u) + length ts"
  have "fst (snd (check_rate_limit n True t u ?r) u) = fst (rs u) + length ts + 1"
    using rate_counts [where rs = rs and u = u and ts = "ts @ [t]" and n = n] s by simp
  then show ?thesis using n by (auto simp: check_rate_limit_def Let_def case_prod_beta split: if_splits)
qed

lemma receivers_connect: "mg_receivers v (mg_connect k u m) =
    (if v = u then insert k (mg_receivers v m) else mg_user m v \<inter> insert k (mg_open m))"
  by (auto simp: mg_receivers_def mg_connect_def)

lemma receivers_disconnect: "k \<notin> mg_receivers v (mg_disconnect k u m)"
  by (simp add: mg_receivers_def mg_disconnect_def)

definition fb_key :: "feedback \<Rightarrow> uuid \<times> uuid" where
  "fb_key f = (fb_message f, fb_user f)"

text \<open>A user has one rating of a message, the latest, and other ratings are left alone.\<close>

lemma feedback_upsert_ok:
  assumes "distinct (map fb_key rows)"
  shows "distinct (map fb_key (snd (feedback_upsert i now m u r c rows)))
     \<and> (\<exists>f. fst (feedback_upsert i now m u r c rows) = Some f \<and> fb_key f = (m, u) \<and> fb_rating f = r \<and> fb_comment f = c
          \<and> f \<in> set (snd (feedback_upsert i now m u r c rows)))
     \<and> filter (\<lambda>f. fb_key f \<noteq> (m, u)) (snd (feedback_upsert i now m u r c rows)) = filter (\<lambda>f. fb_key f \<noteq> (m, u)) rows"
proof -
  let ?hit = "\<lambda>f. fb_message f = m \<and> fb_user f = u"
  let ?rows = "snd (feedback_upsert i now m u r c rows)"
  have keys: "map fb_key ?rows = map fb_key rows @ (if list_ex ?hit rows then [] else [(m, u)])"
    by (auto simp: feedback_upsert_def Let_def fb_key_def)
  have new: "(m, u) \<notin> fb_key ` set rows" if "\<not> list_ex ?hit rows"
    using that by (auto simp: fb_key_def list_ex_iff)
  have d: "distinct (map fb_key ?rows)" using assms new unfolding keys by simp
  have "(m, u) \<in> set (map fb_key ?rows)"
    unfolding keys by (auto simp: list_ex_iff fb_key_def image_iff)
  then have "find ?hit ?rows \<noteq> None" by (auto simp: find_None_iff fb_key_def)
  then obtain f where f: "find ?hit ?rows = Some f" by blast
  then have hit: "?hit f" "f \<in> set ?rows" by (auto simp: find_Some_iff)
  have "\<forall>f \<in> set ?rows. ?hit f \<longrightarrow> fb_rating f = r \<and> fb_comment f = c"
    unfolding feedback_upsert_def Let_def snd_conv by (cases "list_ex ?hit rows") (auto simp: list_ex_iff)
  then have vals: "fb_rating f = r \<and> fb_comment f = c" using hit by blast
  have "filter (\<lambda>f. fb_key f \<noteq> (m, u)) (map (\<lambda>f. if ?hit f then f\<lparr>fb_rating := r, fb_comment := c\<rparr> else f) rows)
      = filter (\<lambda>f. fb_key f \<noteq> (m, u)) rows"
    by (induction rows) (auto simp: fb_key_def)
  then have others: "filter (\<lambda>f. fb_key f \<noteq> (m, u)) ?rows = filter (\<lambda>f. fb_key f \<noteq> (m, u)) rows"
    by (simp add: feedback_upsert_def Let_def fb_key_def)
  have "fst (feedback_upsert i now m u r c rows) = find ?hit ?rows" by (simp add: feedback_upsert_def Let_def)
  then show ?thesis using d f hit vals others by (simp add: fb_key_def)
qed

end
