(* ===== verification/ConfigCache.thy ===== *)
theory ConfigCache
  imports Prelude
begin

text \<open>
  \<open>core/config_cache.py\<close>: the in-process cache that the route table and the prompt table are read
  through. A cache has a value, the time its load began and the number of invalidations so far.
  A load is split where the code awaits: it begins, the loader reads the committed rows (or fails
  and gives the empty table), and it ends. Workers, their loads, commits, invalidations and the
  messages of the channel interleave as the steps of a transition relation.

  Lemmas: what a cache may still serve, in every reachable state. The log of commits and the
  version a worker has last been told of exist only to state them.
\<close>

subsection \<open>One cache\<close>

definition CONFIG_CACHE_TTL_SECONDS :: int where "CONFIG_CACHE_TTL_SECONDS = 60"

record 'v cache =
  cc_value :: "'v option"
  cc_loaded_at :: int
  cc_seq :: nat

definition new_cache :: "'v cache" where
  "new_cache = \<lparr>cc_value = None, cc_loaded_at = 0, cc_seq = 0\<rparr>"

definition cache_hit :: "int \<Rightarrow> 'v cache \<Rightarrow> 'v option" where
  "cache_hit now c =
     (case cc_value c of None \<Rightarrow> None
      | Some v \<Rightarrow> if now - cc_loaded_at c < CONFIG_CACHE_TTL_SECONDS then Some v else None)"

text \<open>After a miss: the time and the sequence number a load keeps until it ends.\<close>

definition load_end :: "int \<Rightarrow> nat \<Rightarrow> 'v \<Rightarrow> 'v cache \<Rightarrow> 'v cache" where
  "load_end start seq v c = (if cc_seq c = seq then c\<lparr>cc_value := Some v, cc_loaded_at := start\<rparr> else c)"

definition invalidate :: "'v cache \<Rightarrow> 'v cache" where
  "invalidate c = c\<lparr>cc_value := None, cc_loaded_at := 0, cc_seq := cc_seq c + 1\<rparr>"

text \<open>A \<open>get\<close> that nothing interleaves with.\<close>

definition cache_get :: "int \<Rightarrow> 'v \<Rightarrow> 'v cache \<Rightarrow> 'v \<times> 'v cache" where
  "cache_get now loaded c =
     (case cache_hit now c of Some v \<Rightarrow> (v, c) | None \<Rightarrow> (loaded, load_end now (cc_seq c) loaded c))"

lemma get_after_invalidate: "fst (cache_get now v (invalidate c)) = v"
  by (simp add: cache_get_def cache_hit_def invalidate_def)

lemma get_again:
  assumes "cache_get now v c = (x, c')" "now \<le> t" "t - cc_loaded_at c' < CONFIG_CACHE_TTL_SECONDS"
  shows "fst (cache_get t w c') = x"
  using assms by (auto simp: cache_get_def cache_hit_def load_end_def split: option.splits if_splits)

subsection \<open>Workers, commits and messages\<close>

text \<open>
  \<open>fl_read\<close> is what the loader has read, with the version it is (\<open>None\<close> for the empty table of a
  failed load). \<open>pt_hist\<close> has the committed tables in order with their commit times; version \<open>k\<close> is
  its \<open>k\<close>-th entry. \<open>pt_told w\<close> is the version in force when \<open>w\<close> last dropped its cache.
\<close>

record 'v flight =
  fl_worker :: nat
  fl_start :: int
  fl_seq :: nat
  fl_read :: "('v \<times> nat option) option"

record 'v plant =
  pt_clock :: int
  pt_hist :: "(int \<times> 'v) list"
  pt_cache :: "nat \<Rightarrow> 'v cache"
  pt_flights :: "'v flight list"
  pt_wire :: "nat list"
  pt_told :: "nat \<Rightarrow> nat"

definition drop_cache :: "nat \<Rightarrow> 'v plant \<Rightarrow> 'v plant" where
  "drop_cache w P = P\<lparr>pt_cache := (pt_cache P)(w := invalidate (pt_cache P w)),
     pt_told := (pt_told P)(w := length (pt_hist P) - 1)\<rparr>"

inductive plant_step :: "'v \<Rightarrow> 'v plant \<Rightarrow> 'v plant \<Rightarrow> bool" for blank :: 'v where
  tick: "0 < d \<Longrightarrow> plant_step blank P (P\<lparr>pt_clock := pt_clock P + d\<rparr>)"
| load: "cache_hit (pt_clock P) (pt_cache P w) = None \<Longrightarrow>
    plant_step blank P (P\<lparr>pt_flights := pt_flights P @
      [\<lparr>fl_worker = w, fl_start = pt_clock P, fl_seq = cc_seq (pt_cache P w), fl_read = None\<rparr>]\<rparr>)"
| read: "i < length (pt_flights P) \<Longrightarrow> fl_read (pt_flights P ! i) = None \<Longrightarrow>
    plant_step blank P (P\<lparr>pt_flights := (pt_flights P)[i := (pt_flights P ! i)
      \<lparr>fl_read := Some (snd (last (pt_hist P)), Some (length (pt_hist P) - 1))\<rparr>]\<rparr>)"
| failed: "i < length (pt_flights P) \<Longrightarrow> fl_read (pt_flights P ! i) = None \<Longrightarrow>
    plant_step blank P (P\<lparr>pt_flights := (pt_flights P)[i := (pt_flights P ! i)\<lparr>fl_read := Some (blank, None)\<rparr>]\<rparr>)"
| finish: "i < length (pt_flights P) \<Longrightarrow> pt_flights P ! i = f \<Longrightarrow> fl_read f = Some (v, k) \<Longrightarrow>
    plant_step blank P (P\<lparr>pt_cache := (pt_cache P)(fl_worker f :=
        load_end (fl_start f) (fl_seq f) v (pt_cache P (fl_worker f))),
      pt_flights := take i (pt_flights P) @ drop (Suc i) (pt_flights P)\<rparr>)"
| commit: "plant_step blank P (P\<lparr>pt_hist := pt_hist P @ [(pt_clock P, v)]\<rparr>)"
| update: "plant_step blank P ((drop_cache w P)\<lparr>pt_wire := pt_wire P @ subscribers\<rparr>)"
| deliver: "pt_wire P = w # ws \<Longrightarrow> plant_step blank P (drop_cache w (P\<lparr>pt_wire := ws\<rparr>))"
| lose: "pt_wire P = w # ws \<Longrightarrow> plant_step blank P (P\<lparr>pt_wire := ws\<rparr>)"

definition plant_start :: "int \<Rightarrow> 'v \<Rightarrow> 'v plant" where
  "plant_start now v = \<lparr>pt_clock = now, pt_hist = [(now, v)], pt_cache = (\<lambda>_. new_cache), pt_flights = [],
     pt_wire = [], pt_told = (\<lambda>_. 0)\<rparr>"

inductive plant_reach :: "'v \<Rightarrow> 'v plant \<Rightarrow> bool" for blank :: 'v where
  start: "plant_reach blank (plant_start now v)"
| step: "plant_reach blank P \<Longrightarrow> plant_step blank P Q \<Longrightarrow> plant_reach blank Q"

inductive_cases plant_stepE: "plant_step blank P Q"

subsection \<open>What a cache may serve\<close>

text \<open>
  Version \<open>k\<close> was still in force at time \<open>t\<close> or later: it is the last one, or the commit that
  superseded it is not earlier than \<open>t\<close>.
\<close>

definition in_force :: "int \<Rightarrow> nat \<Rightarrow> (int \<times> 'v) list \<Rightarrow> bool" where
  "in_force t k hist \<longleftrightarrow> k < length hist \<and> (Suc k < length hist \<longrightarrow> t \<le> fst (hist ! Suc k))"

definition servable :: "'v \<Rightarrow> int \<Rightarrow> nat \<Rightarrow> 'v \<Rightarrow> (int \<times> 'v) list \<Rightarrow> bool" where
  "servable blank t told v hist \<longleftrightarrow> v = blank \<or> (\<exists>k. told \<le> k \<and> in_force t k hist \<and> snd (hist ! k) = v)"

definition flight_ok :: "'v \<Rightarrow> 'v plant \<Rightarrow> 'v flight \<Rightarrow> bool" where
  "flight_ok blank P f \<longleftrightarrow> fl_start f \<le> pt_clock P \<and> fl_seq f \<le> cc_seq (pt_cache P (fl_worker f))
     \<and> (\<forall>v k. fl_seq f = cc_seq (pt_cache P (fl_worker f)) \<longrightarrow> fl_read f = Some (v, k) \<longrightarrow>
          servable blank (fl_start f) (pt_told P (fl_worker f)) v (pt_hist P))"

definition cache_ok :: "'v \<Rightarrow> 'v plant \<Rightarrow> nat \<Rightarrow> bool" where
  "cache_ok blank P w \<longleftrightarrow> (\<forall>v. cc_value (pt_cache P w) = Some v \<longrightarrow> cc_loaded_at (pt_cache P w) \<le> pt_clock P
     \<and> servable blank (cc_loaded_at (pt_cache P w)) (pt_told P w) v (pt_hist P))"

definition plant_ok :: "'v \<Rightarrow> 'v plant \<Rightarrow> bool" where
  "plant_ok blank P \<longleftrightarrow> pt_hist P \<noteq> [] \<and> (\<forall>w. pt_told P w < length (pt_hist P))
     \<and> (\<forall>f \<in> set (pt_flights P). flight_ok blank P f) \<and> (\<forall>w. cache_ok blank P w)"

lemma in_force_last: "hist \<noteq> [] \<Longrightarrow> in_force t (length hist - 1) hist"
  by (simp add: in_force_def)

lemma in_force_commit: "in_force t k hist \<Longrightarrow> t \<le> now \<Longrightarrow> in_force t k (hist @ [(now, v)])"
  by (auto simp: in_force_def nth_append)

lemma servable_commit: "servable e t told v hist \<Longrightarrow> t \<le> now \<Longrightarrow> servable e t told v (hist @ [(now, x)])"
  unfolding servable_def by (metis in_force_commit in_force_def nth_append)

lemma start_ok: "plant_ok blank (plant_start now v)"
  by (simp add: plant_ok_def plant_start_def cache_ok_def new_cache_def)

lemma in_list_update: "f \<in> set (xs[i := y]) \<Longrightarrow> f = y \<or> f \<in> set xs"
  by (meson insertE set_update_subset_insert subsetD)

lemma step_read_ok:
  assumes "plant_ok blank P" "i < length (pt_flights P)" "fl_read (pt_flights P ! i) = None"
    and "servable blank (fl_start (pt_flights P ! i)) (pt_told P (fl_worker (pt_flights P ! i))) v (pt_hist P)"
  shows "plant_ok blank (P\<lparr>pt_flights := (pt_flights P)[i := (pt_flights P ! i)\<lparr>fl_read := Some (v, k)\<rparr>]\<rparr>)"
proof -
  have "flight_ok blank P (pt_flights P ! i)" using assms(1,2) by (simp add: plant_ok_def)
  then have "flight_ok blank P ((pt_flights P ! i)\<lparr>fl_read := Some (v, k)\<rparr>)"
    using assms(4) by (simp add: flight_ok_def)
  then show ?thesis using assms(1) by (auto simp: plant_ok_def flight_ok_def cache_ok_def dest!: in_list_update)
qed

lemma finish_ok:
  assumes "plant_ok blank P" "f \<in> set (pt_flights P)" "fl_read f = Some (v, k)" "set fs \<subseteq> set (pt_flights P)"
  shows "plant_ok blank (P\<lparr>pt_cache := (pt_cache P)(fl_worker f :=
        load_end (fl_start f) (fl_seq f) v (pt_cache P (fl_worker f))), pt_flights := fs\<rparr>)"
proof -
  have f: "flight_ok blank P f" "fl_start f \<le> pt_clock P" using assms(1,2) by (auto simp: plant_ok_def flight_ok_def)
  have seq: "cc_seq (load_end t n v c) = cc_seq c" for t n c by (simp add: load_end_def)
  have same: "flight_ok blank (P\<lparr>pt_cache := (pt_cache P)(w := load_end t n v (pt_cache P w)), pt_flights := fs\<rparr>) g
      = flight_ok blank P g" for t n w g
    by (simp add: flight_ok_def seq)
  let ?c = "(pt_cache P)(fl_worker f := load_end (fl_start f) (fl_seq f) v (pt_cache P (fl_worker f)))"
  have "cache_ok blank (P\<lparr>pt_cache := ?c, pt_flights := fs\<rparr>) w" for w
  proof -
    have c: "cache_ok blank P w" using assms(1) by (simp add: plant_ok_def)
    show ?thesis
    proof (cases "w = fl_worker f \<and> cc_seq (pt_cache P w) = fl_seq f")
      case True
      then show ?thesis using f assms(3) by (auto simp: cache_ok_def flight_ok_def load_end_def)
    next
      case False
      then show ?thesis using c by (auto simp: cache_ok_def load_end_def)
    qed
  qed
  moreover have "\<forall>g \<in> set fs. flight_ok blank P g" using assms(1,4) by (auto simp: plant_ok_def)
  ultimately show ?thesis using assms(1) unfolding plant_ok_def same by auto
qed

lemma drop_ok:
  assumes "plant_ok blank P" shows "plant_ok blank (drop_cache w P)"
proof -
  have "flight_ok blank (drop_cache w P) f" if "flight_ok blank P f" for f
    using that by (auto simp: flight_ok_def drop_cache_def invalidate_def)
  moreover have "length (pt_hist P) - 1 < length (pt_hist P)" using assms by (simp add: plant_ok_def)
  ultimately show ?thesis using assms
    by (auto simp: plant_ok_def cache_ok_def drop_cache_def invalidate_def)
qed

lemma commit_ok:
  assumes "plant_ok blank P" shows "plant_ok blank (P\<lparr>pt_hist := pt_hist P @ [(pt_clock P, v)]\<rparr>)"
  using assms servable_commit [of blank _ _ _ "pt_hist P" "pt_clock P" v]
  by (auto simp: plant_ok_def cache_ok_def flight_ok_def less_Suc_eq)

lemma step_ok: "plant_step blank P Q \<Longrightarrow> plant_ok blank P \<Longrightarrow> plant_ok blank Q"
proof (induction rule: plant_step.induct)
  case (tick d P)
  then show ?case by (force simp: plant_ok_def flight_ok_def cache_ok_def)
next
  case (load P w)
  then show ?case by (auto simp: plant_ok_def flight_ok_def cache_ok_def)
next
  case (read i P)
  let ?f = "pt_flights P ! i" and ?k = "length (pt_hist P) - 1"
  have "pt_hist P \<noteq> []" "pt_told P (fl_worker ?f) < length (pt_hist P)" using read(3) by (simp_all add: plant_ok_def)
  then have "pt_hist P \<noteq> []" "pt_told P (fl_worker ?f) \<le> ?k" by simp_all
  then have "servable blank (fl_start ?f) (pt_told P (fl_worker ?f)) (snd (last (pt_hist P))) (pt_hist P)"
    unfolding servable_def using in_force_last by (metis last_conv_nth)
  then show ?case by (rule step_read_ok [OF read(3,1,2)])
next
  case (failed i P)
  then show ?case by (intro step_read_ok) (simp_all add: servable_def)
next
  case (finish i P f v k)
  have "set (take i (pt_flights P) @ drop (Suc i) (pt_flights P)) \<subseteq> set (pt_flights P)"
    using set_take_subset set_drop_subset by (metis Un_least set_append)
  then show ?case using finish by (intro finish_ok) auto
next
  case (commit P v)
  then show ?case by (rule commit_ok)
next
  case (update P subscribers w)
  then show ?case using drop_ok [of blank P w] by (simp add: plant_ok_def flight_ok_def cache_ok_def drop_cache_def)
next
  case (deliver P w ws)
  then have "plant_ok blank (P\<lparr>pt_wire := ws\<rparr>)" by (simp add: plant_ok_def flight_ok_def cache_ok_def)
  then show ?case by (rule drop_ok)
next
  case (lose P w ws)
  then show ?case by (simp add: plant_ok_def flight_ok_def cache_ok_def)
qed

lemma reach_ok: "plant_reach blank P \<Longrightarrow> plant_ok blank P"
  by (induction rule: plant_reach.induct) (auto intro: start_ok step_ok)

text \<open>
  C10: what a cache may serve. Whatever the loads, commits, invalidations, lost messages and
  failed reads of the workers, a cache hit is the empty table of a failed read or a committed
  table. That table is not one that had been superseded when the worker last dropped its cache,
  even when a load was on its way then, and it was superseded less than a minute ago, if at all.
\<close>

theorem cache_serves:
  assumes "plant_reach blank P" "cache_hit (pt_clock P) (pt_cache P w) = Some v"
  shows "v = blank \<or> (\<exists>k. pt_told P w \<le> k \<and> k < length (pt_hist P) \<and> snd (pt_hist P ! k) = v
     \<and> (Suc k < length (pt_hist P) \<longrightarrow> pt_clock P - CONFIG_CACHE_TTL_SECONDS < fst (pt_hist P ! Suc k)))"
proof -
  have v: "cc_value (pt_cache P w) = Some v" "pt_clock P - CONFIG_CACHE_TTL_SECONDS < cc_loaded_at (pt_cache P w)"
    using assms(2) by (auto simp: cache_hit_def split: option.splits if_splits)
  have "cache_ok blank P w" using reach_ok [OF assms(1)] by (simp add: plant_ok_def)
  then have "servable blank (cc_loaded_at (pt_cache P w)) (pt_told P w) v (pt_hist P)"
    using v(1) by (simp add: cache_ok_def)
  then show ?thesis using v(2) unfolding servable_def in_force_def by fastforce
qed

text \<open>
  A trace in the order of \<open>admin/service.py\<close>, which drops the caches before the request commits:
  with a load in between, the old table is cached again after everyone was told, and is served
  after the commit.
\<close>

definition stale_plant :: "nat plant" where
  "stale_plant = (let P = drop_cache 0 (drop_cache 0 (plant_start 0 7)) in P\<lparr>
     pt_cache := (pt_cache P)(0 := load_end 0 2 7 (pt_cache P 0)), pt_hist := [(0, 7), (0, 8)]\<rparr>)"

lemma stale_reach: "plant_reach 9 stale_plant"
proof -
  define P0 :: "nat plant" where "P0 = plant_start 0 7"
  define P1 where "P1 = (drop_cache 0 P0)\<lparr>pt_wire := pt_wire P0 @ [0]\<rparr>"
  define P2 where "P2 = drop_cache 0 (P1\<lparr>pt_wire := []\<rparr>)"
  define f :: "nat flight" where "f = \<lparr>fl_worker = 0, fl_start = pt_clock P2, fl_seq = cc_seq (pt_cache P2 0), fl_read = None\<rparr>"
  define P3 where "P3 = P2\<lparr>pt_flights := pt_flights P2 @ [f]\<rparr>"
  define P4 where "P4 = P3\<lparr>pt_flights := (pt_flights P3)[0 := (pt_flights P3 ! 0)
      \<lparr>fl_read := Some (snd (last (pt_hist P3)), Some (length (pt_hist P3) - 1))\<rparr>]\<rparr>"
  let ?g = "pt_flights P4 ! 0"
  define P5 where "P5 = P4\<lparr>pt_cache := (pt_cache P4)(fl_worker ?g :=
        load_end (fl_start ?g) (fl_seq ?g) 7 (pt_cache P4 (fl_worker ?g))),
      pt_flights := take 0 (pt_flights P4) @ drop (Suc 0) (pt_flights P4)\<rparr>"
  define P6 where "P6 = P5\<lparr>pt_hist := pt_hist P5 @ [(pt_clock P5, 8)]\<rparr>"
  note defs = P0_def P1_def P2_def f_def P3_def P4_def P5_def P6_def plant_start_def drop_cache_def invalidate_def
    new_cache_def load_end_def
  have s0: "plant_reach 9 P0" unfolding P0_def by (rule plant_reach.start)
  have s1: "plant_reach 9 P1" unfolding P1_def by (rule plant_reach.step [OF s0 plant_step.update])
  have s2: "plant_reach 9 P2" unfolding P2_def
    by (rule plant_reach.step [OF s1 plant_step.deliver]) (simp add: defs)
  have s3: "plant_reach 9 P3" unfolding P3_def f_def
    by (rule plant_reach.step [OF s2 plant_step.load]) (simp add: defs cache_hit_def)
  have s4: "plant_reach 9 P4" unfolding P4_def
    by (rule plant_reach.step [OF s3 plant_step.read]) (simp_all add: defs)
  have s5: "plant_reach 9 P5" unfolding P5_def
    by (rule plant_reach.step [OF s4 plant_step.finish [where f = "?g" and v = 7 and k = "Some 0"]]) (simp_all add: defs)
  have s6: "plant_reach 9 P6" unfolding P6_def by (rule plant_reach.step [OF s5 plant_step.commit])
  have "P6 = stale_plant" by (simp add: stale_plant_def defs Let_def)
  then show ?thesis using s6 by simp
qed

theorem cache_serves_witness:
  "cache_hit (pt_clock stale_plant) (pt_cache stale_plant 0) = Some 7 \<and> snd (last (pt_hist stale_plant)) = 8
     \<and> (\<exists>k. pt_told stale_plant 0 \<le> k \<and> snd (pt_hist stale_plant ! k) = 7)"
proof -
  have h: "cache_hit (pt_clock stale_plant) (pt_cache stale_plant 0) = Some 7" "snd (last (pt_hist stale_plant)) = 8"
    by (simp_all add: stale_plant_def Let_def drop_cache_def plant_start_def cache_hit_def load_end_def invalidate_def
        new_cache_def CONFIG_CACHE_TTL_SECONDS_def)
  show ?thesis using cache_serves [OF stale_reach h(1)] h by auto
qed

end
