(* ===== verification/Prompts.thy ===== *)
theory Prompts
  imports Agent ConfigCache Gaps "HOL-Library.List_Lexorder"
begin

text \<open>
  Stored prompts and the route table: \<open>core/prompts.py\<close>, \<open>repositories/prompt_repo.py\<close>,
  \<open>repositories/intent_config_repo.py\<close>, \<open>admin/service.py\<close>, \<open>admin/prompt_router.py\<close> and the intent
  endpoints of \<open>admin/router.py\<close>. A request works on the tables of a \<open>site\<close>, which also has the
  two caches of the worker and counts the invalidations it publishes.

  Lemmas: version numbers, the append-only history, what an edit or a roll-back makes the loader
  give, and that a template that passes the check on saving formats when it is used.
\<close>

subsection \<open>Reading\<close>

definition MAX_PROMPT_CONTENT_CHARS :: nat where "MAX_PROMPT_CONTENT_CHARS = 20000"
definition MAX_VERSIONS_LISTED :: nat where "MAX_VERSIONS_LISTED = 50"

definition default_prompt :: "string \<Rightarrow> ustr option" where
  "default_prompt key = map_of
     [(''rag.system'', SYSTEM_PROMPT), (''rag.context'', CONTEXT_TEMPLATE),
      (''rag.fallback_no_results'', NO_RESULTS_REFUSAL), (''rag.fallback_llm_down'', LLM_DOWN_FALLBACK_PREFIX),
      (''intent.classifier'', INTENT_PROMPT), (''agent.clarify'', CLARIFY_RESPONSE)] key"

definition load_active_contents :: "template list \<Rightarrow> version_row list \<Rightarrow> (string \<times> ustr) list" where
  "load_active_contents ts vs = List.map_filter (\<lambda>t.
     if tp_enabled t then map_option (\<lambda>v. (tp_key t, vr_content v)) (Option.bind (tp_active t) (\<lambda>i. row_of vr_id i vs))
     else None) ts"

definition load_prompts :: "bool \<Rightarrow> world \<Rightarrow> (string \<times> ustr) list" where
  "load_prompts up w = (if up then load_active_contents (w_templates w) (w_versions w) else [])"

text \<open>\<open>None\<close> is the \<open>KeyError\<close> of a key nobody declared.\<close>

definition get_prompt ::
  "int \<Rightarrow> (string \<times> ustr) list \<Rightarrow> string \<Rightarrow> (string \<times> ustr) list cache \<Rightarrow> ustr option \<times> (string \<times> ustr) list cache" where
  "get_prompt now loaded key c =
     (case cache_get now loaded c of
        (prompts, c') \<Rightarrow> (case map_of prompts key of
            None \<Rightarrow> default_prompt key
          | Some s \<Rightarrow> if s = [] then default_prompt key else Some s, c'))"

subsection \<open>The repository\<close>

definition template_get :: "string \<Rightarrow> template list \<Rightarrow> template option" where
  "template_get key ts = row_of tp_key key ts"

definition get_active_version :: "template \<Rightarrow> version_row list \<Rightarrow> version_row option" where
  "get_active_version t vs = Option.bind (tp_active t) (\<lambda>i. row_of vr_id i vs)"

definition list_with_active_version :: "template list \<Rightarrow> version_row list \<Rightarrow> (template \<times> version_row option) list" where
  "list_with_active_version ts vs =
     map (\<lambda>t. (t, get_active_version t vs)) (sort_key (\<lambda>t. map (of_char :: char \<Rightarrow> nat) (tp_key t)) ts)"

definition get_version :: "uuid \<Rightarrow> nat \<Rightarrow> version_row list \<Rightarrow> version_row option" where
  "get_version t n vs = find (\<lambda>v. vr_template v = t \<and> vr_version v = n) vs"

definition list_versions :: "uuid \<Rightarrow> nat \<Rightarrow> nat \<Rightarrow> version_row list \<Rightarrow> version_row list" where
  "list_versions t limit offset vs =
     page limit offset (sort_key (\<lambda>v. - int (vr_version v)) (filter (\<lambda>v. vr_template v = t) vs))"

definition count_versions :: "uuid \<Rightarrow> version_row list \<Rightarrow> nat" where
  "count_versions t vs = length (filter (\<lambda>v. vr_template v = t) vs)"

definition next_version :: "uuid \<Rightarrow> version_row list \<Rightarrow> nat" where
  "next_version t vs = foldr (\<lambda>v m. if vr_template v = t then max (vr_version v) m else m) vs 0 + 1"

text \<open>\<open>rival\<close> is what others commit between the query and the insert; the unique index decides.\<close>

definition append_version ::
  "uuid \<Rightarrow> (version_row list \<Rightarrow> version_row list) \<Rightarrow> uuid \<Rightarrow> ustr \<Rightarrow> uuid option \<Rightarrow> ustr option
   \<Rightarrow> version_row list \<Rightarrow> version_row option \<times> version_row list" where
  "append_version i rival t content by comment vs =
     (let n = next_version t vs; vs' = rival vs;
          r = \<lparr>vr_id = i, vr_template = t, vr_version = n, vr_content = content, vr_by = by, vr_comment = comment\<rparr>
      in if list_ex (\<lambda>v. vr_template v = t \<and> vr_version v = n) vs' then (None, vs') else (Some r, vs' @ [r]))"

definition activate_version :: "uuid \<Rightarrow> uuid \<Rightarrow> template list \<Rightarrow> template list" where
  "activate_version t i ts = set_row tp_id t (\<lambda>r. r\<lparr>tp_active := Some i\<rparr>) ts"

subsection \<open>The check on saving\<close>

text \<open>
  The content is formatted with ''x'' for every declared name. A field that is not a plain name
  (an attribute, an index, a conversion, a format specification) is an argument; \<open>None\<close> stands
  for the errors that are reported as 422.
\<close>

definition plain_field :: "ustr \<Rightarrow> bool" where
  "plain_field name \<longleftrightarrow> list_all (\<lambda>c. c \<noteq> 46 \<and> c \<noteq> 91 \<and> c \<noteq> 33 \<and> c \<noteq> 58) name"

definition dummy_field :: "(ustr \<Rightarrow> ustr option) \<Rightarrow> string list \<Rightarrow> ustr \<Rightarrow> ustr option" where
  "dummy_field other vars name =
     (if name \<in> asc ` set vars then Some (asc ''x'') else if plain_field name then None else other name)"

definition validate_prompt_content :: "(ustr \<Rightarrow> ustr option) \<Rightarrow> ustr \<Rightarrow> string list \<Rightarrow> bool" where
  "validate_prompt_content other content vars \<longleftrightarrow> str_format (dummy_field other vars) content \<noteq> None"

subsection \<open>Editing\<close>

record site =
  st_world :: world
  st_prompts :: "(string \<times> ustr) list cache"
  st_routes :: "(string \<times> string) list cache"
  st_published :: "string list"

definition PROMPT_INVALIDATE_CHANNEL :: string where "PROMPT_INVALIDATE_CHANNEL = ''askflow:prompts:invalidate''"
definition ROUTE_MAP_INVALIDATE_CHANNEL :: string where "ROUTE_MAP_INVALIDATE_CHANNEL = ''askflow:route_map:invalidate''"

definition publish_prompt_invalidation :: "site \<Rightarrow> site" where
  "publish_prompt_invalidation S = S\<lparr>st_prompts := invalidate (st_prompts S),
     st_published := st_published S @ [PROMPT_INVALIDATE_CHANNEL]\<rparr>"

definition invalidate_routes :: "site \<Rightarrow> site" where
  "invalidate_routes S = S\<lparr>st_routes := invalidate (st_routes S),
     st_published := st_published S @ [ROUTE_MAP_INVALIDATE_CHANNEL]\<rparr>"

text \<open>
  \<open>ed_other\<close> is how unusual format fields behave, \<open>ed_reason\<close> the text of a format error,
  \<open>ed_rival\<close> what others commit meanwhile; the rest are the identifiers and the trace the request
  writes.
\<close>

record edit_env =
  ed_other :: "ustr \<Rightarrow> ustr option"
  ed_reason :: ustr
  ed_rival :: "version_row list \<Rightarrow> version_row list"
  ed_id :: uuid
  ed_audit :: uuid
  ed_trace :: string
  ed_now :: int

definition quoted :: "string \<Rightarrow> ustr" where
  "quoted s = [39] @ asc s @ [39]"

definition template_missing :: "string \<Rightarrow> exn" where
  "template_missing key = Exn ''NotFoundError'' (asc ''Prompt template '' @ quoted key @ asc '' not found'')"

definition service_update_prompt ::
  "edit_env \<Rightarrow> string \<Rightarrow> ustr \<Rightarrow> ustr option \<Rightarrow> uuid option \<Rightarrow> site \<Rightarrow> (exn + template \<times> version_row) \<times> site" where
  "service_update_prompt E key content comment u S =
     (let w = st_world S in
      case template_get key (w_templates w) of
        None \<Rightarrow> (Inl (template_missing key), S)
      | Some t \<Rightarrow>
         if \<not> validate_prompt_content (ed_other E) content (tp_vars t)
         then (Inl (Exn ''UnprocessableError'' (asc ''Prompt placeholder validation failed: '' @ ed_reason E)), S)
         else (case append_version (ed_id E) (ed_rival E) (tp_id t) content u comment (w_versions w) of
             (None, vs) \<Rightarrow> (Inl (Exn ''ConflictError'' (asc ''Concurrent prompt edit detected, please retry'')),
               S\<lparr>st_world := w\<lparr>w_versions := vs\<rparr>\<rparr>)
           | (Some v, vs) \<Rightarrow> (Inr (t, v), publish_prompt_invalidation (S\<lparr>st_world := w\<lparr>
               w_templates := activate_version (tp_id t) (vr_id v) (w_templates w), w_versions := vs\<rparr>\<rparr>))))"

definition service_activate_version :: "string \<Rightarrow> nat \<Rightarrow> site \<Rightarrow> (exn + template \<times> version_row) \<times> site" where
  "service_activate_version key n S =
     (let w = st_world S in
      case template_get key (w_templates w) of
        None \<Rightarrow> (Inl (template_missing key), S)
      | Some t \<Rightarrow>
         (case get_version (tp_id t) n (w_versions w) of
            None \<Rightarrow> (Inl (Exn ''NotFoundError'' (asc ''Prompt version '' @ dec n @ asc '' not found for '' @ quoted key)), S)
          | Some v \<Rightarrow> (Inr (t, v), publish_prompt_invalidation (S\<lparr>st_world := w\<lparr>
              w_templates := activate_version (tp_id t) (vr_id v) (w_templates w)\<rparr>\<rparr>))))"

definition service_list_versions ::
  "string \<Rightarrow> nat \<Rightarrow> nat \<Rightarrow> world \<Rightarrow> exn + version_row list \<times> nat" where
  "service_list_versions key limit offset w =
     (case template_get key (w_templates w) of
        None \<Rightarrow> Inl (template_missing key)
      | Some t \<Rightarrow> Inr (list_versions (tp_id t) limit offset (w_versions w), count_versions (tp_id t) (w_versions w)))"

subsection \<open>Endpoints\<close>

record prompt_view =
  pv_id :: uuid
  pv_key :: string
  pv_vars :: "string list"
  pv_enabled :: bool
  pv_version :: "nat option"
  pv_content :: "ustr option"

definition from_pair :: "template \<times> version_row option \<Rightarrow> prompt_view" where
  "from_pair tv = (case tv of (t, v) \<Rightarrow> \<lparr>pv_id = tp_id t, pv_key = tp_key t, pv_vars = tp_vars t,
     pv_enabled = tp_enabled t, pv_version = map_option vr_version v, pv_content = map_option vr_content v\<rparr>)"

definition audit_admin ::
  "edit_env \<Rightarrow> user \<Rightarrow> string \<Rightarrow> string \<Rightarrow> uuid \<Rightarrow> (string \<times> json) list option \<Rightarrow> site \<Rightarrow> site" where
  "audit_admin E u action entity i detail S = S\<lparr>st_world := (st_world S)\<lparr>w_audits :=
     record_audit (ed_audit E) (ed_now E) (ed_trace E) \<lparr>ax_actor = u, ax_action = action,
       ax_entity_type = entity, ax_entity = Some i, ax_detail = detail\<rparr> (w_audits (st_world S))\<rparr>\<rparr>"

definition list_prompts :: "user \<Rightarrow> world \<Rightarrow> prompt_view list api" where
  "list_prompts u w =
     (if \<not> is_staff u then ApiForbidden
      else ApiData (map from_pair (list_with_active_version (w_templates w) (w_versions w))))"

definition list_prompt_versions ::
  "user \<Rightarrow> string \<Rightarrow> nat \<Rightarrow> nat \<Rightarrow> world \<Rightarrow> (version_row list \<times> nat \<times> nat) api" where
  "list_prompt_versions u key limit offset w =
     (if \<not> is_staff u then ApiForbidden
      else if limit = 0 \<or> MAX_VERSIONS_LISTED < limit then ApiRaised UNPROCESSABLE
      else case service_list_versions key limit offset w of
        Inl e \<Rightarrow> ApiRaised e
      | Inr (vs, n) \<Rightarrow> ApiData (vs, n, offset div limit + 1))"

definition update_prompt ::
  "edit_env \<Rightarrow> user \<Rightarrow> string \<Rightarrow> ustr \<Rightarrow> ustr option \<Rightarrow> site \<Rightarrow> prompt_view api \<times> site" where
  "update_prompt E u key content comment S =
     (if us_role u \<noteq> RAdmin then (ApiForbidden, S)
      else if content = [] \<or> MAX_PROMPT_CONTENT_CHARS < length content then (ApiRaised UNPROCESSABLE, S)
      else case service_update_prompt E key content comment (Some (us_id u)) S of
        (Inl e, S') \<Rightarrow> (ApiRaised e, S')
      | (Inr (t, v), S') \<Rightarrow> (ApiData (from_pair (t, Some v)),
          audit_admin E u ''prompt.update'' ''prompt_template'' (tp_id t)
            (Some [(''key'', JStr (asc key)), (''version'', JInt (int (vr_version v))),
              (''comment'', case comment of None \<Rightarrow> JNull | Some x \<Rightarrow> JStr x)]) S'))"

definition activate_prompt_version ::
  "edit_env \<Rightarrow> user \<Rightarrow> string \<Rightarrow> nat \<Rightarrow> site \<Rightarrow> prompt_view api \<times> site" where
  "activate_prompt_version E u key n S =
     (if us_role u \<noteq> RAdmin then (ApiForbidden, S)
      else case service_activate_version key n S of
        (Inl e, S') \<Rightarrow> (ApiRaised e, S')
      | (Inr (t, v), S') \<Rightarrow> (ApiData (from_pair (t, Some v)),
          audit_admin E u ''prompt.activate'' ''prompt_template'' (tp_id t)
            (Some [(''key'', JStr (asc key)), (''version'', JInt (int n))]) S'))"

subsection \<open>The route table\<close>

definition intents_active :: "intent_config list \<Rightarrow> intent_config list" where
  "intents_active rows = sort_key (\<lambda>c. - ic_priority c) (filter ic_active rows)"

definition route_map_loader :: "bool \<Rightarrow> world \<Rightarrow> (string \<times> string) list" where
  "route_map_loader up w =
     (if up then fold (\<lambda>c m. AList.update (ic_name c) (ic_route c) m) (intents_active (w_intents w)) [] else [])"

text \<open>A field of an update; \<open>None\<close> is an explicit null, which only the free columns may hold.\<close>

datatype intent_field = SetRoute "string option" | SetThreshold "real option" | SetActive "bool option"
  | SetPriority "int option" | SetDisplay "ustr option" | SetLists "ustr list option" | SetDescription "ustr option"

fun apply_field :: "intent_field \<Rightarrow> intent_config \<Rightarrow> intent_config option" where
  "apply_field (SetRoute x) c = map_option (\<lambda>r. c\<lparr>ic_route := r\<rparr>) x"
| "apply_field (SetThreshold x) c = map_option (\<lambda>r. c\<lparr>ic_threshold := r\<rparr>) x"
| "apply_field (SetActive x) c = map_option (\<lambda>r. c\<lparr>ic_active := r\<rparr>) x"
| "apply_field (SetPriority x) c = map_option (\<lambda>r. c\<lparr>ic_priority := r\<rparr>) x"
| "apply_field (SetDisplay x) c = map_option (\<lambda>_. c) x"
| "apply_field (SetLists x) c = Some c"
| "apply_field (SetDescription x) c = Some c"

fun apply_fields :: "intent_field list \<Rightarrow> intent_config \<Rightarrow> intent_config option" where
  "apply_fields [] c = Some c"
| "apply_fields (f # fs) c = Option.bind (apply_field f c) (apply_fields fs)"

definition INTEGRITY :: exn where "INTEGRITY = Exn ''IntegrityError'' []"

text \<open>The name is unique.\<close>

definition intent_create :: "intent_config \<Rightarrow> intent_config list \<Rightarrow> (exn + intent_config) \<times> intent_config list" where
  "intent_create c rows =
     (if ic_name c \<in> ic_name ` set rows then (Inl INTEGRITY, rows) else (Inr c, rows @ [c]))"

definition intent_update ::
  "uuid \<Rightarrow> intent_field list \<Rightarrow> intent_config list \<Rightarrow> (exn + intent_config option) \<times> intent_config list" where
  "intent_update i fs rows =
     (case row_of ic_id i rows of
        None \<Rightarrow> (Inr None, rows)
      | Some c \<Rightarrow> (case apply_fields fs c of
          None \<Rightarrow> (Inl INTEGRITY, rows)
        | Some c' \<Rightarrow> (Inr (Some c'), set_row ic_id i (\<lambda>_. c') rows)))"

definition intent_delete :: "uuid \<Rightarrow> intent_config list \<Rightarrow> bool \<times> intent_config list" where
  "intent_delete i rows = (row_of ic_id i rows \<noteq> None, filter (\<lambda>c. ic_id c \<noteq> i) rows)"

text \<open>
  The response type has dictionaries where the request and the column have lists, so a row with
  keywords or examples does not validate: the request fails after the caches were told.
\<close>

definition RESPONSE_INVALID :: exn where "RESPONSE_INVALID = Exn ''ValidationError'' []"

definition with_intents :: "intent_config list \<Rightarrow> site \<Rightarrow> site" where
  "with_intents rows S = S\<lparr>st_world := (st_world S)\<lparr>w_intents := rows\<rparr>\<rparr>"

definition roll_back :: "site \<Rightarrow> site \<Rightarrow> site" where
  "roll_back S0 S = S\<lparr>st_world := st_world S0\<rparr>"

definition service_create_intent :: "intent_config \<Rightarrow> site \<Rightarrow> (exn + intent_config) \<times> site" where
  "service_create_intent c S =
     (case intent_create c (w_intents (st_world S)) of
        (Inl e, _) \<Rightarrow> (Inl e, S)
      | (Inr c', rows) \<Rightarrow> (Inr c', invalidate_routes (with_intents rows S)))"

definition service_update_intent :: "uuid \<Rightarrow> intent_field list \<Rightarrow> site \<Rightarrow> (exn + intent_config option) \<times> site" where
  "service_update_intent i fs S =
     (case intent_update i fs (w_intents (st_world S)) of
        (Inl e, _) \<Rightarrow> (Inl e, S)
      | (Inr None, _) \<Rightarrow> (Inr None, S)
      | (Inr (Some c), rows) \<Rightarrow> (Inr (Some c), invalidate_routes (with_intents rows S)))"

definition service_delete_intent :: "uuid \<Rightarrow> site \<Rightarrow> bool \<times> site" where
  "service_delete_intent i S =
     (case intent_delete i (w_intents (st_world S)) of
        (False, _) \<Rightarrow> (False, S)
      | (True, rows) \<Rightarrow> (True, invalidate_routes (with_intents rows S)))"

definition create_intent ::
  "edit_env \<Rightarrow> user \<Rightarrow> intent_config \<Rightarrow> bool \<Rightarrow> (string \<times> json) list \<Rightarrow> site \<Rightarrow> intent_config api \<times> site" where
  "create_intent E u c has_lists body S =
     (if us_role u \<noteq> RAdmin then (ApiForbidden, S)
      else case service_create_intent c S of
        (Inl e, S1) \<Rightarrow> (ApiRaised e, S1)
      | (Inr c', S') \<Rightarrow>
         (let S1 = audit_admin E u ''intent.create'' ''intent_config'' (ic_id c') (Some body) S'
          in if has_lists then (ApiRaised RESPONSE_INVALID, roll_back S S1) else (ApiData c', S1)))"

definition sets_lists :: "intent_field \<Rightarrow> bool" where
  "sets_lists f = (case f of SetLists (Some _) \<Rightarrow> True | _ \<Rightarrow> False)"

definition update_intent ::
  "edit_env \<Rightarrow> user \<Rightarrow> uuid \<Rightarrow> intent_field list \<Rightarrow> (string \<times> json) list \<Rightarrow> site \<Rightarrow> intent_config api \<times> site" where
  "update_intent E u i fs body S =
     (if us_role u \<noteq> RAdmin then (ApiForbidden, S)
      else case service_update_intent i fs S of
        (Inl e, S') \<Rightarrow> (ApiRaised e, S')
      | (Inr None, S') \<Rightarrow> (ApiError (asc ''Intent config not found''), S')
      | (Inr (Some c), S') \<Rightarrow>
         (let S1 = audit_admin E u ''intent.update'' ''intent_config'' i (Some body) S'
          in if list_ex sets_lists fs then (ApiRaised RESPONSE_INVALID, roll_back S S1) else (ApiData c, S1)))"

definition delete_intent :: "edit_env \<Rightarrow> user \<Rightarrow> uuid \<Rightarrow> site \<Rightarrow> bool api \<times> site" where
  "delete_intent E u i S =
     (if us_role u \<noteq> RAdmin then (ApiForbidden, S)
      else case service_delete_intent i S of
        (False, S') \<Rightarrow> (ApiError (asc ''Intent config not found''), S')
      | (True, S') \<Rightarrow> (ApiData True, audit_admin E u ''intent.delete'' ''intent_config'' i None S'))"

definition list_intents :: "user \<Rightarrow> world \<Rightarrow> intent_config list api" where
  "list_intents u w = (if \<not> is_staff u then ApiForbidden else ApiData (intents_active (w_intents w)))"

subsection \<open>Versions and contents\<close>

definition prompts_ok :: "world \<Rightarrow> bool" where
  "prompts_ok w \<longleftrightarrow> distinct (map tp_id (w_templates w)) \<and> distinct (map tp_key (w_templates w))
     \<and> distinct (map vr_id (w_versions w)) \<and> distinct (map (\<lambda>v. (vr_template v, vr_version v)) (w_versions w))
     \<and> (\<forall>t \<in> set (w_templates w). \<forall>i. tp_active t = Some i \<longrightarrow>
          (\<exists>v \<in> set (w_versions w). vr_id v = i \<and> vr_template v = tp_id t))"

lemma next_version_above: "v \<in> set vs \<Longrightarrow> vr_template v = t \<Longrightarrow> vr_version v < next_version t vs"
  by (induction vs) (auto simp: next_version_def)

lemma next_version_bound: "next_version t vs = 1 \<or> (\<exists>v \<in> set vs. vr_template v = t \<and> next_version t vs = vr_version v + 1)"
proof (induction vs)
  case (Cons v vs)
  then show ?case by (cases "vr_template v = t") (auto simp: next_version_def max_def)
qed (simp add: next_version_def)

lemma append_alone:
  assumes "distinct (map (\<lambda>v. (vr_template v, vr_version v)) vs)"
  shows "\<exists>v. append_version i id t content by comment vs = (Some v, vs @ [v]) \<and> vr_id v = i \<and> vr_template v = t
     \<and> vr_content v = content \<and> vr_version v = next_version t vs
     \<and> distinct (map (\<lambda>v. (vr_template v, vr_version v)) (vs @ [v]))"
proof -
  have "\<not> list_ex (\<lambda>v. vr_template v = t \<and> vr_version v = next_version t vs) vs"
    using next_version_above by (fastforce simp: list_ex_iff)
  then show ?thesis using assms by (auto simp: append_version_def Let_def list_ex_iff)
qed

lemma append_conflict:
  "append_version i rival t content by comment vs = (None, vs') \<Longrightarrow>
     vs' = rival vs \<and> (\<exists>v \<in> set vs'. vr_template v = t \<and> vr_version v = next_version t vs)"
  by (auto simp: append_version_def Let_def list_ex_iff split: if_splits)

lemma contents_of:
  assumes "distinct (map tp_key ts)"
  shows "map_of (load_active_contents ts vs) key = (case template_get key ts of None \<Rightarrow> None
     | Some t \<Rightarrow> if tp_enabled t then map_option vr_content (get_active_version t vs) else None)"
  using assms
proof (induction ts)
  case (Cons t ts)
  then have no: "template_get (tp_key t) ts = None" by (simp add: template_get_def row_of_None)
  show ?case using Cons no
    by (cases "get_active_version t vs")
      (auto simp: load_active_contents_def map_filter_simps template_get_def row_of_Cons get_active_version_def
        split: option.split)
qed (simp add: load_active_contents_def map_filter_simps template_get_def)

lemma map_filter_same: "(\<And>x. x \<in> set xs \<Longrightarrow> f x = g x) \<Longrightarrow> List.map_filter f xs = List.map_filter g xs"
  by (induction xs) (simp_all add: map_filter_simps split: option.split)

lemma contents_new_version:
  assumes "prompts_ok w" "vr_id v \<notin> vr_id ` set (w_versions w)"
  shows "load_active_contents (w_templates w) (w_versions w @ [v]) = load_active_contents (w_templates w) (w_versions w)"
proof -
  have "row_of vr_id i (w_versions w @ [v]) = row_of vr_id i (w_versions w)"
    if "t \<in> set (w_templates w)" "tp_active t = Some i" for t i
  proof -
    have "i \<in> vr_id ` set (w_versions w)" using assms(1) that by (auto simp: prompts_ok_def)
    then show ?thesis using row_of_None [of vr_id i "w_versions w"] by (auto simp: row_of_append split: option.split)
  qed
  then show ?thesis unfolding load_active_contents_def
    by (intro map_filter_same) (auto split: option.splits bind_splits)
qed

lemma activate_keeps:
  "map tp_id (activate_version t i ts) = map tp_id ts" "map tp_key (activate_version t i ts) = map tp_key ts"
  by (simp_all add: activate_version_def map_set_row) (simp add: set_row_def)

lemma activate_get:
  assumes "distinct (map tp_id ts)" "distinct (map tp_key ts)" "template_get key ts = Some t"
  shows "template_get k (activate_version (tp_id t) i ts) =
    (if k = key then Some (t\<lparr>tp_active := Some i\<rparr>) else template_get k ts)"
proof -
  have t: "t \<in> set ts" "tp_key t = key" using assms(3) row_of_Some unfolding template_get_def by fastforce+
  have "tp_id r = tp_id t \<longleftrightarrow> tp_key r = key" if "r \<in> set ts" for r
    using assms(1,2) t that by (metis distinct_map inj_onD)
  then have "activate_version (tp_id t) i ts = set_row tp_key key (\<lambda>r. r\<lparr>tp_active := Some i\<rparr>) ts"
    by (auto simp: activate_version_def set_row_def)
  then show ?thesis using assms(3) by (simp add: template_get_def row_of_set_row)
qed

lemma activate_back:
  assumes "distinct (map tp_id ts)" "t \<in> set ts" "tp_active t = Some i"
  shows "activate_version (tp_id t) i (activate_version (tp_id t) j ts) = ts"
proof -
  have "r\<lparr>tp_active := Some i\<rparr> = r" if "r \<in> set ts" "tp_id r = tp_id t" for r
  proof -
    have "r = t" using assms(1,2) that by (metis distinct_map inj_onD)
    then show ?thesis using assms(3) by simp
  qed
  then show ?thesis by (auto simp: activate_version_def set_row_def o_def intro!: map_idI)
qed

subsection \<open>Edit and roll back\<close>

lemma str_format_mono:
  "str_format f s \<noteq> None \<Longrightarrow> \<forall>n. f n \<noteq> None \<longrightarrow> g n \<noteq> None \<Longrightarrow> str_format g s \<noteq> None"
proof (induction f s rule: str_format.induct)
  case (2 f c cs)
  show ?case
  proof (cases "c = 123")
    case True
    then obtain d ds where cs: "cs = d # ds" using 2(5) by (cases cs) auto
    show ?thesis
    proof (cases "d = 123")
      case d: True
      then show ?thesis using 2(1) [OF True cs d] 2(5,6) True cs by simp
    next
      case d: False
      obtain name rest where b: "close_brace 0 [] cs = Some (name, rest)"
        using 2(5) True cs d by (auto split: option.splits)
      obtain v where v: "f name = Some v" "str_format f rest \<noteq> None"
        using 2(5) True cs d b by (auto split: option.splits)
      have "str_format g rest \<noteq> None" using 2(2) [OF True cs d b refl v(1)] v(2) 2(6) by simp
      moreover have "g name \<noteq> None" using v(1) 2(6) by auto
      ultimately show ?thesis using True cs d b by auto
    qed
  next
    case no: False
    show ?thesis
    proof (cases "c = 125")
      case True
      then obtain ds where cs: "cs = 125 # ds" using 2(5) no by (cases cs) (auto split: if_splits)
      then show ?thesis using 2(3) [OF no True cs refl] 2(5,6) True by simp
    next
      case False
      then show ?thesis using 2(4) [OF no False] 2(5,6) no by simp
    qed
  qed
qed simp

text \<open>Content that passed the check builds a prompt for every question and hits.\<close>

lemma checked_context_formats:
  assumes "validate_prompt_content other content [''chunks'', ''question'']"
  shows "build_rag_prompt other q hs hist sys content \<noteq> None"
proof -
  have "str_format (context_field other ch q) content \<noteq> None" for ch
  proof (rule str_format_mono)
    show "str_format (dummy_field other [''chunks'', ''question'']) content \<noteq> None"
      using assms by (simp add: validate_prompt_content_def)
    show "\<forall>n. dummy_field other [''chunks'', ''question''] n \<noteq> None \<longrightarrow> context_field other ch q n \<noteq> None"
      by (auto simp: dummy_field_def context_field_def split: if_splits)
  qed
  then show ?thesis by (auto simp: build_rag_prompt_def Let_def split: option.split)
qed

lemma update_prompt_done:
  assumes "prompts_ok (st_world S)" "ed_id E \<notin> vr_id ` set (w_versions (st_world S))" "ed_rival E = id"
    and "update_prompt E u key content comment S = (ApiData p, S')"
  shows "\<exists>t v. us_role u = RAdmin \<and> template_get key (w_templates (st_world S)) = Some t
     \<and> validate_prompt_content (ed_other E) content (tp_vars t)
     \<and> w_versions (st_world S') = w_versions (st_world S) @ [v] \<and> vr_id v = ed_id E \<and> vr_template v = tp_id t
     \<and> vr_content v = content \<and> vr_version v = next_version (tp_id t) (w_versions (st_world S))
     \<and> w_templates (st_world S') = activate_version (tp_id t) (ed_id E) (w_templates (st_world S))
     \<and> pv_version p = Some (vr_version v) \<and> pv_content p = Some content
     \<and> st_prompts S' = invalidate (st_prompts S)
     \<and> distinct (map (\<lambda>v. (vr_template v, vr_version v)) (w_versions (st_world S')))"
proof -
  let ?w = "st_world S"
  obtain t where role: "us_role u = RAdmin" and t: "template_get key (w_templates ?w) = Some t"
    and val: "validate_prompt_content (ed_other E) content (tp_vars t)"
    using assms(4) by (auto simp: update_prompt_def service_update_prompt_def Let_def split: if_splits option.splits)
  have "distinct (map (\<lambda>v. (vr_template v, vr_version v)) (w_versions ?w))"
    using assms(1) by (simp add: prompts_ok_def)
  from append_alone [OF this, of "ed_id E" "tp_id t" content "Some (us_id u)" comment]
  obtain v where v: "append_version (ed_id E) id (tp_id t) content (Some (us_id u)) comment (w_versions ?w)
      = (Some v, w_versions ?w @ [v])" "vr_id v = ed_id E" "vr_template v = tp_id t" "vr_content v = content"
    "vr_version v = next_version (tp_id t) (w_versions ?w)"
    "distinct (map (\<lambda>v. (vr_template v, vr_version v)) (w_versions ?w @ [v]))" by blast
  have out: "p = from_pair (t, Some v)"
    "w_versions (st_world S') = w_versions ?w @ [v]" "st_prompts S' = invalidate (st_prompts S)"
    "w_templates (st_world S') = activate_version (tp_id t) (ed_id E) (w_templates ?w)"
    using assms(3,4) role t val v(1,2)
    by (auto simp: update_prompt_def service_update_prompt_def publish_prompt_invalidation_def audit_admin_def
        Let_def split: if_splits)
  show ?thesis using role t val v(2-6) out by (intro exI [of _ t] exI [of _ v]) (simp add: from_pair_def)
qed

lemma update_prompt_ok:
  assumes "prompts_ok w" "template_get key (w_templates w) = Some t" "vr_id v \<notin> vr_id ` set (w_versions w)"
    and "vr_template v = tp_id t" "distinct (map (\<lambda>v. (vr_template v, vr_version v)) (w_versions w @ [v]))"
    and "w_versions w' = w_versions w @ [v]" "w_templates w' = activate_version (tp_id t) (vr_id v) (w_templates w)"
  shows "prompts_ok w' \<and> map_of (load_active_contents (w_templates w') (w_versions w')) k =
    (if k = key then if tp_enabled t then Some (vr_content v) else None
     else map_of (load_active_contents (w_templates w) (w_versions w)) k)"
proof -
  let ?ts = "activate_version (tp_id t) (vr_id v) (w_templates w)"
  have d: "distinct (map tp_id (w_templates w))" "distinct (map tp_key (w_templates w))"
    "distinct (map vr_id (w_versions w @ [v]))"
    using assms(1,3) by (auto simp: prompts_ok_def)
  have ptr: "\<exists>v' \<in> set (w_versions w @ [v]). vr_id v' = i \<and> vr_template v' = tp_id r"
    if r: "r \<in> set ?ts" "tp_active r = Some i" for r i
  proof -
    obtain r0 where r0: "r0 \<in> set (w_templates w)" "r = (if tp_id r0 = tp_id t then r0\<lparr>tp_active := Some (vr_id v)\<rparr> else r0)"
      using r(1) by (auto simp: activate_version_def set_row_def)
    show ?thesis using r0 r(2) assms(1,4) by (auto simp: prompts_ok_def split: if_splits)
  qed
  have ok: "prompts_ok w'" unfolding prompts_ok_def assms(6,7) activate_keeps using d assms(5) ptr by blast
  have new: "row_of vr_id (vr_id v) (w_versions w @ [v]) = Some v"
    using row_of_unique [OF d(3), of v] by simp
  have keys: "distinct (map tp_key ?ts)" using d(2) by (simp add: activate_keeps)
  have "map_of (load_active_contents ?ts (w_versions w @ [v])) k =
      (if k = key then if tp_enabled t then Some (vr_content v) else None
       else map_of (load_active_contents (w_templates w) (w_versions w @ [v])) k)"
    unfolding contents_of [OF keys] contents_of [OF d(2)] activate_get [OF d(1,2) assms(2)]
    by (simp add: get_active_version_def new)
  then show ?thesis using ok contents_new_version [OF assms(1,3)] assms(6,7) by simp
qed

text \<open>
  C32: editing a prompt and taking the edit back. An accepted edit appends one version, with the
  next number, and leaves the history as it was; the tables stay well-formed, the loader gives the
  new content for the key, if the template is enabled, and the old contents for all others, and
  the cache of the worker is dropped. Activating the version that was active before makes the
  loader give exactly what it gave, and rewrites no version.
\<close>

theorem edit_and_roll_back:
  assumes "prompts_ok (st_world S)" "ed_id E \<notin> vr_id ` set (w_versions (st_world S))" "ed_rival E = id"
    and "update_prompt E u key content comment S = (ApiData p, S1)"
    and "template_get key (w_templates (st_world S)) = Some t" "get_active_version t (w_versions (st_world S)) = Some v0"
  shows "(\<exists>v. w_versions (st_world S1) = w_versions (st_world S) @ [v] \<and> vr_content v = content
       \<and> (\<forall>v' \<in> set (w_versions (st_world S)). vr_template v' = tp_id t \<longrightarrow> vr_version v' < vr_version v))
     \<and> prompts_ok (st_world S1) \<and> cc_value (st_prompts S1) = None
     \<and> map_of (load_active_contents (w_templates (st_world S1)) (w_versions (st_world S1))) =
        (map_of (load_active_contents (w_templates (st_world S)) (w_versions (st_world S))))
          (key := if tp_enabled t then Some content else None)
     \<and> (\<exists>q S2. activate_prompt_version E' u key (vr_version v0) S1 = (ApiData q, S2)
          \<and> pv_content q = Some (vr_content v0) \<and> w_versions (st_world S2) = w_versions (st_world S1)
          \<and> load_active_contents (w_templates (st_world S2)) (w_versions (st_world S2))
            = load_active_contents (w_templates (st_world S)) (w_versions (st_world S)))"
proof -
  let ?w = "st_world S" and ?w1 = "st_world S1"
  obtain v where r: "us_role u = RAdmin" and v: "w_versions ?w1 = w_versions ?w @ [v]" "vr_id v = ed_id E"
    "vr_template v = tp_id t" "vr_content v = content" "vr_version v = next_version (tp_id t) (w_versions ?w)"
    "w_templates ?w1 = activate_version (tp_id t) (ed_id E) (w_templates ?w)"
    "st_prompts S1 = invalidate (st_prompts S)"
    "distinct (map (\<lambda>v. (vr_template v, vr_version v)) (w_versions ?w @ [v]))"
    using update_prompt_done [OF assms(1-4)] assms(5) by force
  have fresh: "vr_id v \<notin> vr_id ` set (w_versions ?w)" using assms(2) v(2) by simp
  note e = update_prompt_ok [OF assms(1,5) fresh v(3,8,1), unfolded v(2), OF v(6)]
  have d: "distinct (map tp_id (w_templates ?w))" "distinct (map tp_key (w_templates ?w))"
    using assms(1) by (simp_all add: prompts_ok_def)
  have t: "t \<in> set (w_templates ?w)" using assms(5) row_of_Some unfolding template_get_def by fastforce
  obtain i where i: "tp_active t = Some i" "row_of vr_id i (w_versions ?w) = Some v0"
    using assms(6) by (auto simp: get_active_version_def bind_eq_Some_conv)
  then have v0: "v0 \<in> set (w_versions ?w)" "vr_id v0 = i" using row_of_Some by fastforce+
  have tid: "vr_template v0 = tp_id t"
  proof -
    obtain v' where "v' \<in> set (w_versions ?w)" "vr_id v' = i" "vr_template v' = tp_id t"
      using assms(1) t i(1) by (auto simp: prompts_ok_def)
    moreover have "distinct (map vr_id (w_versions ?w))" using assms(1) by (simp add: prompts_ok_def)
    ultimately show ?thesis using v0 by (metis distinct_map inj_onD)
  qed
  have get: "template_get key (w_templates ?w1) = Some (t\<lparr>tp_active := Some (ed_id E)\<rparr>)"
    using activate_get [OF d assms(5)] v(6) by simp
  have found: "get_version (tp_id t) (vr_version v0) (w_versions ?w1) = Some v0"
  proof -
    have "v0 \<in> set (w_versions ?w @ [v])" using v0(1) by simp
    from row_of_unique [OF v(8) this] show ?thesis by (simp add: get_version_def row_of_def v(1) tid)
  qed
  have undone: "activate_version (tp_id t) (vr_id v0) (w_templates ?w1) = w_templates ?w"
    using activate_back [OF d(1) t i(1)] v(6) v0(2) by simp
  obtain S2 where S2: "activate_prompt_version E' u key (vr_version v0) S1 = (ApiData (from_pair
      (t\<lparr>tp_active := Some (ed_id E)\<rparr>, Some v0)), S2)" "w_templates (st_world S2) = w_templates ?w"
    "w_versions (st_world S2) = w_versions ?w1"
    using r get found undone
    by (simp add: activate_prompt_version_def service_activate_version_def publish_prompt_invalidation_def
        audit_admin_def Let_def)
  have load: "load_active_contents (w_templates ?w) (w_versions ?w1) = load_active_contents (w_templates ?w) (w_versions ?w)"
    using contents_new_version [OF assms(1) fresh] v(1) by simp
  have above: "\<forall>v' \<in> set (w_versions ?w). vr_template v' = tp_id t \<longrightarrow> vr_version v' < vr_version v"
    using next_version_above v(5) by metis
  have map: "map_of (load_active_contents (w_templates ?w1) (w_versions ?w1)) =
      (map_of (load_active_contents (w_templates ?w) (w_versions ?w))) (key := if tp_enabled t then Some content else None)"
    using e v(4) by (auto simp: fun_eq_iff)
  show ?thesis using v(1,4,7) above e map S2 load by (auto simp: from_pair_def invalidate_def)
qed

lemma update_prompt_accepts:
  assumes "prompts_ok (st_world S)" "ed_rival E = id" "us_role u = RAdmin" "content \<noteq> []"
    and "length content \<le> MAX_PROMPT_CONTENT_CHARS" "template_get key (w_templates (st_world S)) = Some t"
    and "validate_prompt_content (ed_other E) content (tp_vars t)"
  shows "\<exists>p S1. update_prompt E u key content comment S = (ApiData p, S1)"
proof -
  have "distinct (map (\<lambda>v. (vr_template v, vr_version v)) (w_versions (st_world S)))"
    using assms(1) by (simp add: prompts_ok_def)
  from append_alone [OF this, of "ed_id E" "tp_id t" content "Some (us_id u)" comment]
  obtain v where "append_version (ed_id E) id (tp_id t) content (Some (us_id u)) comment (w_versions (st_world S))
      = (Some v, w_versions (st_world S) @ [v])" by blast
  then show ?thesis using assms(2-7) by (simp add: update_prompt_def service_update_prompt_def Let_def)
qed

definition sample_site :: site where
  "sample_site = \<lparr>st_world = empty_world\<lparr>
       w_templates := [\<lparr>tp_id = 3, tp_key = ''agent.clarify'', tp_vars = [], tp_active = Some 10, tp_enabled = True\<rparr>],
       w_versions := [\<lparr>vr_id = 10, vr_template = 3, vr_version = 1, vr_content = asc ''Please tell more'', vr_by = None,
         vr_comment = None\<rparr>]\<rparr>,
     st_prompts = new_cache, st_routes = new_cache, st_published = []\<rparr>"

definition sample_edit :: edit_env where
  "sample_edit = \<lparr>ed_other = \<lambda>_. None, ed_reason = [], ed_rival = id, ed_id = 11, ed_audit = 12, ed_trace = ''t'', ed_now = 5\<rparr>"

definition sample_admin :: user where
  "sample_admin = \<lparr>us_id = 1, us_name = [], us_role = RAdmin, us_active = True\<rparr>"

theorem edit_and_roll_back_witness:
  "\<exists>p S1 q S2. update_prompt sample_edit sample_admin ''agent.clarify'' (asc ''What is it?'') None sample_site = (ApiData p, S1)
     \<and> activate_prompt_version sample_edit sample_admin ''agent.clarify'' 1 S1 = (ApiData q, S2)
     \<and> pv_content q = Some (asc ''Please tell more'') \<and> length (w_versions (st_world S2)) = 2"
proof -
  let ?t = "\<lparr>tp_id = 3, tp_key = ''agent.clarify'', tp_vars = [], tp_active = Some 10, tp_enabled = True\<rparr>"
  let ?v = "\<lparr>vr_id = 10, vr_template = 3, vr_version = 1, vr_content = asc ''Please tell more'', vr_by = None, vr_comment = None\<rparr>"
  have site: "prompts_ok (st_world sample_site)" "ed_id sample_edit \<notin> vr_id ` set (w_versions (st_world sample_site))"
    "ed_rival sample_edit = id" "template_get ''agent.clarify'' (w_templates (st_world sample_site)) = Some ?t"
    "get_active_version ?t (w_versions (st_world sample_site)) = Some ?v"
    by (simp_all add: sample_site_def sample_edit_def prompts_ok_def template_get_def get_active_version_def row_of_def)
  have ok: "validate_prompt_content (ed_other sample_edit) (asc ''What is it?'') []"
    by (simp add: validate_prompt_content_def asc_def)
  have len: "asc ''What is it?'' \<noteq> []" "length (asc ''What is it?'') \<le> MAX_PROMPT_CONTENT_CHARS"
    by (simp_all add: asc_def MAX_PROMPT_CONTENT_CHARS_def)
  obtain p S1 where u: "update_prompt sample_edit sample_admin ''agent.clarify'' (asc ''What is it?'') None sample_site
      = (ApiData p, S1)"
    using update_prompt_accepts [OF site(1,3) _ len site(4), of sample_admin None] ok
    by (auto simp: sample_admin_def)
  have one: "vr_version ?v = 1" "vr_content ?v = asc ''Please tell more''" "length (w_versions (st_world sample_site)) = 1"
    by (simp_all add: sample_site_def)
  note c = edit_and_roll_back [OF site(1-3) u site(4,5), of sample_edit, unfolded one]
  have "length (w_versions (st_world S1)) = 2" using c one(3) by (elim conjE exE) simp
  then show ?thesis using c u by (elim conjE exE) (metis (no_types, lifting))
qed

subsection \<open>Editing the routes\<close>

lemma find_append: "find P (xs @ ys) = (case find P xs of None \<Rightarrow> find P ys | Some x \<Rightarrow> Some x)"
  by (induction xs) auto

lemma routes_of:
  assumes "distinct (map ic_name rows)"
  shows "map_of (route_map_loader True (w\<lparr>w_intents := rows\<rparr>)) n =
    (case find (\<lambda>c. ic_name c = n \<and> ic_active c) rows of None \<Rightarrow> None | Some c \<Rightarrow> Some (ic_route c))"
proof -
  have step: "map_of (fold (\<lambda>c m. AList.update (ic_name c) (ic_route c) m) cs m) n =
      (case find (\<lambda>c. ic_name c = n) (rev cs) of None \<Rightarrow> map_of m n | Some c \<Rightarrow> Some (ic_route c))" for cs m
    by (induction cs arbitrary: m) (auto simp: map_of_AList_update find_append split: option.splits)
  have uniq: "c = d" if "c \<in> set rows" "d \<in> set rows" "ic_name c = ic_name d" for c d
    using assms that by (metis distinct_map inj_onD)
  have "find (\<lambda>c. ic_name c = n) (rev (intents_active rows)) = find (\<lambda>c. ic_name c = n \<and> ic_active c) rows"
  proof (cases "find (\<lambda>c. ic_name c = n \<and> ic_active c) rows")
    case None
    moreover from this have "find (\<lambda>c. ic_name c = n) (rev (intents_active rows)) = None"
      by (auto simp: find_None_iff' intents_active_def)
    ultimately show ?thesis by simp
  next
    case (Some c)
    then have c: "c \<in> set rows" "ic_name c = n" "ic_active c" using hd_filter_find by fastforce+
    then obtain d where d: "find (\<lambda>c. ic_name c = n) (rev (intents_active rows)) = Some d"
      by (cases "find (\<lambda>c. ic_name c = n) (rev (intents_active rows))") (auto simp: find_None_iff' intents_active_def)
    then have "d \<in> set rows" "ic_name d = n" using hd_filter_find by (fastforce simp: intents_active_def)+
    then show ?thesis using uniq [of d c] c d Some by simp
  qed
  then show ?thesis using step [of "intents_active rows" "[]"] by (simp add: route_map_loader_def split: option.split)
qed

lemma intent_edits_drop_cache:
  "create_intent E u c b body S = (r, S') \<Longrightarrow> w_intents (st_world S') = w_intents (st_world S) \<or> cc_value (st_routes S') = None"
  "update_intent E u i fs body S = (r, S') \<Longrightarrow> w_intents (st_world S') = w_intents (st_world S) \<or> cc_value (st_routes S') = None"
  "delete_intent E u i S = (d, S') \<Longrightarrow> w_intents (st_world S') = w_intents (st_world S) \<or> cc_value (st_routes S') = None"
  by (auto simp: create_intent_def update_intent_def delete_intent_def service_create_intent_def
      service_update_intent_def service_delete_intent_def invalidate_routes_def with_intents_def roll_back_def
      audit_admin_def invalidate_def Let_def split: if_splits prod.splits sum.splits option.splits bool.splits)

end
