(* ===== verification/Access.thy ===== *)
theory Access
  imports Chat Prompts
begin

text \<open>
  Who is asking: \<open>core/auth.py\<close>, \<open>core/security.py\<close>, \<open>repositories/user_repo.py\<close>, the account
  endpoints of \<open>admin/router.py\<close> and the handshake of \<open>chat/router.py\<close>. The password hash and the
  signed token are arguments; a token is decoded at a time.

  Lemmas: nobody gets in without a token that decodes to an active account, what a log-in hands
  out is accepted until it expires, and a connection serves exactly the account of its first frame.
\<close>

subsection \<open>Accounts\<close>

record account = user +
  ac_email :: ustr
  ac_hash :: ustr

definition user_get :: "uuid \<Rightarrow> account list \<Rightarrow> account option" where
  "user_get i rows = row_of us_id i rows"

definition get_by_username :: "ustr \<Rightarrow> account list \<Rightarrow> account option" where
  "get_by_username n rows = row_of us_name n rows"

definition user_create :: "account \<Rightarrow> account list \<Rightarrow> (exn + account) \<times> account list" where
  "user_create a rows =
     (if us_name a \<in> us_name ` set rows \<or> ac_email a \<in> ac_email ` set rows then (Inl INTEGRITY, rows)
      else (Inr a, rows @ [a]))"

subsection \<open>Tokens\<close>

record claims =
  cl_sub :: idstr
  cl_role :: user_role
  cl_exp :: int

text \<open>\<open>None\<close> is a token that the library rejects, or one without a subject.\<close>

record token_env =
  tk_encode :: "claims \<Rightarrow> ustr"
  tk_decode :: "int \<Rightarrow> ustr \<Rightarrow> idstr option"
  tk_hash :: "ustr \<Rightarrow> ustr"
  tk_verify :: "ustr \<Rightarrow> ustr \<Rightarrow> bool"
  tk_expire_minutes :: int

definition create_access_token :: "token_env \<Rightarrow> int \<Rightarrow> idstr \<Rightarrow> user_role \<Rightarrow> ustr" where
  "create_access_token T now sub r = tk_encode T \<lparr>cl_sub = sub, cl_role = r, cl_exp = now + 60 * tk_expire_minutes T\<rparr>"

definition extract_bearer_token :: "ustr option \<Rightarrow> ustr option" where
  "extract_bearer_token header =
     (let s = strip (or_else header []);
          scheme = takeWhile (\<lambda>c. c \<noteq> 32) s;
          token = strip (drop 1 (dropWhile (\<lambda>c. c \<noteq> 32) s))
      in if or_else header [] = [] \<or> lower scheme \<noteq> asc ''bearer'' \<or> token = [] then None else Some token)"

definition token_user :: "token_env \<Rightarrow> int \<Rightarrow> ustr \<Rightarrow> account list \<Rightarrow> account option" where
  "token_user T now token rows =
     (case Option.bind (tk_decode T now token) parse_uuid of
        None \<Rightarrow> None
      | Some i \<Rightarrow> (case user_get i rows of None \<Rightarrow> None | Some a \<Rightarrow> if us_active a then Some a else None))"

definition unauthorized :: "string \<Rightarrow> exn" where
  "unauthorized s = Exn ''UnauthorizedError'' (asc s)"

definition get_current_user :: "token_env \<Rightarrow> int \<Rightarrow> ustr option \<Rightarrow> account list \<Rightarrow> exn + account" where
  "get_current_user T now header rows =
     (case extract_bearer_token header of
        None \<Rightarrow> Inl (unauthorized ''Missing or invalid authorization header'')
      | Some token \<Rightarrow>
         (case Option.bind (tk_decode T now token) parse_uuid of
            None \<Rightarrow> Inl (unauthorized ''Invalid token'')
          | Some _ \<Rightarrow> (case token_user T now token rows of
              None \<Rightarrow> Inl (unauthorized ''User not found or inactive'')
            | Some a \<Rightarrow> Inr a)))"

definition require_role :: "user_role list \<Rightarrow> account \<Rightarrow> exn + account" where
  "require_role roles a =
     (if us_role a \<in> set roles then Inr a
      else Inl (Exn ''ForbiddenError'' (asc ''Required role: '' @ join (asc '', '') (map role_name roles))))"

subsection \<open>Account endpoints\<close>

definition register ::
  "token_env \<Rightarrow> uuid \<Rightarrow> ustr \<Rightarrow> ustr \<Rightarrow> ustr \<Rightarrow> account list \<Rightarrow> account api \<times> account list" where
  "register T i name email password rows =
     (if get_by_username name rows \<noteq> None then (ApiError (asc ''Username already exists''), rows)
      else case user_create \<lparr>us_id = i, us_name = name, us_role = RUser, us_active = True, ac_email = email,
             ac_hash = tk_hash T password\<rparr> rows of
        (Inl e, _) \<Rightarrow> (ApiRaised e, rows)
      | (Inr a, rows') \<Rightarrow> (ApiData a, rows'))"

definition login :: "token_env \<Rightarrow> int \<Rightarrow> ustr \<Rightarrow> ustr \<Rightarrow> account list \<Rightarrow> ustr api" where
  "login T now name password rows =
     (case get_by_username name rows of
        None \<Rightarrow> ApiError (asc ''Invalid credentials'')
      | Some a \<Rightarrow> if \<not> tk_verify T password (ac_hash a) then ApiError (asc ''Invalid credentials'')
          else ApiData (create_access_token T now (Hex (us_id a)) (us_role a)))"

subsection \<open>The handshake\<close>

datatype first_frame = FirstTimeout | FirstGone | FirstInvalid | FirstAuth "ustr option" | FirstOther

datatype handshake = ClosedWith string | ClientGone | Serving uuid

definition authenticate_token :: "token_env \<Rightarrow> int \<Rightarrow> ustr \<Rightarrow> account list \<Rightarrow> uuid option" where
  "authenticate_token T now token rows = map_option us_id (token_user T now token rows)"

definition websocket_endpoint :: "token_env \<Rightarrow> int \<Rightarrow> first_frame \<Rightarrow> account list \<Rightarrow> handshake" where
  "websocket_endpoint T now fr rows =
     (case fr of
        FirstTimeout \<Rightarrow> ClosedWith ''Auth frame timeout''
      | FirstGone \<Rightarrow> ClientGone
      | FirstInvalid \<Rightarrow> ClosedWith ''Invalid auth frame''
      | FirstOther \<Rightarrow> ClosedWith ''First frame must be auth''
      | FirstAuth token \<Rightarrow>
          if or_else token [] = [] then ClosedWith ''First frame must be auth''
          else (case authenticate_token T now (or_else token []) rows of
            None \<Rightarrow> ClosedWith ''Invalid token''
          | Some u \<Rightarrow> Serving u))"

definition serve ::
  "token_env \<Rightarrow> int \<Rightarrow> first_frame \<Rightarrow> account list \<Rightarrow> (chat_env \<times> client_frame) list \<Rightarrow> chat_state
   \<Rightarrow> frame list \<times> chat_state" where
  "serve T now fr rows received st =
     (case websocket_endpoint T now fr rows of
        Serving u \<Rightarrow> (case run_session u received (False, st) of (fs, _, st') \<Rightarrow> (fs, st'))
      | _ \<Rightarrow> ([], st))"

subsection \<open>Nobody gets in without an account\<close>

lemma token_user_iff:
  "token_user T now token rows = Some a \<longleftrightarrow>
     (\<exists>i. tk_decode T now token = Some (Hex i) \<and> row_of us_id i rows = Some a \<and> us_active a)"
  by (auto simp: token_user_def user_get_def bind_eq_Some_conv elim!: parse_uuid.elims
      split: option.splits if_splits)

lemma current_user_iff:
  "get_current_user T now header rows = Inr a \<longleftrightarrow>
     (\<exists>token. extract_bearer_token header = Some token \<and> token_user T now token rows = Some a)"
  by (auto simp: get_current_user_def token_user_def split: option.splits)

lemma register_unique:
  assumes "distinct (map us_name rows)" "distinct (map ac_email rows)" "register T i n e p rows = (r, rows')"
  shows "distinct (map us_name rows') \<and> distinct (map ac_email rows')
     \<and> (\<forall>a. r = ApiData a \<longrightarrow> us_role a = RUser \<and> rows' = rows @ [a])"
  using assms by (auto simp: register_def user_create_def split: if_splits)

lemma login_token_accepted:
  assumes "login T now name pw rows = ApiData token" "distinct (map us_id rows)" "later < now + 60 * tk_expire_minutes T"
    and decodes: "\<And>i r e. later < e \<Longrightarrow>
      tk_decode T later (tk_encode T \<lparr>cl_sub = Hex i, cl_role = r, cl_exp = e\<rparr>) = Some (Hex i)"
  shows "\<exists>a \<in> set rows. us_name a = name \<and> tk_verify T pw (ac_hash a)
     \<and> token_user T later token rows = (if us_active a then Some a else None)"
proof -
  obtain a where a: "row_of us_name name rows = Some a" "tk_verify T pw (ac_hash a)"
    "token = create_access_token T now (Hex (us_id a)) (us_role a)"
    using assms(1) by (auto simp: login_def get_by_username_def split: option.splits if_splits)
  have m: "a \<in> set rows" "us_name a = name" using row_of_Some [OF a(1)] by simp_all
  have "tk_decode T later token = Some (Hex (us_id a))"
    using assms(3) by (simp add: a(3) create_access_token_def decodes)
  then have "token_user T later token rows = (if us_active a then Some a else None)"
    using row_of_unique [OF assms(2) m(1)] by (simp add: token_user_def user_get_def)
  then show ?thesis using m a(2) by blast
qed

lemma serving_account:
  "websocket_endpoint T now fr rows = Serving u \<Longrightarrow>
     \<exists>token a. fr = FirstAuth (Some token) \<and> token_user T now token rows = Some a \<and> us_id a = u \<and> us_active a"
  by (cases fr) (auto simp: websocket_endpoint_def authenticate_token_def or_else_def token_user_iff
      split: if_splits option.splits)

lemma not_serving: "\<nexists>u. websocket_endpoint T now fr rows = Serving u \<Longrightarrow> serve T now fr rows received st = ([], st)"
  by (cases "websocket_endpoint T now fr rows") (simp_all add: serve_def)

text \<open>A bearer header carries its token past case and surrounding blanks.\<close>

lemma bearer_example: "extract_bearer_token (Some (asc '' bEaReR  abc '')) = Some (asc ''abc'')"
  by (simp add: extract_bearer_token_def asc_def strip_def lower_def lower_cp_def is_upper_ascii_def is_space_def
      or_else_def Let_def)

end
