(* ===== verification/Monitor.thy ===== *)
theory Monitor
  imports Access
begin

text \<open>
  What the operators see: \<open>admin/analytics.py\<close>, \<open>admin/system_health.py\<close>, \<open>core/health.py\<close>, the
  document endpoints of \<open>admin/router.py\<close> and \<open>chat/push.py\<close>. Times are seconds of UTC, a day is
  its number; a JSON object of counts is a list of pairs.

  Lemmas: the counts agree with the tables and with each other, rates are between zero and one,
  each point of the week counts exactly its day, and a health report says which check failed and
  never with which message.
\<close>

subsection \<open>Counting\<close>

text \<open>\<open>SELECT key, count(*) ... GROUP BY key\<close>.\<close>

definition group_count :: "'k list \<Rightarrow> ('k \<times> nat) list" where
  "group_count ks = map (\<lambda>k. (k, count_list ks k)) (add_new [] ks)"

lemma group_count_of: "map_of (group_count ks) k = (if k \<in> set ks then Some (count_list ks k) else None)"
  by (simp add: group_count_def map_of_map_restrict restrict_map_def)

lemma group_count_sum: "sum_list (map snd (group_count ks)) = length ks"
proof -
  have "sum_list (map (count_list ks) (add_new [] ks)) = (\<Sum>k \<in> set ks. count_list ks k)"
    using sum_list_distinct_conv_sum_set [OF distinct_add_new [of "[]" ks]] by simp
  then show ?thesis by (simp add: group_count_def o_def sum_count_set)
qed

definition rate :: "nat \<Rightarrow> nat \<Rightarrow> real" where
  "rate hits n = (if n = 0 then 0 else real hits / real n)"

lemma filter_both_le: "length (filter (\<lambda>x. P x \<and> Q x) xs) \<le> length (filter P xs)"
  by (induction xs) auto

lemma rate_range: "hits \<le> n \<Longrightarrow> 0 \<le> rate hits n \<and> rate hits n \<le> 1"
  by (simp add: rate_def)

subsection \<open>Analytics\<close>

text \<open>\<open>extra["harness_trace"][key].astext\<close> for a key whose value is a text.\<close>

definition trace_text :: "string \<Rightarrow> message \<Rightarrow> string option" where
  "trace_text key m = Option.bind (Option.bind (ms_extra m) ex_trace) (\<lambda>t.
     Option.bind (map_of [(''run_id'', t_run_id t), (''policy_version'', t_policy_version t), (''action'', t_action t),
       (''reason'', t_reason t), (''route'', t_route t), (''candidate_route'', t_candidate_route t),
       (''intent'', t_intent t), (''retrieval_channel'', t_retrieval_channel t)] key) id)"

definition trace_flags :: "message \<Rightarrow> string list" where
  "trace_flags m = (case Option.bind (ms_extra m) ex_trace of None \<Rightarrow> [] | Some t \<Rightarrow> flags_of t)"

record analytics_view =
  an_convs :: nat
  an_msgs :: nat
  an_tickets :: nat
  an_docs :: nat
  an_by_status :: "(ticket_status \<times> nat) list"
  an_intents :: "(string \<times> nat) list"
  an_avg_conf :: real
  an_fallback :: real
  an_truncate :: real
  an_reasons :: "(string \<times> nat) list"
  an_flags :: "(string \<times> nat) list"
  an_downs :: real
  an_feedback :: nat

definition get_analytics :: "int \<Rightarrow> world \<Rightarrow> analytics_view" where
  "get_analytics now w =
     (let answers = filter (\<lambda>m. ms_role m = MAssistant) (w_msgs w);
          confs = List.map_filter ms_confidence (w_msgs w);
          recent = filter (\<lambda>f. now - 7 * 86400 \<le> fb_created f) (w_feedback w)
      in \<lparr>an_convs = length (w_convs w), an_msgs = length (w_msgs w), an_tickets = length (w_tickets w),
          an_docs = length (w_docs w),
          an_by_status = group_count (map tk_status (w_tickets w)),
          an_intents = group_count (List.map_filter ms_intent (w_msgs w)),
          an_avg_conf = (if confs = [] then 0 else sum_list confs / real (length confs)),
          an_fallback = rate (length (filter (\<lambda>m. or_else (trace_text ''fallback_reason'' m) '''' \<noteq> '''') answers)) (length answers),
          an_truncate = rate (length (filter (\<lambda>m. or_else (trace_text ''truncate_flag'' m) '''' \<in> {''true'', ''True''}) answers))
            (length answers),
          an_reasons = filter (\<lambda>(k, n). k \<noteq> '''') (group_count (List.map_filter (trace_text ''reason'') answers)),
          an_flags = filter (\<lambda>(k, n). k \<noteq> '''') (group_count (concat (map trace_flags answers))),
          an_downs = rate (length (filter (\<lambda>f. fb_rating f = -1) recent)) (length recent),
          an_feedback = length recent\<rparr>)"

text \<open>
  No trace has a \<open>fallback_reason\<close> or a \<open>truncate_flag\<close>, so two of the rates are always zero,
  whatever was answered; the flags of the traces are counted in \<open>an_flags\<close>.
\<close>

lemma dead_rates: "an_fallback (get_analytics now w) = 0" "an_truncate (get_analytics now w) = 0"
proof -
  have "trace_text ''fallback_reason'' m = None" "trace_text ''truncate_flag'' m = None" for m
    by (simp_all add: trace_text_def)
  then show "an_fallback (get_analytics now w) = 0" "an_truncate (get_analytics now w) = 0"
    by (simp_all add: get_analytics_def Let_def rate_def)
qed

lemma analytics_counts:
  "sum_list (map snd (an_by_status (get_analytics now w))) = an_tickets (get_analytics now w)"
  "0 \<le> an_downs (get_analytics now w) \<and> an_downs (get_analytics now w) \<le> 1"
  "an_feedback (get_analytics now w) \<le> length (w_feedback w)"
  by (simp_all add: get_analytics_def Let_def group_count_sum rate_range filter_both_le)

lemma flag_counted:
  assumes "m \<in> set (w_msgs w)" "ms_role m = MAssistant" "f \<in> set (trace_flags m)" "f \<noteq> ''''"
  shows "\<exists>n > 0. map_of (an_flags (get_analytics now w)) f = Some n"
proof -
  let ?fs = "concat (map trace_flags (filter (\<lambda>m. ms_role m = MAssistant) (w_msgs w)))"
  have f: "f \<in> set ?fs" using assms(1-3) by auto
  have "map_of (filter (\<lambda>(k, n). k \<noteq> '''') xs) f = map_of xs f" for xs :: "(string \<times> nat) list"
    using assms(4) by (induction xs) auto
  then have "map_of (an_flags (get_analytics now w)) f = Some (count_list ?fs f)"
    using f group_count_of [of ?fs f] by (simp add: get_analytics_def Let_def)
  moreover have "0 < count_list ?fs f" using f count_list_0_iff [of ?fs f] by blast
  ultimately show ?thesis by blast
qed

subsection \<open>The ticket board\<close>

definition ticket_open :: "ticket \<Rightarrow> bool" where
  "ticket_open t \<longleftrightarrow> tk_status t = TPending \<or> tk_status t = TProcessing"

text \<open>\<open>date_trunc('day', t)\<close>.\<close>

definition day_of :: "int \<Rightarrow> int" where "day_of t = t div 86400"

record trend_point =
  tp_day :: int
  tp_in :: nat
  tp_out :: nat

record board =
  bd_open :: nat
  bd_pending :: nat
  bd_processing :: nat
  bd_resolved :: nat
  bd_closed :: nat
  bd_breach :: nat
  bd_sla :: int
  bd_priority :: "(priority \<times> nat) list"
  bd_oldest :: "int option"
  bd_trend :: "trend_point list"

definition least :: "int list \<Rightarrow> int option" where
  "least xs = (case xs of [] \<Rightarrow> None | x # rest \<Rightarrow> Some (foldl min x rest))"

text \<open>The age of the oldest open ticket is in seconds here; the code divides it by 3600.\<close>

definition get_ticket_dashboard :: "int \<Rightarrow> int \<Rightarrow> ticket list \<Rightarrow> board" where
  "get_ticket_dashboard sla_hours now ts =
     (let counts = group_count (map tk_status ts);
          number = (\<lambda>s. or_else (map_of counts s) 0);
          opened = filter ticket_open ts;
          cutoff = now - 7 * 86400;
          ins = group_count (map (\<lambda>t. day_of (tk_created t)) (filter (\<lambda>t. cutoff \<le> tk_created t) ts));
          outs = group_count (map day_of (filter (\<lambda>r. cutoff \<le> r) (List.map_filter tk_resolved ts)));
          point = (\<lambda>ago. let d = day_of now - int ago in
            \<lparr>tp_day = d, tp_in = or_else (map_of ins d) 0, tp_out = or_else (map_of outs d) 0\<rparr>)
      in \<lparr>bd_open = number TPending + number TProcessing, bd_pending = number TPending,
          bd_processing = number TProcessing, bd_resolved = number TResolved, bd_closed = number TClosed,
          bd_breach = length (filter (\<lambda>t. tk_created t < now - 3600 * sla_hours) opened), bd_sla = sla_hours,
          bd_priority = group_count (map tk_priority opened),
          bd_oldest = map_option (\<lambda>t. now - t) (least (map tk_created opened)),
          bd_trend = map point [6, 5, 4, 3, 2, 1, 0]\<rparr>)"

lemma number_of: "or_else (map_of (group_count ks) k) 0 = count_list ks k"
  by (simp add: group_count_of count_list_0_iff)

lemma count_map: "count_list (map f xs) k = length (filter (\<lambda>x. f x = k) xs)"
  by (induction xs) auto

lemma board_totals:
  "bd_open (get_ticket_dashboard h now ts) = length (filter ticket_open ts)"
  "sum_list (map snd (bd_priority (get_ticket_dashboard h now ts))) = bd_open (get_ticket_dashboard h now ts)"
  "bd_open (get_ticket_dashboard h now ts) + bd_resolved (get_ticket_dashboard h now ts)
     + bd_closed (get_ticket_dashboard h now ts) = length ts"
  "bd_breach (get_ticket_dashboard h now ts) \<le> bd_open (get_ticket_dashboard h now ts)"
proof -
  have open_count: "count_list (map tk_status ts) TPending + count_list (map tk_status ts) TProcessing
      = length (filter ticket_open ts)" for ts
    by (induction ts) (auto simp: ticket_open_def)
  have all: "count_list (map tk_status ts) TPending + count_list (map tk_status ts) TProcessing
      + count_list (map tk_status ts) TResolved + count_list (map tk_status ts) TClosed = length ts" for ts
  proof (induction ts)
    case (Cons t ts)
    then show ?case by (cases "tk_status t") auto
  qed simp
  show "bd_open (get_ticket_dashboard h now ts) = length (filter ticket_open ts)"
    and "sum_list (map snd (bd_priority (get_ticket_dashboard h now ts))) = bd_open (get_ticket_dashboard h now ts)"
    and "bd_open (get_ticket_dashboard h now ts) + bd_resolved (get_ticket_dashboard h now ts)
     + bd_closed (get_ticket_dashboard h now ts) = length ts"
    and "bd_breach (get_ticket_dashboard h now ts) \<le> bd_open (get_ticket_dashboard h now ts)"
    using open_count [of ts] all [of ts]
    by (simp_all add: get_ticket_dashboard_def Let_def number_of group_count_sum filter_both_le)
qed

text \<open>The week on the board starts after the cut-off, so every point counts all of its day.\<close>

lemma trend_exact:
  assumes "p \<in> set (bd_trend (get_ticket_dashboard h now ts))"
  shows "tp_in p = length (filter (\<lambda>t. day_of (tk_created t) = tp_day p) ts)
     \<and> tp_out p = length (filter (\<lambda>r. day_of r = tp_day p) (List.map_filter tk_resolved ts))
     \<and> day_of now - 6 \<le> tp_day p \<and> tp_day p \<le> day_of now"
proof -
  obtain ago where b: "ago \<le> 6" "tp_day p = day_of now - int ago"
    "tp_in p = count_list (map (\<lambda>t. day_of (tk_created t)) (filter (\<lambda>t. now - 7 * 86400 \<le> tk_created t) ts)) (tp_day p)"
    "tp_out p = count_list (map day_of (filter (\<lambda>r. now - 7 * 86400 \<le> r) (List.map_filter tk_resolved ts))) (tp_day p)"
    using assms by (auto simp: get_ticket_dashboard_def Let_def number_of)
  have inside: "now - 7 * 86400 \<le> t" if "day_of t = tp_day p" for t
    using that b(1,2) by (simp add: day_of_def)
  show ?thesis using b inside by (auto simp: count_map intro!: arg_cong [where f = length] filter_cong)
qed

subsection \<open>Health\<close>

definition HEALTH_CHECK_TIMEOUT_SECONDS :: nat where "HEALTH_CHECK_TIMEOUT_SECONDS = 2"

text \<open>How a check ends; \<open>CheckHangs\<close> is cut off by the time limit.\<close>

datatype check_end = CheckOk | CheckRaises exn | CheckHangs

fun run_check :: "check_end \<Rightarrow> string" where
  "run_check CheckOk = ''ok''"
| "run_check (CheckRaises (Exn cls msg)) = ''error:'' @ cls"
| "run_check CheckHangs = ''error:TimeoutError''"

definition check_health :: "(string \<Rightarrow> check_end) \<Rightarrow> string \<times> (string \<times> string) list" where
  "check_health chk =
     (let checks = map (\<lambda>n. (n, run_check (chk n))) [''postgres'', ''redis'', ''chroma'', ''minio'']
      in (if list_all (\<lambda>(n, r). r = ''ok'') checks then ''ok'' else ''degraded'', checks))"

lemma run_check_ok: "run_check x = ''ok'' \<longleftrightarrow> x = CheckOk"
  by (cases x rule: run_check.cases) simp_all

lemma health_iff:
  "fst (check_health chk) = ''ok'' \<longleftrightarrow> (\<forall>n \<in> {''postgres'', ''redis'', ''chroma'', ''minio''}. chk n = CheckOk)"
  by (simp add: check_health_def Let_def run_check_ok)

text \<open>The report is the same whatever messages the exceptions carry.\<close>

fun without_message :: "check_end \<Rightarrow> check_end" where
  "without_message (CheckRaises (Exn cls msg)) = CheckRaises (Exn cls [])"
| "without_message x = x"

lemma health_hides_messages: "check_health (without_message \<circ> chk) = check_health chk"
proof -
  have "run_check (without_message x) = run_check x" for x by (cases x rule: without_message.cases) simp_all
  then show ?thesis by (simp add: check_health_def)
qed

subsection \<open>The system panel\<close>

record system_view =
  sv_status :: string
  sv_checks :: "(string \<times> string) list"
  sv_documents :: "(doc_status \<times> nat) list"
  sv_oldest_pending :: "int option"
  sv_chunks :: nat
  sv_last_indexed :: "int option"
  sv_audits :: "(string \<times> nat) list"
  sv_policy :: string

definition document_stats :: "document list \<Rightarrow> (doc_status \<times> nat) list \<times> int option" where
  "document_stats ds =
     (map (\<lambda>s. (s, or_else (map_of (group_count (map dc_status ds)) s) 0))
        [DocPending, DocIndexing, DocActive, DocFailed, DocArchived],
      least (map dc_created (filter (\<lambda>d. dc_status d = DocPending) ds)))"

definition index_freshness :: "document list \<Rightarrow> nat \<times> int option" where
  "index_freshness ds =
     (let act = filter (\<lambda>d. dc_status d = DocActive) ds
      in (sum_list (map dc_chunks act), map_option uminus (least (map uminus (List.map_filter dc_indexed_at act)))))"

definition audit_events_24h :: "int \<Rightarrow> audit list \<Rightarrow> (string \<times> nat) list" where
  "audit_events_24h now rows = group_count (map au_action (filter (\<lambda>r. now - 24 * 3600 \<le> au_created r) rows))"

text \<open>Ages are in seconds.\<close>

definition get_system_health :: "int \<Rightarrow> (string \<Rightarrow> check_end) \<Rightarrow> world \<Rightarrow> system_view" where
  "get_system_health now chk w =
     (let (by_status, oldest) = document_stats (w_docs w);
          (chunks, newest) = index_freshness (w_docs w);
          (status, checks) = check_health chk
      in \<lparr>sv_status = status, sv_checks = checks, sv_documents = by_status,
          sv_oldest_pending = map_option (\<lambda>t. now - t) oldest, sv_chunks = chunks, sv_last_indexed = newest,
          sv_audits = audit_events_24h now (w_audits w), sv_policy = version default_policy\<rparr>)"

lemma least_min: "least xs = (if xs = [] then None else Some (Min (set xs)))"
proof (cases xs)
  case (Cons x rest)
  have "foldl min x rest = Min (insert x (set rest))" for x :: int and rest
  proof (induction rest arbitrary: x)
    case (Cons y rest)
    then show ?case by (cases "rest = []") (simp_all add: min.assoc)
  qed simp
  then show ?thesis using Cons by (simp add: least_def)
qed (simp add: least_def)

lemma documents_counted: "sum_list (map snd (fst (document_stats ds))) = length ds"
proof -
  have "count_list (map dc_status ds) DocPending + (count_list (map dc_status ds) DocIndexing
      + (count_list (map dc_status ds) DocActive + (count_list (map dc_status ds) DocFailed
      + count_list (map dc_status ds) DocArchived))) = length ds"
  proof (induction ds)
    case (Cons d ds)
    then show ?case by (cases "dc_status d") auto
  qed simp
  then show ?thesis by (simp add: document_stats_def number_of)
qed

subsection \<open>Documents and tickets of the operators\<close>

text \<open>
  Deleting goes through the table, both indexes and the audit trail; a failing index rolls the
  table ago. The stored file of the document stays.
\<close>

definition list_documents :: "user \<Rightarrow> doc_status option \<Rightarrow> document list \<Rightarrow> document list api" where
  "list_documents u st ds = (if \<not> is_staff u then ApiForbidden else ApiData (doc_list_all st 50 0 ds))"

definition admin_delete_document ::
  "'c index_env \<Rightarrow> call_env \<Rightarrow> uuid \<Rightarrow> int \<Rightarrow> user \<Rightarrow> 'c depot \<Rightarrow> bool api \<times> 'c depot" where
  "admin_delete_document X C i now u dp =
     (if us_role u \<noteq> RAdmin then (ApiForbidden, dp)
      else case doc_delete i (docs_of dp) of
        (False, _) \<Rightarrow> (ApiError (asc ''Document not found''), dp)
      | (True, ds) \<Rightarrow>
         (case delete_document X (uuid_text i) (dp_stores dp) of
            (Some e, stores) \<Rightarrow> (ApiRaised e, dp\<lparr>dp_stores := stores\<rparr>)
          | (None, stores) \<Rightarrow> (ApiData True, dp\<lparr>dp_stores := stores, dp_world :=
              (dp_world dp)\<lparr>w_docs := ds, w_audits := record_audit (ce_audit_id C) now (ce_trace C)
                \<lparr>ax_actor = u, ax_action = ''document.delete'', ax_entity_type = ''document'', ax_entity = Some i,
                  ax_detail = None\<rparr> (w_audits (dp_world dp))\<rparr>\<rparr>)))"

lemma admin_delete_gone:
  assumes "admin_delete_document X C i now u dp = (ApiData True, dp')"
  shows "us_role u = RAdmin \<and> doc_get i (docs_of dp') = None \<and> dp_queue dp' = dp_queue dp
     \<and> (\<forall>j. j \<noteq> i \<longrightarrow> doc_get j (docs_of dp') = doc_get j (docs_of dp))
     \<and> length (w_audits (dp_world dp')) = length (w_audits (dp_world dp)) + 1"
proof -
  have gone: "row_of dc_id j (filter (\<lambda>d. dc_id d \<noteq> i) ds) = (if j = i then None else row_of dc_id j ds)" for j ds
    by (induction ds) (auto simp: row_of_Cons)
  show ?thesis using assms
    by (auto simp: admin_delete_document_def doc_delete_def doc_get_def gone docs_of_def record_audit_def
        split: if_splits prod.splits option.splits bool.splits)
qed

definition parse_ticket_status :: "string option \<Rightarrow> exn + ticket_status option" where
  "parse_ticket_status st =
     (if or_else st [] = [] then Inr None
      else case find (\<lambda>x. Some (status_name x) = st) [TPending, TProcessing, TResolved, TClosed] of
        None \<Rightarrow> Inl (Exn ''ValueError'' (asc (or_else st [])))
      | Some x \<Rightarrow> Inr (Some x))"

definition admin_list_tickets ::
  "user \<Rightarrow> string option \<Rightarrow> nat \<Rightarrow> nat \<Rightarrow> ticket list \<Rightarrow> (ticket list \<times> nat \<times> nat) api" where
  "admin_list_tickets u st limit offset ts =
     (if \<not> is_staff u then ApiForbidden
      else case parse_ticket_status st of
        Inl e \<Rightarrow> ApiRaised e
      | Inr flt \<Rightarrow> if limit = 0 then ApiRaised (Exn ''ZeroDivisionError'' [])
          else ApiData (list_all_tickets limit offset flt ts, count_all_tickets flt ts, offset div limit + 1))"

subsection \<open>Pushes to a user\<close>

text \<open>
  A push is published to every worker; each hands it to the connections of the user that it has.
  \<open>None\<close> is an envelope that does not parse: it is dropped and the loop goes on.
\<close>

definition forward_push :: "(uuid \<times> frame) option \<Rightarrow> manager \<Rightarrow> (nat \<times> frame) set" where
  "forward_push env m = (case env of None \<Rightarrow> {} | Some (u, f) \<Rightarrow> (\<lambda>k. (k, f)) ` mg_receivers u m)"

definition publish_user_push :: "bool \<Rightarrow> uuid \<Rightarrow> frame \<Rightarrow> manager list \<Rightarrow> (nat \<times> frame) set list" where
  "publish_user_push up u f workers = (if up then map (forward_push (Some (u, f))) workers else map (\<lambda>_. {}) workers)"

lemma push_reaches_only_user:
  "(k, g) \<in> publish_user_push up u f workers ! n \<Longrightarrow> n < length workers \<Longrightarrow>
     up \<and> g = f \<and> k \<in> mg_user (workers ! n) u \<inter> mg_open (workers ! n)"
  by (auto simp: publish_user_push_def forward_push_def mg_receivers_def split: if_splits)

end
