(* ===== verification/Evaluation.thy ===== *)
theory Evaluation
  imports Drafts "HOL-Library.List_Lexorder"
begin

text \<open>
  The offline evaluation, \<open>eval/harness\<close>: the golden cases and their checks (\<open>schema.py\<close>), the
  runner that asks the retriever and the question answering under a bound on the cases in flight
  (\<open>runner.py\<close>), the metrics (\<open>metrics.py\<close>), the comparison of two reports (\<open>report.py\<close>), the
  command (\<open>run_eval.py\<close>) and the seeding of the corpus (\<open>seed_corpus.py\<close>).

  A file is its name and its text, a directory the list of its files. \<open>json.loads\<close>, \<open>json.dumps\<close>
  and \<open>str.casefold\<close> are arguments. An exception of a case is its \<open>rag_err\<close>; the error text of a
  report is made from it and not modelled further.
\<close>

subsection \<open>Golden cases\<close>

definition EVAL_TOP_K :: nat where "EVAL_TOP_K = 5"
definition EVAL_CONCURRENCY :: nat where "EVAL_CONCURRENCY = 4"
definition EVAL_REGRESSION_TOLERANCE :: real where "EVAL_REGRESSION_TOLERANCE = 2 / 100"
definition REQUIRED_EMBEDDING_PROVIDER :: string where "REQUIRED_EMBEDDING_PROVIDER = ''local''"
definition EVAL_DOC_SOURCE :: ustr where "EVAL_DOC_SOURCE = asc ''eval-corpus''"
definition EVAL_TITLE_PREFIX :: ustr where "EVAL_TITLE_PREFIX = asc ''[EVAL] ''"
definition CORPUS_REF_PREFIX :: ustr where "CORPUS_REF_PREFIX = asc ''corpus:''"
definition CORPUS_MAP_FILENAME :: ustr where "CORPUS_MAP_FILENAME = asc ''corpus_map.json''"

datatype case_kind = Answerable | Unanswerable

record golden =
  gc_id :: ustr
  gc_question :: ustr
  gc_kind :: case_kind
  gc_docs :: "ustr list"
  gc_evidence :: "ustr list"
  gc_filters :: "(string \<times> json) list option"
  gc_notes :: "ustr option"

text \<open>The fields as pydantic reads them: \<open>None\<close> is a validation error.\<close>

fun str_items :: "json list \<Rightarrow> ustr list option" where
  "str_items [] = Some []"
| "str_items (JStr s # xs) = map_option ((#) s) (str_items xs)"
| "str_items (_ # xs) = None"

definition str_field :: "json option \<Rightarrow> ustr option" where
  "str_field j = (case j of Some (JStr s) \<Rightarrow> Some s | _ \<Rightarrow> None)"

definition str_list_field :: "json option \<Rightarrow> ustr list option" where
  "str_list_field j = (case j of None \<Rightarrow> Some [] | Some (JList xs) \<Rightarrow> str_items xs | _ \<Rightarrow> None)"

definition kind_field :: "json option \<Rightarrow> case_kind option" where
  "kind_field j = (case j of
     Some (JStr s) \<Rightarrow> if s = asc ''answerable'' then Some Answerable
       else if s = asc ''unanswerable'' then Some Unanswerable else None
   | _ \<Rightarrow> None)"

definition dict_field :: "json option \<Rightarrow> (string \<times> json) list option option" where
  "dict_field j = (case j of None \<Rightarrow> Some None | Some JNull \<Rightarrow> Some None
     | Some (JDict d) \<Rightarrow> Some (Some d) | _ \<Rightarrow> None)"

definition opt_str_field :: "json option \<Rightarrow> ustr option option" where
  "opt_str_field j = (case j of None \<Rightarrow> Some None | Some JNull \<Rightarrow> Some None
     | Some (JStr s) \<Rightarrow> Some (Some s) | _ \<Rightarrow> None)"

definition answerable_needs_docs :: "golden \<Rightarrow> bool" where
  "answerable_needs_docs c \<longleftrightarrow> (case gc_kind c of Answerable \<Rightarrow> gc_docs c \<noteq> [] | Unanswerable \<Rightarrow> gc_docs c = [])"

definition golden_of_json :: "json \<Rightarrow> golden option" where
  "golden_of_json j = (case j of
     JDict d \<Rightarrow>
       (case (str_field (map_of d ''id''), str_field (map_of d ''question''), kind_field (map_of d ''kind''),
              str_list_field (map_of d ''expected_doc_ids''), str_list_field (map_of d ''expected_answer_evidence''),
              dict_field (map_of d ''filters''), opt_str_field (map_of d ''notes'')) of
          (Some i, Some q, Some k, Some docs, Some ev, Some f, Some n) \<Rightarrow>
            (let c = \<lparr>gc_id = i, gc_question = q, gc_kind = k, gc_docs = docs, gc_evidence = ev,
                      gc_filters = f, gc_notes = n\<rparr>
             in if answerable_needs_docs c then Some c else None)
        | _ \<Rightarrow> None)
   | _ \<Rightarrow> None)"

text \<open>\<open>str.splitlines\<close>: every line boundary of Python, \<open>\r\n\<close> as one.\<close>

definition is_line_end :: "nat \<Rightarrow> bool" where
  "is_line_end c \<longleftrightarrow> c \<in> set [10, 11, 12, 13, 28, 29, 30, 133, 8232, 8233]"

fun lines_from :: "ustr \<Rightarrow> ustr \<Rightarrow> ustr list" where
  "lines_from cur [] = (if cur = [] then [] else [cur])"
| "lines_from cur (c # s) = (if c = 13 \<and> take 1 s = [10] then cur # lines_from [] (drop 1 s)
     else if is_line_end c then cur # lines_from [] s else lines_from (cur @ [c]) s)"

definition splitlines :: "ustr \<Rightarrow> ustr list" where
  "splitlines s = lines_from [] s"

datatype eval_err = FileNotFound | BadJson | BadCase | DuplicateCase ustr | UnknownCorpusDoc ustr

type_synonym dir = "(ustr \<times> ustr) list"

definition has_suffix :: "ustr \<Rightarrow> ustr \<Rightarrow> bool" where
  "has_suffix suf s \<longleftrightarrow> length suf \<le> length s \<and> drop (length s - length suf) s = suf"

definition load_suite_files :: "dir \<Rightarrow> ustr \<Rightarrow> eval_err + ustr list" where
  "load_suite_files fs suite =
     (if suite = asc ''all''
      then (let files = sort_key fst (filter (\<lambda>f. has_suffix (asc ''.jsonl'') (fst f)) fs)
            in if files = [] then Inl FileNotFound else Inr (map snd files))
      else (case map_of fs (suite @ asc ''.jsonl'') of None \<Rightarrow> Inl FileNotFound | Some t \<Rightarrow> Inr [t]))"

definition skipped_line :: "ustr \<Rightarrow> bool" where
  "skipped_line l \<longleftrightarrow> l = [] \<or> hd l = 35"

fun load_lines :: "(ustr \<Rightarrow> json option) \<Rightarrow> ustr list \<Rightarrow> golden list \<Rightarrow> eval_err + golden list" where
  "load_lines loads [] cases = Inr cases"
| "load_lines loads (raw # ls) cases =
     (let line = strip raw in
      if skipped_line line then load_lines loads ls cases
      else case loads line of None \<Rightarrow> Inl BadJson
        | Some j \<Rightarrow> (case golden_of_json j of None \<Rightarrow> Inl BadCase
          | Some c \<Rightarrow> if gc_id c \<in> set (map gc_id cases) then Inl (DuplicateCase (gc_id c))
                      else load_lines loads ls (cases @ [c])))"

definition load_golden_cases :: "(ustr \<Rightarrow> json option) \<Rightarrow> dir \<Rightarrow> ustr \<Rightarrow> eval_err + golden list" where
  "load_golden_cases loads fs suite = (case load_suite_files fs suite of
     Inl e \<Rightarrow> Inl e | Inr texts \<Rightarrow> load_lines loads (concat (map splitlines texts)) [])"

text \<open>\<open>corpus:<stem>\<close> references; the map is what the seeding wrote.\<close>

type_synonym corpus_map = "(ustr \<times> ustr) list"

definition resolve_ref :: "corpus_map \<Rightarrow> ustr \<Rightarrow> eval_err + ustr" where
  "resolve_ref cm ref =
     (if take (length CORPUS_REF_PREFIX) ref \<noteq> CORPUS_REF_PREFIX then Inr ref
      else let stem = remove_prefix CORPUS_REF_PREFIX ref
           in case map_of cm stem of None \<Rightarrow> Inl (UnknownCorpusDoc stem) | Some d \<Rightarrow> Inr d)"

fun resolve_all :: "corpus_map \<Rightarrow> ustr list \<Rightarrow> eval_err + ustr list" where
  "resolve_all cm [] = Inr []"
| "resolve_all cm (r # rs) = (case resolve_ref cm r of Inl e \<Rightarrow> Inl e
     | Inr d \<Rightarrow> (case resolve_all cm rs of Inl e \<Rightarrow> Inl e | Inr ds \<Rightarrow> Inr (d # ds)))"

fun resolve_corpus_refs :: "corpus_map \<Rightarrow> golden list \<Rightarrow> eval_err + golden list" where
  "resolve_corpus_refs cm [] = Inr []"
| "resolve_corpus_refs cm (c # cs) = (case resolve_all cm (gc_docs c) of Inl e \<Rightarrow> Inl e
     | Inr ds \<Rightarrow> (case resolve_corpus_refs cm cs of Inl e \<Rightarrow> Inl e
        | Inr cs' \<Rightarrow> Inr (c\<lparr>gc_docs := ds\<rparr> # cs')))"

subsection \<open>Running a case\<close>

record case_result =
  cr_case :: golden
  cr_retrieved :: "ustr list"
  cr_titles :: "ustr list"
  cr_answer :: ustr
  cr_sources :: "ustr list"
  cr_refused :: bool
  cr_judge :: "real option"
  cr_error :: "rag_err option"

definition JUDGE_SYSTEM_PROMPT :: ustr where
  "JUDGE_SYSTEM_PROMPT = asc ''You are an evaluation judge. Given a question, retrieved context chunks and an answer, decide whether the answer is supported by the context. Reply with exactly one word: supported, partial, or unsupported.''"

definition JUDGE_CHUNK_PREVIEW_CHARS :: nat where "JUDGE_CHUNK_PREVIEW_CHARS = 600"
definition ANSWER_PREVIEW_CHARS :: nat where "ANSWER_PREVIEW_CHARS = 200"

definition judge_user_text :: "ustr \<Rightarrow> ustr \<Rightarrow> ustr \<Rightarrow> ustr" where
  "judge_user_text q chunks answer = asc ''### Question'' @ [10] @ q @ [10, 10]
     @ asc ''### Context chunks'' @ [10] @ chunks @ [10, 10] @ asc ''### Answer'' @ [10] @ answer @ [10, 10]
     @ asc ''One word verdict (supported / partial / unsupported):''"

definition judge_verdict_scores :: "ustr \<Rightarrow> real option" where
  "judge_verdict_scores w = (if w = asc ''supported'' then Some 1 else if w = asc ''partial'' then Some (1 / 2)
     else if w = asc ''unsupported'' then Some 0 else None)"

text \<open>\<open>s.split()[0]\<close>, empty when there is no word; then stripped of the marks \<open>.,!:;"'\<close>.\<close>

definition first_word :: "ustr \<Rightarrow> ustr" where
  "first_word s = strip_chars [46, 44, 33, 58, 59, 34, 39]
     (takeWhile (\<lambda>c. \<not> is_space c) (dropWhile is_space s))"

definition rendered_chunks :: "ustr list \<Rightarrow> ustr" where
  "rendered_chunks chunks = join [10, 10]
     (map (\<lambda>(i, c). [91] @ dec (i + 1) @ [93, 32] @ take JUDGE_CHUNK_PREVIEW_CHARS c) (zip [0 ..< length chunks] chunks))"

definition judge_answer :: "(history \<Rightarrow> ustr option) \<Rightarrow> ustr \<Rightarrow> ustr \<Rightarrow> ustr list \<Rightarrow> real option" where
  "judge_answer chat q answer chunks =
     (case chat [(asc ''system'', JUDGE_SYSTEM_PROMPT),
                 (asc ''user'', judge_user_text q (rendered_chunks chunks) answer)] of
        None \<Rightarrow> None
      | Some raw \<Rightarrow> judge_verdict_scores (first_word (lower (strip raw))))"

definition named_docs :: "source list \<Rightarrow> ustr list" where
  "named_docs ss = List.map_filter (\<lambda>s. case s_doc_id s of None \<Rightarrow> None
     | Some d \<Rightarrow> if d = [] then None else Some d) ss"

text \<open>An exception ends the case with the fields written so far.\<close>

definition run_case :: "rag_deps \<Rightarrow> bool \<Rightarrow> ustr list \<Rightarrow> nat \<Rightarrow> golden \<Rightarrow> case_result" where
  "run_case d judge refusals k c =
     (let r0 = \<lparr>cr_case = c, cr_retrieved = [], cr_titles = [], cr_answer = [], cr_sources = [],
                cr_refused = False, cr_judge = None, cr_error = None\<rparr>
      in case retrieve (rd_env d) (gc_question c) k (6 / 10) (4 / 10) False False None of
           Inl e \<Rightarrow> r0\<lparr>cr_error := Some e\<rparr>
         | Inr hits \<Rightarrow>
            (let r1 = r0\<lparr>cr_retrieved := map (\<lambda>h. or_else (cm_doc_id (hit_meta h)) []) hits,
                         cr_titles := map (\<lambda>h. or_else (cm_title (hit_meta h)) []) hits\<rparr>
             in case rag_query d (gc_question c) [] k None of
                  Inl e \<Rightarrow> r1\<lparr>cr_error := Some e\<rparr>
                | Inr a \<Rightarrow>
                   (let refused = (strip (rr_answer a) \<in> set refusals \<or> rr_sources a = []);
                        r2 = r1\<lparr>cr_answer := rr_answer a, cr_sources := named_docs (rr_sources a),
                                cr_refused := refused\<rparr>
                    in if judge \<and> gc_kind c = Answerable \<and> \<not> refused
                       then r2\<lparr>cr_judge := judge_answer (rd_chat d) (gc_question c) (rr_answer a) (map hit_doc hits)\<rparr>
                       else r2)))"

text \<open>
  \<open>run_all\<close>: one task for each case, and a semaphore for those in flight. A task starts when a
  permit is free and ends with its case's result; \<open>gather\<close> returns the results in the order of
  the cases, whatever order the tasks ran in.
\<close>

datatype task = Waiting | Running | Finished case_result

definition in_flight :: "task list \<Rightarrow> nat" where
  "in_flight ts = length (filter (\<lambda>t. t = Running) ts)"

inductive pool_step :: "(golden \<Rightarrow> case_result) \<Rightarrow> golden list \<Rightarrow> task list \<Rightarrow> task list \<Rightarrow> bool"
  for f cases where
  start: "i < length ts \<Longrightarrow> ts ! i = Waiting \<Longrightarrow> in_flight ts < EVAL_CONCURRENCY \<Longrightarrow>
    pool_step f cases ts (ts[i := Running])"
| finish: "i < length ts \<Longrightarrow> ts ! i = Running \<Longrightarrow> pool_step f cases ts (ts[i := Finished (f (cases ! i))])"

inductive_cases pool_stepE: "pool_step f cases ts ts'"

inductive pool_reach :: "(golden \<Rightarrow> case_result) \<Rightarrow> golden list \<Rightarrow> task list \<Rightarrow> bool" for f cases where
  init: "pool_reach f cases (map (\<lambda>_. Waiting) cases)"
| step: "pool_reach f cases ts \<Longrightarrow> pool_step f cases ts ts' \<Longrightarrow> pool_reach f cases ts'"

definition run_all :: "rag_deps \<Rightarrow> bool \<Rightarrow> nat \<Rightarrow> golden list \<Rightarrow> case_result list" where
  "run_all d judge k cases = map (run_case d judge REFUSAL_TEXTS k) cases"

subsection \<open>Metrics\<close>

definition mean :: "real list \<Rightarrow> real option" where
  "mean xs = (if xs = [] then None else Some (sum_list xs / real (length xs)))"

definition valid_cases :: "case_kind \<Rightarrow> case_result list \<Rightarrow> case_result list" where
  "valid_cases k rs = filter (\<lambda>r. gc_kind (cr_case r) = k \<and> cr_error r = None) rs"

definition shares :: "'a list \<Rightarrow> 'a list \<Rightarrow> bool" where
  "shares xs ys \<longleftrightarrow> list_ex (\<lambda>x. x \<in> set ys) xs"

definition hit_at_k :: "case_result list \<Rightarrow> real option" where
  "hit_at_k rs = (let a = valid_cases Answerable rs in
     if a = [] then None
     else Some (real (length (filter (\<lambda>r. shares (gc_docs (cr_case r)) (cr_retrieved r)) a)) / real (length a)))"

fun rank_value :: "ustr list \<Rightarrow> nat \<Rightarrow> ustr list \<Rightarrow> real" where
  "rank_value docs rank [] = 0"
| "rank_value docs rank (d # ds) = (if d \<in> set docs then 1 / real rank else rank_value docs (rank + 1) ds)"

definition mrr :: "case_result list \<Rightarrow> real option" where
  "mrr rs = mean (map (\<lambda>r. rank_value (gc_docs (cr_case r)) 1 (cr_retrieved r)) (valid_cases Answerable rs))"

definition refusal_correctness :: "case_result list \<Rightarrow> real option \<times> real option" where
  "refusal_correctness rs =
     (mean (map (\<lambda>r. if cr_refused r then 1 else 0) (valid_cases Unanswerable rs)),
      mean (map (\<lambda>r. if cr_refused r then 0 else 1) (valid_cases Answerable rs)))"

definition covered_share :: "(ustr \<Rightarrow> ustr) \<Rightarrow> case_result \<Rightarrow> real" where
  "covered_share casefold r = (let ev = gc_evidence (cr_case r); answer = casefold (cr_answer r) in
     real (length (filter (\<lambda>needle. substr (casefold needle) answer) ev)) / real (length ev))"

definition evidence_coverage :: "(ustr \<Rightarrow> ustr) \<Rightarrow> case_result list \<Rightarrow> real option" where
  "evidence_coverage casefold rs = mean (map (covered_share casefold)
     (filter (\<lambda>r. gc_evidence (cr_case r) \<noteq> [] \<and> \<not> cr_refused r) (valid_cases Answerable rs)))"

definition citation_grounding :: "case_result list \<Rightarrow> real option" where
  "citation_grounding rs = (let answered = filter (\<lambda>r. \<not> cr_refused r) (valid_cases Answerable rs) in
     if answered = [] then None
     else Some (real (length (filter (\<lambda>r. shares (gc_docs (cr_case r)) (cr_sources r)) answered))
                / real (length answered)))"

definition judged_faithfulness :: "case_result list \<Rightarrow> real option" where
  "judged_faithfulness rs = mean (List.map_filter cr_judge rs)"

record summary =
  su_total :: nat
  su_errored :: nat
  su_values :: "(string \<times> real option) list"

definition summarize_results :: "(ustr \<Rightarrow> ustr) \<Rightarrow> case_result list \<Rightarrow> summary" where
  "summarize_results casefold rs = \<lparr>su_total = length rs, su_errored = length (filter (\<lambda>r. cr_error r \<noteq> None) rs),
     su_values = [(''hit_at_k'', hit_at_k rs), (''mrr'', mrr rs),
       (''refusal_correctness_unanswerable'', fst (refusal_correctness rs)),
       (''refusal_correctness_answerable'', snd (refusal_correctness rs)),
       (''evidence_coverage'', evidence_coverage casefold rs),
       (''citation_grounding'', citation_grounding rs),
       (''judged_faithfulness'', judged_faithfulness rs)]\<rparr>"

record case_report =
  cp_id :: ustr
  cp_kind :: case_kind
  cp_error :: "rag_err option"
  cp_refused :: bool
  cp_expected :: "ustr list"
  cp_retrieved :: "ustr list"
  cp_titles :: "ustr list"
  cp_sources :: "ustr list"
  cp_judge :: "real option"
  cp_preview :: ustr

definition case_payload :: "case_result \<Rightarrow> case_report" where
  "case_payload r = \<lparr>cp_id = gc_id (cr_case r), cp_kind = gc_kind (cr_case r), cp_error = cr_error r,
     cp_refused = cr_refused r, cp_expected = gc_docs (cr_case r), cp_retrieved = cr_retrieved r,
     cp_titles = cr_titles r, cp_sources = cr_sources r, cp_judge = cr_judge r,
     cp_preview = take ANSWER_PREVIEW_CHARS (cr_answer r)\<rparr>"

definition case_problems :: "(rag_err \<Rightarrow> ustr) \<Rightarrow> case_result \<Rightarrow> ustr list" where
  "case_problems err_text r = (case cr_error r of
     Some e \<Rightarrow> [asc ''error: '' @ err_text e]
   | None \<Rightarrow> (if gc_kind (cr_case r) = Answerable
       then (if shares (gc_docs (cr_case r)) (cr_retrieved r) then []
             else [asc ''miss: expected doc not in top-k''])
          @ (if cr_refused r then [asc ''over-refusal: answerable case refused''] else [])
       else if cr_refused r then []
       else [asc ''hallucination-risk: unanswerable case answered'']))"

definition failure_line :: "(rag_err \<Rightarrow> ustr) \<Rightarrow> case_result \<Rightarrow> ustr" where
  "failure_line err_text r =
     (let titles = join (asc '', '') (take 3 (cr_titles r))
      in [91] @ gc_id (cr_case r) @ asc ''] '' @ join (asc ''; '') (case_problems err_text r)
         @ asc '' | top3: '' @ (if titles = [] then asc ''-'' else titles))"

definition failures :: "(rag_err \<Rightarrow> ustr) \<Rightarrow> case_result list \<Rightarrow> ustr list" where
  "failures err_text rs = map (failure_line err_text) (filter (\<lambda>r. case_problems err_text r \<noteq> []) rs)"

subsection \<open>Reports\<close>

definition CORE_METRICS :: "string list" where
  "CORE_METRICS = [''hit_at_k'', ''mrr'', ''refusal_correctness_unanswerable'', ''refusal_correctness_answerable'',
     ''evidence_coverage'', ''citation_grounding'']"

text \<open>A report is its run's name and its \<open>summary\<close>, absent when the payload has none.\<close>

record report =
  rp_file :: ustr
  rp_summary :: "(string \<times> real option) list"

definition load_reports :: "(ustr \<Rightarrow> (string \<times> real option) list option) \<Rightarrow> nat \<Rightarrow> dir \<Rightarrow> report list" where
  "load_reports parse n fs = List.map_filter
     (\<lambda>(name, t). map_option (\<lambda>s. \<lparr>rp_file = name, rp_summary = s\<rparr>) (parse t))
     (let files = sort_key fst (filter (\<lambda>f. has_suffix (asc ''.json'') (fst f) \<and> fst f \<noteq> CORPUS_MAP_FILENAME) fs)
      in if n = 0 then files else last_n n files)"

definition metric_of :: "report \<Rightarrow> string \<Rightarrow> real option" where
  "metric_of r m = (case map_of (rp_summary r) m of None \<Rightarrow> None | Some v \<Rightarrow> v)"

text \<open>A regression: the metric, both values; the printed drop is their difference.\<close>

definition find_regressions :: "report \<Rightarrow> report \<Rightarrow> (string \<times> real \<times> real) list" where
  "find_regressions prev latest = List.map_filter
     (\<lambda>m. case (metric_of prev m, metric_of latest m) of
        (Some p, Some l) \<Rightarrow> if p - l > EVAL_REGRESSION_TOLERANCE then Some (m, p, l) else None
      | _ \<Rightarrow> None) CORE_METRICS"

datatype trend = NoReports | OneReport | Regression "(string \<times> real \<times> real) list" | NoRegression

definition report_main :: "report list \<Rightarrow> trend" where
  "report_main rs = (if rs = [] then NoReports
     else if length rs < 2 then OneReport
     else case find_regressions (rs ! (length rs - 2)) (last rs) of [] \<Rightarrow> NoRegression | ps \<Rightarrow> Regression ps)"

definition exit_code :: "trend \<Rightarrow> nat" where
  "exit_code t = (case t of Regression _ \<Rightarrow> 1 | _ \<Rightarrow> 0)"

text \<open>\<open>run_eval\<close>: what one run measures and writes, or why it stops before it has.\<close>

definition run_eval ::
  "(ustr \<Rightarrow> json option) \<Rightarrow> (ustr \<Rightarrow> ustr) \<Rightarrow> rag_deps \<Rightarrow> dir \<Rightarrow> corpus_map option \<Rightarrow> ustr \<Rightarrow> nat \<Rightarrow> bool
   \<Rightarrow> eval_err + case_report list \<times> summary" where
  "run_eval loads casefold d golden_dir cm suite k judge =
     (case cm of None \<Rightarrow> Inl FileNotFound
      | Some m \<Rightarrow> (case load_golden_cases loads golden_dir suite of Inl e \<Rightarrow> Inl e
         | Inr loaded \<Rightarrow> (case resolve_corpus_refs m loaded of Inl e \<Rightarrow> Inl e
            | Inr cases \<Rightarrow> (let rs = run_all d judge k cases
                in Inr (map case_payload rs, summarize_results casefold rs)))))"

definition require_local_provider :: "string \<Rightarrow> bool" where
  "require_local_provider provider \<longleftrightarrow> provider = REQUIRED_EMBEDDING_PROVIDER"

subsection \<open>Seeding the corpus\<close>

text \<open>
  One corpus file: its stem, its bytes, and what its publication gets from outside (the new
  identifier, the clock, the services). The clean-up calls of the previous generation have
  services of their own.
\<close>

record 'c seed_file =
  sf_stem :: ustr
  sf_bytes :: bytes
  sf_id :: uuid
  sf_now :: int
  sf_env :: "'c publish_env"

record 'c sweep_calls =
  sc_index :: "'c index_env"
  sc_delete :: "exn option"

definition corpus_docs :: "document list \<Rightarrow> document list" where
  "corpus_docs docs = filter (\<lambda>d. dc_source d = Some EVAL_DOC_SOURCE) docs"

fun delete_docs :: "'c sweep_calls \<Rightarrow> document list \<Rightarrow> 'c depot \<Rightarrow> exn option \<times> 'c depot" where
  "delete_docs S [] dp = (None, dp)"
| "delete_docs S (d # ds) dp =
     (case delete_document (sc_index S) (uuid_text (dc_id d)) (dp_stores dp) of
        (Some e, st) \<Rightarrow> (Some e, dp\<lparr>dp_stores := st\<rparr>)
      | (None, st) \<Rightarrow>
         (case (case tag_text ''storage_key'' d of
                  None \<Rightarrow> (None, dp\<lparr>dp_stores := st\<rparr>)
                | Some key \<Rightarrow> delete_document_bytes (sc_delete S) key (dp\<lparr>dp_stores := st\<rparr>)) of
            (Some e, dp1) \<Rightarrow> (Some e, dp1)
          | (None, dp1) \<Rightarrow> delete_docs S ds (with_docs (snd (doc_delete (dc_id d) (docs_of dp1))) dp1)))"

definition delete_previous_corpus :: "'c sweep_calls \<Rightarrow> 'c depot \<Rightarrow> (exn + nat) \<times> 'c depot" where
  "delete_previous_corpus S dp = (case delete_docs S (corpus_docs (docs_of dp)) dp of
     (Some e, dp1) \<Rightarrow> (Inl e, dp1)
   | (None, dp1) \<Rightarrow> (Inr (length (corpus_docs (docs_of dp))), dp1))"

fun publish_files :: "'c seed_file list \<Rightarrow> 'c depot \<Rightarrow> (exn + corpus_map) \<times> 'c depot" where
  "publish_files [] dp = (Inr [], dp)"
| "publish_files (f # fs) dp =
     (case publish_document_bytes (sf_env f) (sf_id f) (sf_now f) (EVAL_TITLE_PREFIX @ sf_stem f)
             (sf_stem f @ asc ''.md'') (sf_bytes f) (Some EVAL_DOC_SOURCE) [] dp of
        (Inl e, dp1) \<Rightarrow> (Inl e, dp1)
      | (Inr d, dp1) \<Rightarrow> (case publish_files fs dp1 of
           (Inl e, dp2) \<Rightarrow> (Inl e, dp2)
         | (Inr m, dp2) \<Rightarrow> (Inr ((sf_stem f, uuid_text (dc_id d)) # m), dp2)))"

datatype seed_result = NoCorpus | SeedFailed exn | Seeded nat corpus_map

text \<open>The database session commits at the end; an exception rolls its tables back.\<close>

definition seed_corpus :: "'c sweep_calls \<Rightarrow> 'c seed_file list \<Rightarrow> 'c depot \<Rightarrow> seed_result \<times> 'c depot" where
  "seed_corpus S fs dp =
     (if fs = [] then (NoCorpus, dp)
      else let files = sort_key (\<lambda>f. sf_stem f @ asc ''.md'') fs in
       case delete_previous_corpus S dp of
         (Inl e, dp1) \<Rightarrow> (SeedFailed e, dp1\<lparr>dp_world := dp_world dp\<rparr>)
       | (Inr n, dp1) \<Rightarrow> (case publish_files files dp1 of
            (Inl e, dp2) \<Rightarrow> (SeedFailed e, dp2\<lparr>dp_world := dp_world dp\<rparr>)
          | (Inr m, dp2) \<Rightarrow> (Seeded n m, dp2)))"

subsection \<open>The metrics are shares\<close>

definition share :: "real option \<Rightarrow> bool" where
  "share v \<longleftrightarrow> (case v of None \<Rightarrow> True | Some x \<Rightarrow> 0 \<le> x \<and> x \<le> 1)"

definition indicator_of :: "bool \<Rightarrow> real" where
  "indicator_of b = (if b then 1 else 0)"

lemma sum_list_bounds:
  "(\<And>x. x \<in> set xs \<Longrightarrow> 0 \<le> x \<and> x \<le> (1 :: real)) \<Longrightarrow> 0 \<le> sum_list xs \<and> sum_list xs \<le> real (length xs)"
  by (induction xs) fastforce+

lemma share_mean: "(\<And>x. x \<in> set xs \<Longrightarrow> 0 \<le> x \<and> x \<le> 1) \<Longrightarrow> share (mean xs)"
  using sum_list_bounds [of xs] by (auto simp: share_def mean_def divide_le_eq)

lemma mean_mono:
  "(\<And>x. x \<in> set xs \<Longrightarrow> f x \<le> g x) \<Longrightarrow> mean (map f xs) = Some a \<Longrightarrow> mean (map g xs) = Some b \<Longrightarrow> a \<le> b"
  using sum_list_mono [of xs f g] by (auto simp: mean_def divide_right_mono split: if_splits)

lemma mean_None: "mean xs = None \<longleftrightarrow> xs = []"
  by (simp add: mean_def)

lemma mean_indicator:
  "mean (map (\<lambda>x. indicator_of (P x)) xs) =
   (if xs = [] then None else Some (real (length (filter P xs)) / real (length xs)))"
proof -
  have "sum_list (map (\<lambda>x. indicator_of (P x)) ys) = real (length (filter P ys))" for ys
    by (induction ys) (simp_all add: indicator_of_def)
  then show ?thesis by (simp add: mean_def)
qed

lemma hit_at_k_mean:
  "hit_at_k rs = mean (map (\<lambda>r. indicator_of (shares (gc_docs (cr_case r)) (cr_retrieved r)))
     (valid_cases Answerable rs))"
  by (simp add: hit_at_k_def mean_indicator Let_def)

lemma citation_grounding_mean:
  "citation_grounding rs = mean (map (\<lambda>r. indicator_of (shares (gc_docs (cr_case r)) (cr_sources r)))
     (filter (\<lambda>r. \<not> cr_refused r) (valid_cases Answerable rs)))"
  by (simp add: citation_grounding_def mean_indicator Let_def)

lemma rank_value_bounds:
  "0 < n \<Longrightarrow> 0 \<le> rank_value docs n ds \<and> rank_value docs n ds \<le> indicator_of (shares docs ds)"
proof (induction ds arbitrary: n)
  case (Cons d ds)
  have "indicator_of (shares docs ds) \<le> indicator_of (shares docs (d # ds))"
    by (auto simp: indicator_of_def shares_def list_ex_iff)
  moreover have "1 / real n \<le> 1" using Cons.prems by simp
  moreover have "d \<in> set docs \<Longrightarrow> shares docs (d # ds)" by (auto simp: shares_def list_ex_iff)
  ultimately show ?case using Cons.IH [of "n + 1"] by (auto simp: indicator_of_def)
qed (simp add: indicator_of_def)

lemma indicator_bounds [simp]: "0 \<le> indicator_of b" "indicator_of b \<le> 1"
  by (simp_all add: indicator_of_def)

lemma share_hit: "share (hit_at_k rs)"
  unfolding hit_at_k_mean by (rule share_mean) auto

lemma share_citation: "share (citation_grounding rs)"
  unfolding citation_grounding_mean by (rule share_mean) auto

lemma share_mrr: "share (mrr rs)"
proof -
  have "rank_value docs 1 ds \<le> 1" for docs ds
    using rank_value_bounds [of 1 docs ds] indicator_bounds(2) [of "shares docs ds"] by linarith
  then show ?thesis unfolding mrr_def
    by (intro share_mean) (use rank_value_bounds [of 1] in auto)
qed

lemma mrr_le_hit: "mrr rs = Some a \<Longrightarrow> hit_at_k rs = Some b \<Longrightarrow> a \<le> b"
  unfolding mrr_def hit_at_k_mean by (rule mean_mono) (use rank_value_bounds [of 1] in auto)

lemma share_refusals: "share (fst (refusal_correctness rs))" "share (snd (refusal_correctness rs))"
  unfolding refusal_correctness_def by (auto intro!: share_mean)

lemma share_evidence: "share (evidence_coverage casefold rs)"
  unfolding evidence_coverage_def
proof (rule share_mean)
  fix x
  assume "x \<in> set (map (covered_share casefold)
     (filter (\<lambda>r. gc_evidence (cr_case r) \<noteq> [] \<and> \<not> cr_refused r) (valid_cases Answerable rs)))"
  then obtain r where "x = covered_share casefold r" "gc_evidence (cr_case r) \<noteq> []" by auto
  then show "0 \<le> x \<and> x \<le> 1"
    by (simp add: covered_share_def Let_def divide_le_eq length_filter_le)
qed

lemma judge_share: "judge_answer chat q a cs = Some x \<Longrightarrow> 0 \<le> x \<and> x \<le> 1"
  by (auto simp: judge_answer_def judge_verdict_scores_def split: option.splits if_splits)

lemma run_case_judge: "cr_judge (run_case d judge rt k c) = Some x \<Longrightarrow> 0 \<le> x \<and> x \<le> 1"
  by (auto simp: run_case_def Let_def dest: judge_share split: sum.splits if_splits)

lemma run_case_case [simp]: "cr_case (run_case d judge rt k c) = c"
  by (simp add: run_case_def Let_def split: sum.split)

lemma share_judged: "share (judged_faithfulness (run_all d judge k cases))"
  unfolding judged_faithfulness_def
proof (rule share_mean)
  fix x
  assume "x \<in> set (List.map_filter cr_judge (run_all d judge k cases))"
  then obtain c where "cr_judge (run_case d judge REFUSAL_TEXTS k c) = Some x"
    by (auto simp: run_all_def set_slots)
  then show "0 \<le> x \<and> x \<le> 1" by (rule run_case_judge)
qed

lemmas shares_all = share_hit share_mrr share_refusals share_evidence share_citation share_judged

subsection \<open>A run of the evaluation\<close>

definition cases_ok :: "golden list \<Rightarrow> bool" where
  "cases_ok cs \<longleftrightarrow> distinct (map gc_id cs) \<and> list_all answerable_needs_docs cs"

lemma golden_ok: "golden_of_json j = Some c \<Longrightarrow> answerable_needs_docs c"
  by (auto simp: golden_of_json_def Let_def split: json.splits option.splits if_splits)

lemma load_lines_ok:
  "load_lines loads ls cs = Inr cases \<Longrightarrow> cases_ok cs \<Longrightarrow> cases_ok cases"
proof (induction loads ls cs rule: load_lines.induct)
  case (2 loads raw ls cs)
  show ?case
  proof (cases "skipped_line (strip raw)")
    case True
    then show ?thesis using 2 by (simp add: Let_def)
  next
    case False
    then obtain j c where j: "loads (strip raw) = Some j" "golden_of_json j = Some c" "gc_id c \<notin> set (map gc_id cs)"
      "load_lines loads ls (cs @ [c]) = Inr cases"
      using 2(3) by (auto simp: Let_def split: option.splits if_splits)
    have "cases_ok (cs @ [c])" using 2(4) j(3) golden_ok [OF j(2)] by (simp add: cases_ok_def)
    with 2(2) [OF refl False j(1-3) j(4)] show ?thesis by simp
  qed
qed simp

lemma load_golden_ok: "load_golden_cases loads fs suite = Inr cases \<Longrightarrow> cases_ok cases"
  using load_lines_ok [where cs = "[]"]
  by (auto simp: load_golden_cases_def cases_ok_def split: sum.splits)

lemma resolve_all_length: "resolve_all cm refs = Inr ds \<Longrightarrow> length ds = length refs"
  by (induction refs arbitrary: ds) (auto split: sum.splits)

lemma resolve_all_nth:
  "resolve_all cm refs = Inr ds \<Longrightarrow> i < length refs \<Longrightarrow> resolve_ref cm (refs ! i) = Inr (ds ! i)"
proof (induction refs arbitrary: ds i)
  case (Cons r refs)
  then show ?case by (cases i) (auto split: sum.splits)
qed simp

lemma resolve_cases:
  "resolve_corpus_refs cm cs = Inr cases \<Longrightarrow> list_all2
     (\<lambda>c c'. \<exists>ds. resolve_all cm (gc_docs c) = Inr ds \<and> c' = c\<lparr>gc_docs := ds\<rparr>) cs cases"
  by (induction cs arbitrary: cases) (auto split: sum.splits)

lemma resolve_ok:
  assumes "resolve_corpus_refs cm cs = Inr cases" "cases_ok cs"
  shows "cases_ok cases"
proof -
  note r = resolve_cases [OF assms(1)]
  have ids: "map gc_id cases = map gc_id cs"
    using r by (intro nth_equalityI) (auto simp: list_all2_conv_all_nth)
  have "answerable_needs_docs c'" if c': "c' \<in> set cases" for c'
  proof -
    obtain i where i: "i < length cases" "c' = cases ! i" using c' by (auto simp: in_set_conv_nth)
    obtain ds where ds: "resolve_all cm (gc_docs (cs ! i)) = Inr ds" "cases ! i = (cs ! i)\<lparr>gc_docs := ds\<rparr>"
      using r i(1) unfolding list_all2_conv_all_nth by auto
    have "length ds = length (gc_docs (cs ! i))" by (rule resolve_all_length [OF ds(1)])
    then have "ds = [] \<longleftrightarrow> gc_docs (cs ! i) = []" by auto
    moreover have "answerable_needs_docs (cs ! i)"
      using assms(2) i(1) r by (auto simp: cases_ok_def list_all_iff dest: list_all2_lengthD)
    ultimately show ?thesis using ds(2) i(2)
      by (auto simp: answerable_needs_docs_def split: case_kind.splits)
  qed
  then show ?thesis using assms(2) ids by (simp add: cases_ok_def list_all_iff)
qed

lemma find_regressions_mem:
  "(m, x, y) \<in> set (find_regressions a b) \<longleftrightarrow> m \<in> set CORE_METRICS \<and> metric_of a m = Some x
     \<and> metric_of b m = Some y \<and> EVAL_REGRESSION_TOLERANCE < x - y"
  unfolding find_regressions_def set_slots by (auto split: option.splits if_splits)

lemma self_comparison: "rp_summary a = rp_summary b \<Longrightarrow> find_regressions a b = []"
proof -
  assume "rp_summary a = rp_summary b"
  then have "p \<notin> set (find_regressions a b)" for p
    by (cases p) (auto simp: find_regressions_mem metric_of_def EVAL_REGRESSION_TOLERANCE_def)
  then show ?thesis by (metis list.set_intros(1) neq_Nil_conv)
qed

lemma run_all_case: "map cr_case (run_all d judge k cases) = cases"
  by (simp add: run_all_def comp_def)

text \<open>What a run gives when it gets that far.\<close>

lemma run_evalE:
  assumes "run_eval loads casefold d fs cm suite k judge = Inr (ps, su)"
  obtains cases where "cases_ok cases" "ps = map case_payload (run_all d judge k cases)"
    "su = summarize_results casefold (run_all d judge k cases)"
proof -
  obtain m loaded cases where r: "cm = Some m" "load_golden_cases loads fs suite = Inr loaded"
    "resolve_corpus_refs m loaded = Inr cases"
    "ps = map case_payload (run_all d judge k cases)" "su = summarize_results casefold (run_all d judge k cases)"
    using assms by (auto simp: run_eval_def Let_def split: option.splits sum.splits)
  have "cases_ok cases" by (rule resolve_ok [OF r(3) load_golden_ok [OF r(2)]])
  then show thesis using r(4,5) by (rule that)
qed


subsection \<open>The cases in flight\<close>

definition task_work :: "task \<Rightarrow> nat" where
  "task_work t = (case t of Waiting \<Rightarrow> 2 | Running \<Rightarrow> 1 | Finished _ \<Rightarrow> 0)"

definition pool_work :: "task list \<Rightarrow> nat" where
  "pool_work ts = sum_list (map task_work ts)"

definition result_of :: "task \<Rightarrow> case_result option" where
  "result_of t = (case t of Finished r \<Rightarrow> Some r | _ \<Rightarrow> None)"

lemma in_flight_Cons: "in_flight (t # ts) = (if t = Running then 1 else 0) + in_flight ts"
  by (simp add: in_flight_def)

lemma in_flight_update:
  "i < length ts \<Longrightarrow> in_flight (ts[i := t]) + (if ts ! i = Running then 1 else 0)
     = in_flight ts + (if t = Running then 1 else 0)"
proof (induction ts arbitrary: i)
  case (Cons a ts)
  show ?case
  proof (cases i)
    case (Suc j)
    with Cons.prems Cons.IH [of j] show ?thesis by (simp add: in_flight_Cons)
  qed (simp add: in_flight_Cons)
qed simp

lemma pool_work_update:
  "i < length ts \<Longrightarrow> pool_work (ts[i := t]) + task_work (ts ! i) = pool_work ts + task_work t"
proof (induction ts arbitrary: i)
  case (Cons a ts)
  then show ?case by (cases i) (auto simp: pool_work_def)
qed simp

lemma in_flight_zero: "Running \<notin> set ts \<Longrightarrow> in_flight ts = 0"
  by (simp add: in_flight_def filter_empty_conv) blast

definition pool_ok :: "(golden \<Rightarrow> case_result) \<Rightarrow> golden list \<Rightarrow> task list \<Rightarrow> bool" where
  "pool_ok f cases ts \<longleftrightarrow> length ts = length cases \<and> in_flight ts \<le> EVAL_CONCURRENCY
     \<and> (\<forall>i < length ts. \<forall>r. ts ! i = Finished r \<longrightarrow> r = f (cases ! i))"

lemma pool_step_ok: "pool_step f cases ts ts' \<Longrightarrow> pool_ok f cases ts \<Longrightarrow> pool_ok f cases ts'"
proof (induction rule: pool_step.induct)
  case (start i ts)
  then show ?case using in_flight_update [of i ts Running] by (auto simp: pool_ok_def nth_list_update)
next
  case (finish i ts)
  then show ?case using in_flight_update [of i ts "Finished (f (cases ! i))"]
    by (auto simp: pool_ok_def nth_list_update)
qed

lemma pool_reach_ok: "pool_reach f cases ts \<Longrightarrow> pool_ok f cases ts"
proof (induction rule: pool_reach.induct)
  case init
  have "in_flight (map (\<lambda>_. Waiting) cases) = 0" by (rule in_flight_zero) auto
  then show ?case by (simp add: pool_ok_def)
qed (rule pool_step_ok)

lemma pool_step_work: "pool_step f cases ts ts' \<Longrightarrow> pool_work ts' < pool_work ts"
proof (induction rule: pool_step.induct)
  case (start i ts)
  then show ?case using pool_work_update [of i ts Running] by (simp add: task_work_def)
next
  case (finish i ts)
  then show ?case using pool_work_update [of i ts "Finished (f (cases ! i))"] by (simp add: task_work_def)
qed

lemma pool_stuck:
  assumes "\<And>ts'. \<not> pool_step f cases ts ts'" "i < length ts"
  shows "\<exists>r. ts ! i = Finished r"
proof -
  have nr: "ts ! j \<noteq> Running" if "j < length ts" for j using assms(1) pool_step.finish that by metis
  then have "in_flight ts = 0" by (intro in_flight_zero) (auto simp: in_set_conv_nth)
  then have "ts ! i \<noteq> Waiting" using assms pool_step.start [of i ts f cases] by (auto simp: EVAL_CONCURRENCY_def)
  then show ?thesis using nr [OF assms(2)] by (cases "ts ! i") auto
qed

lemma pool_results:
  assumes "pool_ok f cases ts" "\<And>ts'. \<not> pool_step f cases ts ts'"
  shows "ts = map (Finished \<circ> f) cases"
proof (rule nth_equalityI)
  show "length ts = length (map (Finished \<circ> f) cases)" using assms(1) by (simp add: pool_ok_def)
  fix i
  assume i: "i < length ts"
  obtain r where "ts ! i = Finished r" using pool_stuck [OF assms(2) i] by blast
  with assms(1) i show "ts ! i = map (Finished \<circ> f) cases ! i" by (auto simp: pool_ok_def)
qed

text \<open>
  The cases run concurrently and the results do not depend on how. However the tasks are
  scheduled, at most four cases are in flight; every step brings the run closer to its end, at
  most two steps for a case; when nothing is left to do the results are those of the cases one
  after the other, in their order; and a case never fails the run: an error is part of its
  result, and with a consistent index there is none.
\<close>

theorem schedule_does_not_matter:
  assumes "pool_reach (run_case d judge REFUSAL_TEXTS k) cases ts"
  shows "in_flight ts \<le> 4 \<and> pool_work ts \<le> 2 * length cases
   \<and> (\<forall>ts'. pool_step (run_case d judge REFUSAL_TEXTS k) cases ts ts' \<longrightarrow> pool_work ts' < pool_work ts)
   \<and> ((\<nexists>ts'. pool_step (run_case d judge REFUSAL_TEXTS k) cases ts ts') \<longrightarrow>
        List.map_filter result_of ts = run_all d judge k cases)
   \<and> (env_ok (rd_env d) \<longrightarrow> (\<forall>r \<in> set (run_all d judge k cases). cr_error r = None))"
proof -
  let ?f = "run_case d judge REFUSAL_TEXTS k"
  note ok = pool_reach_ok [OF assms]
  have bound: "pool_work ts \<le> 2 * length ts" by (induction ts) (simp_all add: pool_work_def task_work_def split: task.split)
  have res: "List.map_filter result_of (map (Finished \<circ> ?f) cs) = map ?f cs" for cs
    by (induction cs) (simp_all add: map_filter_simps result_of_def)
  have fin: "List.map_filter result_of ts = run_all d judge k cases"
    if "\<nexists>ts'. pool_step ?f cases ts ts'"
    using pool_results [OF ok] that res [of cases] by (simp add: run_all_def)
  have noerr: "cr_error (?f c) = None" if "env_ok (rd_env d)" for c
    using retrieve_total [OF that, of "gc_question c" k "6 / 10" "4 / 10" False False None]
      retrieve_and_assess_value [OF that, of "gc_question c" k None]
    by (auto simp: run_case_def Let_def rag_query_def)
  have "in_flight ts \<le> 4 \<and> length ts = length cases" using ok by (simp add: pool_ok_def EVAL_CONCURRENCY_def)
  with bound fin noerr pool_step_work [of ?f cases ts] show ?thesis by (auto simp: run_all_def)
qed

definition quiet_deps :: rag_deps where
  "quiet_deps = \<lparr>rd_env = \<lparr>re_vector = \<lambda>_ _ _. Some [(asc ''c1'', asc ''Invoices'',
       no_meta\<lparr>cm_doc_id := Some (asc ''d1'')\<rparr>, 2 / 10)], re_score = \<lambda>c _. map (\<lambda>_. 1) c, re_index = None\<rparr>,
     rd_rerank = None, rd_chat = \<lambda>_. Some (asc ''yes''), rd_stream = \<lambda>_. ([asc ''yes''], False),
     rd_prompt = \<lambda>_. [], rd_other = \<lambda>_. None\<rparr>"

definition sample_case :: json where
  "sample_case = JDict [(''id'', JStr (asc ''q1'')), (''question'', JStr (asc ''invoice?'')),
     (''kind'', JStr (asc ''answerable'')), (''expected_doc_ids'', JList [JStr (asc ''corpus:invoicing'')])]"

definition sample_map :: corpus_map where
  "sample_map = [(asc ''invoicing'', asc ''d1'')]"

theorem schedule_does_not_matter_witness:
  "in_flight [Running, Waiting] \<le> 4 \<and> env_ok (rd_env quiet_deps)"
proof -
  let ?c = "\<lparr>gc_id = [1], gc_question = [1], gc_kind = Unanswerable, gc_docs = [], gc_evidence = [],
      gc_filters = None, gc_notes = None\<rparr>"
  let ?f = "run_case quiet_deps False REFUSAL_TEXTS 5"
  have "pool_step ?f [?c, ?c] [Waiting, Waiting] ([Waiting, Waiting][0 := Running])"
    by (rule pool_step.start) (simp_all add: in_flight_def EVAL_CONCURRENCY_def)
  then have "pool_reach ?f [?c, ?c] [Running, Waiting]"
    using pool_reach.step [OF pool_reach.init [of ?f "[?c, ?c]"]] by simp
  from schedule_does_not_matter [OF this] show ?thesis by (simp add: env_ok_def quiet_deps_def)
qed


subsection \<open>The corpus and its map\<close>

lemma delete_docs_docs:
  "delete_docs S ds dp = (None, dp') \<Longrightarrow> same_tables dp dp'
     \<and> docs_of dp' = filter (\<lambda>d. dc_id d \<notin> dc_id ` set ds) (docs_of dp)"
proof (induction ds arbitrary: dp)
  case (Cons d ds)
  obtain st where st: "delete_document (sc_index S) (uuid_text (dc_id d)) (dp_stores dp) = (None, st)"
    using Cons.prems by (auto split: prod.splits option.splits)
  obtain dp1 where dp1: "(case tag_text ''storage_key'' d of None \<Rightarrow> (None, dp\<lparr>dp_stores := st\<rparr>)
      | Some key \<Rightarrow> delete_document_bytes (sc_delete S) key (dp\<lparr>dp_stores := st\<rparr>)) = (None, dp1)"
    using Cons.prems st by (auto split: prod.splits option.splits)
  have s1: "same_tables dp dp1 \<and> docs_of dp1 = docs_of dp"
    using dp1 delete_same [of "sc_delete S" _ "dp\<lparr>dp_stores := st\<rparr>" None dp1]
      same_tables_trans [of dp "dp\<lparr>dp_stores := st\<rparr>" dp1]
    by (auto split: option.splits)
  let ?dp2 = "with_docs (snd (doc_delete (dc_id d) (docs_of dp1))) dp1"
  have "delete_docs S ds ?dp2 = (None, dp')" using Cons.prems st dp1 by simp
  from Cons.IH [OF this] show ?case
    using s1 same_tables_trans [of dp ?dp2 dp'] same_tables_trans [of dp dp1 ?dp2]
    by (auto simp: doc_delete_def intro!: filter_cong)
qed (auto simp: same_tables_def docs_of_def)

definition published_file :: "'c seed_file \<Rightarrow> document \<Rightarrow> bool" where
  "published_file f d \<longleftrightarrow> dc_id d = sf_id f \<and> dc_status d = DocActive
     \<and> dc_title d = EVAL_TITLE_PREFIX @ sf_stem f \<and> dc_source d = Some EVAL_DOC_SOURCE"

lemma publish_files_docs:
  "publish_files fs dp = (Inr m, dp') \<Longrightarrow> distinct (map sf_id fs)
   \<Longrightarrow> sf_id ` set fs \<inter> dc_id ` set (docs_of dp) = {} \<Longrightarrow>
   same_tables dp dp' \<and> (\<exists>ds. docs_of dp' = docs_of dp @ ds \<and> list_all2 published_file fs ds)
   \<and> m = map (\<lambda>f. (sf_stem f, uuid_text (sf_id f))) fs"
proof (induction fs arbitrary: dp m)
  case (Cons f fs)
  obtain r dp1 where p: "publish_document_bytes (sf_env f) (sf_id f) (sf_now f) (EVAL_TITLE_PREFIX @ sf_stem f)
      (sf_stem f @ asc ''.md'') (sf_bytes f) (Some EVAL_DOC_SOURCE) [] dp = (r, dp1)" by fastforce
  obtain d where r: "r = Inr d" using Cons.prems(1) p by (cases r) auto
  obtain m2 where m2: "publish_files fs dp1 = (Inr m2, dp')" "m = (sf_stem f, uuid_text (dc_id d)) # m2"
    using Cons.prems(1) p r by (auto split: prod.splits sum.splits)
  have fresh: "sf_id f \<notin> dc_id ` set (docs_of dp)" using Cons.prems(3) by auto
  note d = publish_cases [OF fresh p, unfolded r, simplified]
  have "sf_id ` set fs \<inter> dc_id ` set (docs_of dp1) = {}" using d Cons.prems(2,3) by auto
  from Cons.IH [OF m2(1) _ this] obtain ds where ds: "same_tables dp1 dp'" "docs_of dp' = docs_of dp1 @ ds"
      "list_all2 published_file fs ds" "m2 = map (\<lambda>f. (sf_stem f, uuid_text (sf_id f))) fs"
    using Cons.prems(2) by auto
  have "docs_of dp' = docs_of dp @ d # ds" "published_file f d" using ds(2) d by (simp_all add: published_file_def)
  then show ?case using ds same_tables_trans [of dp dp1 dp'] d m2(2)
    by (auto intro: exI [of _ "d # ds"])
qed (auto simp: same_tables_def docs_of_def)

lemma corpus_ids:
  assumes "distinct (map dc_id docs)"
  shows "filter (\<lambda>d. dc_id d \<notin> dc_id ` set (corpus_docs docs)) docs
    = filter (\<lambda>d. dc_source d \<noteq> Some EVAL_DOC_SOURCE) docs"
proof (rule filter_cong [OF refl])
  fix d
  assume d: "d \<in> set docs"
  have "x = d" if "x \<in> set docs" "dc_id x = dc_id d" for x
    by (rule key_inj [OF assms that(1) d that(2)])
  then show "dc_id d \<notin> dc_id ` set (corpus_docs docs) \<longleftrightarrow> dc_source d \<noteq> Some EVAL_DOC_SOURCE"
    using d by (auto simp: corpus_docs_def)
qed

lemma map_of_stems:
  "distinct (map sf_stem fs) \<Longrightarrow> f \<in> set fs \<Longrightarrow>
   map_of (map (\<lambda>f. (sf_stem f, uuid_text (sf_id f))) fs) (sf_stem f) = Some (uuid_text (sf_id f))"
  by (induction fs) (force simp: image_iff)+

lemma resolve_prefixed: "resolve_ref m (CORPUS_REF_PREFIX @ stem)
    = (case map_of m stem of None \<Rightarrow> Inl (UnknownCorpusDoc stem) | Some d \<Rightarrow> Inr d)"
  by (simp add: resolve_ref_def remove_prefix_def)

lemma list_all2_corpus: "list_all2 published_file fs ds \<Longrightarrow> corpus_docs ds = ds"
  by (induction rule: list_all2_induct) (auto simp: corpus_docs_def published_file_def)

text \<open>
  Seeding replaces one generation of the corpus by another. When it succeeds, the evaluation
  documents of the database are exactly one active document for each corpus file, titled after
  it; every other document and every other table is as before; and a golden case's reference
  \<open>corpus:<stem>\<close> resolves to the identifier of that file's document. When a step fails, the
  database is as before, and without files nothing is done.
\<close>

theorem seeding_replaces_corpus:
  assumes docs: "distinct (map dc_id (docs_of dp))" and ids: "distinct (map sf_id fs)"
    and fresh: "sf_id ` set fs \<inter> dc_id ` set (docs_of dp) = {}" and stems: "distinct (map sf_stem fs)"
    and run: "seed_corpus S fs dp = (res, dp')"
  shows "case res of
      NoCorpus \<Rightarrow> fs = [] \<and> dp' = dp
    | SeedFailed e \<Rightarrow> dp_world dp' = dp_world dp
    | Seeded n m \<Rightarrow> n = length (corpus_docs (docs_of dp))
        \<and> (\<exists>gs. mset gs = mset fs \<and> list_all2 published_file gs (corpus_docs (docs_of dp')))
        \<and> filter (\<lambda>d. dc_source d \<noteq> Some EVAL_DOC_SOURCE) (docs_of dp')
            = filter (\<lambda>d. dc_source d \<noteq> Some EVAL_DOC_SOURCE) (docs_of dp)
        \<and> dp_world dp' = (dp_world dp)\<lparr>w_docs := docs_of dp'\<rparr>
        \<and> (\<forall>f \<in> set fs. resolve_ref m (CORPUS_REF_PREFIX @ sf_stem f) = Inr (uuid_text (sf_id f)))"
proof (cases "fs = []")
  case True
  then show ?thesis using run by (auto simp: seed_corpus_def)
next
  case False
  let ?fs = "sort_key (\<lambda>f. sf_stem f @ asc ''.md'') fs"
  show ?thesis
  proof (cases res)
    case NoCorpus
    then show ?thesis using run False by (auto simp: seed_corpus_def Let_def split: prod.splits sum.splits)
  next
    case (SeedFailed e)
    then show ?thesis using run False by (auto simp: seed_corpus_def Let_def split: prod.splits sum.splits)
  next
    case (Seeded n m)
    then obtain dp1 where del: "delete_previous_corpus S dp = (Inr n, dp1)"
      and pub: "publish_files ?fs dp1 = (Inr m, dp')"
      using run False by (auto simp: seed_corpus_def Let_def split: prod.splits sum.splits)
    have d1: "same_tables dp dp1" "n = length (corpus_docs (docs_of dp))"
        "docs_of dp1 = filter (\<lambda>d. dc_source d \<noteq> Some EVAL_DOC_SOURCE) (docs_of dp)"
      using del delete_docs_docs [of S "corpus_docs (docs_of dp)" dp dp1] corpus_ids [OF docs]
      by (auto simp: delete_previous_corpus_def split: prod.splits option.splits)
    have pre: "distinct (map sf_id ?fs)" "sf_id ` set ?fs \<inter> dc_id ` set (docs_of dp1) = {}"
      "distinct (map sf_stem ?fs)"
      using ids stems fresh d1(3) by (auto simp: distinct_map)
    obtain ds where p: "same_tables dp1 dp'" "docs_of dp' = docs_of dp1 @ ds" "list_all2 published_file ?fs ds"
        "m = map (\<lambda>f. (sf_stem f, uuid_text (sf_id f))) ?fs"
      using publish_files_docs [OF pub pre(1,2)] by auto
    have "corpus_docs (docs_of dp1) = []" by (simp add: d1(3) corpus_docs_def)
    then have corpus: "corpus_docs (docs_of dp') = ds"
      using list_all2_corpus [OF p(3)] by (simp add: p(2) corpus_docs_def)
    have others: "filter (\<lambda>d. dc_source d \<noteq> Some EVAL_DOC_SOURCE) ds = []"
      using p(3) by (induction rule: list_all2_induct) (auto simp: published_file_def)
    have "resolve_ref m (CORPUS_REF_PREFIX @ sf_stem f) = Inr (uuid_text (sf_id f))" if "f \<in> set fs" for f
      using map_of_stems [OF pre(3), of f] that by (simp add: resolve_prefixed p(4))
    moreover have "dp_world dp' = (dp_world dp)\<lparr>w_docs := docs_of dp'\<rparr>"
      using same_tables_trans [OF d1(1) p(1)] by (simp add: same_tables_def)
    moreover have "\<exists>gs. mset gs = mset fs \<and> list_all2 published_file gs ds" using p(3) by (metis mset_sort)
    ultimately show ?thesis using d1(2,3) p(2) corpus others by (simp add: Seeded)
  qed
qed

definition sample_seed :: "row list seed_file" where
  "sample_seed = \<lparr>sf_stem = asc ''faq'', sf_bytes = asc ''hi'', sf_id = 8, sf_now = 0,
     sf_env = \<lparr>pb_index = mem_env, pb_ms = 1, pb_setup = None, pb_put = None, pb_delete = None\<rparr>\<rparr>"

theorem seeding_replaces_corpus_witness:
  "\<exists>m dp'. seed_corpus \<lparr>sc_index = mem_env, sc_delete = None\<rparr> [sample_seed] sample_depot = (Seeded 0 m, dp')
     \<and> resolve_ref m (CORPUS_REF_PREFIX @ asc ''faq'') = Inr (uuid_text 8)"
proof -
  let ?S = "\<lparr>sc_index = mem_env, sc_delete = None\<rparr>"
  have d: "docs_of sample_depot = [sample_doc]" by (simp add: docs_of_def sample_depot_def)
  have c: "corpus_docs [sample_doc] = []" by (simp add: corpus_docs_def sample_doc_def EVAL_DOC_SOURCE_def asc_def)
  have p: "parse_file (xe_parse mem_env) (asc ''faq.md'') (Some (asc ''hi'')) = Inr (asc ''hi'')"
    using parse_md_file [of "asc ''hi''" "asc ''hi''" "asc ''faq''" "xe_parse mem_env"]
    by (simp add: asc_def utf8_encode_def utf8_char_def scalar_def)
  obtain n st where "index_document mem_env 1 (uuid_text 8) (asc ''faq.md'') (Some (asc ''hi''))
      (EVAL_TITLE_PREFIX @ asc ''faq'') (Some EVAL_DOC_SOURCE) CHUNK_SIZE CHUNK_OVERLAP (dp_stores sample_depot)
      = (Inr n, st)" using mem_index_returns [OF p] by blast
  then have "\<exists>x dp1. publish_document_bytes (sf_env sample_seed) 8 0 (EVAL_TITLE_PREFIX @ asc ''faq'')
      (asc ''faq.md'') (asc ''hi'') (Some EVAL_DOC_SOURCE) [] sample_depot = (Inr x, dp1)"
    by (simp add: publish_document_bytes_def Let_def sample_seed_def put_document_bytes_def doc_create_def
        split: prod.split)
  then obtain x dp1 where pub: "publish_document_bytes (sf_env sample_seed) 8 0 (EVAL_TITLE_PREFIX @ asc ''faq'')
      (asc ''faq.md'') (asc ''hi'') (Some EVAL_DOC_SOURCE) [] sample_depot = (Inr x, dp1)" by blast
  have run: "seed_corpus ?S [sample_seed] sample_depot = (Seeded 0 [(asc ''faq'', uuid_text (dc_id x))], dp1)"
    using pub by (simp add: seed_corpus_def delete_previous_corpus_def d c sample_seed_def asc_def)
  have pre: "distinct (map dc_id (docs_of sample_depot))" "distinct (map sf_id [sample_seed])"
    "sf_id ` set [sample_seed] \<inter> dc_id ` set (docs_of sample_depot) = {}" "distinct (map sf_stem [sample_seed])"
    by (simp_all add: d sample_seed_def sample_doc_def)
  show ?thesis using run seeding_replaces_corpus [OF pre run] by (simp add: sample_seed_def)
qed

end
