(* ===== verification/Schema.thy ===== *)
theory Schema
  imports Table
begin

text \<open>
  What the migrations of \<open>alembic/versions\<close> do to the database's schema. A schema is its enum
  types, its tables with their columns and constraints, and its indexes; \<open>ddl\<close> are the operations
  the scripts use, \<open>ddl_op\<close> what PostgreSQL documents of each, \<open>None\<close> for the statement that
  raises. Row data is the subject of \<open>Migrations\<close>.

  The lemmas: an operation keeps a schema well formed; each operation that a script takes back is
  undone by its inverse; and an enum type with left-over values behaves like the one without.
\<close>

subsection \<open>Schemas\<close>

datatype col_type = TUuid | TString nat | TText | TBool | TInt | TSmallInt | TFloat | TJsonb
  | TTime | TEnum string

record column =
  co_name :: string
  co_type :: col_type
  co_null :: bool
  co_default :: "string option"

datatype on_delete = NoAction | Cascade | SetNull

record fkey =
  fk_name :: "string option"
  fk_col :: string
  fk_ref :: string
  fk_delete :: on_delete

record db_table =
  tb_name :: string
  tb_cols :: "column list"
  tb_uniques :: "string list list"
  tb_fkeys :: "fkey list"
  tb_checks :: "string list"

record db_index =
  ix_name :: string
  ix_table :: string
  ix_cols :: "string list"
  ix_unique :: bool
  ix_where :: "string option"

record schema =
  sc_enums :: "(string \<times> string list) list"
  sc_tables :: "db_table list"
  sc_indexes :: "db_index list"

definition empty_schema :: schema where
  "empty_schema = \<lparr>sc_enums = [], sc_tables = [], sc_indexes = []\<rparr>"

text \<open>
  Every primary key is the column \<open>id\<close> and every foreign key one column that refers to it, as in
  all of the scripts.
\<close>

datatype ddl =
    CreateType string "string list"
  | DropType string
  | AddValue string string
  | CreateTable db_table
  | DropTable string
  | AddColumn string column
  | DropColumn string string
  | CreateIndex db_index
  | DropIndex string
  | CreateFk string fkey
  | DropFk string string

subsection \<open>The operations\<close>

definition type_known :: "schema \<Rightarrow> column \<Rightarrow> bool" where
  "type_known s c \<longleftrightarrow> (case co_type c of TEnum n \<Rightarrow> n \<in> fst ` set (sc_enums s) | _ \<Rightarrow> True)"

definition uses_type :: "string \<Rightarrow> db_table \<Rightarrow> bool" where
  "uses_type n t \<longleftrightarrow> list_ex (\<lambda>c. co_type c = TEnum n) (tb_cols t)"

definition col_names :: "db_table \<Rightarrow> string list" where
  "col_names t = map co_name (tb_cols t)"

definition table_names :: "schema \<Rightarrow> string list" where
  "table_names s = map tb_name (sc_tables s)"

definition index_names :: "schema \<Rightarrow> string list" where
  "index_names s = map ix_name (sc_indexes s)"

definition refers_to :: "string \<Rightarrow> db_table \<Rightarrow> bool" where
  "refers_to n t \<longleftrightarrow> list_ex (\<lambda>f. fk_ref f = n) (tb_fkeys t)"

definition table_fits :: "schema \<Rightarrow> db_table \<Rightarrow> bool" where
  "table_fits s t \<longleftrightarrow> list_all (type_known s) (tb_cols t) \<and> distinct (col_names t) \<and> ''id'' \<in> set (col_names t)
     \<and> list_all (\<lambda>u. set u \<subseteq> set (col_names t)) (tb_uniques t)
     \<and> list_all (\<lambda>f. fk_col f \<in> set (col_names t)) (tb_fkeys t)"

definition on_table :: "string \<Rightarrow> (db_table \<Rightarrow> db_table) \<Rightarrow> schema \<Rightarrow> schema" where
  "on_table n f s = s\<lparr>sc_tables := set_row tb_name n f (sc_tables s)\<rparr>"

definition add_value :: "string \<Rightarrow> string \<Rightarrow> (string \<times> string list) list \<Rightarrow> (string \<times> string list) list" where
  "add_value n v es = map (\<lambda>(m, vs). (m, if m = n \<and> v \<notin> set vs then vs @ [v] else vs)) es"

fun ddl_op :: "ddl \<Rightarrow> schema \<Rightarrow> schema option" where
  "ddl_op (CreateType n vs) s =
     (if n \<in> fst ` set (sc_enums s) then Some s else Some (s\<lparr>sc_enums := sc_enums s @ [(n, vs)]\<rparr>))"
| "ddl_op (DropType n) s =
     (if list_ex (uses_type n) (sc_tables s) then None
      else Some (s\<lparr>sc_enums := filter (\<lambda>e. fst e \<noteq> n) (sc_enums s)\<rparr>))"
| "ddl_op (AddValue n v) s =
     (if n \<in> fst ` set (sc_enums s) then Some (s\<lparr>sc_enums := add_value n v (sc_enums s)\<rparr>) else None)"
| "ddl_op (CreateTable t) s =
     (if tb_name t \<in> set (table_names s) \<or> tb_name t \<in> set (index_names s) \<or> \<not> table_fits s t
         \<or> \<not> list_all (\<lambda>f. fk_ref f \<in> set (table_names s)) (tb_fkeys t)
      then None else Some (s\<lparr>sc_tables := sc_tables s @ [t]\<rparr>))"
| "ddl_op (DropTable n) s =
     (if n \<notin> set (table_names s) \<or> list_ex (\<lambda>t. tb_name t \<noteq> n \<and> refers_to n t) (sc_tables s) then None
      else Some (s\<lparr>sc_tables := filter (\<lambda>t. tb_name t \<noteq> n) (sc_tables s),
                   sc_indexes := filter (\<lambda>i. ix_table i \<noteq> n) (sc_indexes s)\<rparr>))"
| "ddl_op (AddColumn n c) s =
     (case row_of tb_name n (sc_tables s) of None \<Rightarrow> None
      | Some t \<Rightarrow> if co_name c \<in> set (col_names t) \<or> \<not> type_known s c then None
          else Some (on_table n (\<lambda>t. t\<lparr>tb_cols := tb_cols t @ [c]\<rparr>) s))"
| "ddl_op (DropColumn n k) s =
     (case row_of tb_name n (sc_tables s) of None \<Rightarrow> None
      | Some t \<Rightarrow> if k \<notin> set (col_names t) \<or> k = ''id'' then None
          else Some ((on_table n (\<lambda>t. t\<lparr>tb_cols := filter (\<lambda>c. co_name c \<noteq> k) (tb_cols t),
                  tb_uniques := filter (\<lambda>u. k \<notin> set u) (tb_uniques t),
                  tb_fkeys := filter (\<lambda>f. fk_col f \<noteq> k) (tb_fkeys t)\<rparr>) s)
               \<lparr>sc_indexes := filter (\<lambda>i. \<not> (ix_table i = n \<and> k \<in> set (ix_cols i))) (sc_indexes s)\<rparr>))"
| "ddl_op (CreateIndex i) s =
     (case row_of tb_name (ix_table i) (sc_tables s) of None \<Rightarrow> None
      | Some t \<Rightarrow> if ix_name i \<in> set (index_names s) \<or> ix_name i \<in> set (table_names s)
             \<or> \<not> set (ix_cols i) \<subseteq> set (col_names t) then None
          else Some (s\<lparr>sc_indexes := sc_indexes s @ [i]\<rparr>))"
| "ddl_op (DropIndex n) s =
     (if n \<notin> set (index_names s) then None
      else Some (s\<lparr>sc_indexes := filter (\<lambda>i. ix_name i \<noteq> n) (sc_indexes s)\<rparr>))"
| "ddl_op (CreateFk n f) s =
     (case row_of tb_name n (sc_tables s) of None \<Rightarrow> None
      | Some t \<Rightarrow> if fk_name f = None \<or> fk_name f \<in> fk_name ` set (tb_fkeys t)
             \<or> fk_col f \<notin> set (col_names t) \<or> fk_ref f \<notin> set (table_names s) then None
          else Some (on_table n (\<lambda>t. t\<lparr>tb_fkeys := tb_fkeys t @ [f]\<rparr>) s))"
| "ddl_op (DropFk n k) s =
     (case row_of tb_name n (sc_tables s) of None \<Rightarrow> None
      | Some t \<Rightarrow> if Some k \<notin> fk_name ` set (tb_fkeys t) then None
          else Some (on_table n (\<lambda>t. t\<lparr>tb_fkeys := filter (\<lambda>f. fk_name f \<noteq> Some k) (tb_fkeys t)\<rparr>) s))"

fun run_ddl :: "ddl list \<Rightarrow> schema \<Rightarrow> schema option" where
  "run_ddl [] s = Some s"
| "run_ddl (x # xs) s = (case ddl_op x s of None \<Rightarrow> None | Some s' \<Rightarrow> run_ddl xs s')"

subsection \<open>Well-formed schemas\<close>

definition schema_ok :: "schema \<Rightarrow> bool" where
  "schema_ok s \<longleftrightarrow> distinct (map fst (sc_enums s)) \<and> distinct (table_names s) \<and> distinct (index_names s)
     \<and> (\<forall>t \<in> set (sc_tables s). table_fits s t \<and> (\<forall>f \<in> set (tb_fkeys t). fk_ref f \<in> set (table_names s)))
     \<and> (\<forall>i \<in> set (sc_indexes s). \<exists>t \<in> set (sc_tables s). tb_name t = ix_table i \<and> set (ix_cols i) \<subseteq> set (col_names t))"

text \<open>What takes an operation back, where a script does.\<close>

fun undo :: "ddl \<Rightarrow> ddl option" where
  "undo (CreateType n vs) = Some (DropType n)"
| "undo (CreateTable t) = Some (DropTable (tb_name t))"
| "undo (AddColumn n c) = Some (DropColumn n (co_name c))"
| "undo (CreateIndex i) = Some (DropIndex (ix_name i))"
| "undo (CreateFk n f) = map_option (DropFk n) (fk_name f)"
| "undo _ = None"

definition undo_all :: "ddl list \<Rightarrow> ddl list" where
  "undo_all xs = rev (List.map_filter undo xs)"

fun forward :: "ddl \<Rightarrow> bool" where
  "forward (CreateType n vs) = True"
| "forward (AddValue n v) = True"
| "forward (CreateTable t) = True"
| "forward (AddColumn n c) = True"
| "forward (CreateIndex i) = True"
| "forward (CreateFk n f) = True"
| "forward _ = False"

lemma table_fits_more: "set (sc_enums s) \<subseteq> set (sc_enums s') \<Longrightarrow> table_fits s t \<Longrightarrow> table_fits s' t"
  by (force simp: table_fits_def type_known_def list_all_iff split: col_type.splits)

lemma table_fits_enums:
  assumes "fst ` set (sc_enums s) = fst ` set (sc_enums s')"
  shows "table_fits s t = table_fits s' t"
proof -
  have "type_known s = type_known s'" using assms by (intro ext) (simp add: type_known_def split: col_type.split)
  then show ?thesis by (simp add: table_fits_def)
qed

lemma table_fits_update [simp]:
  "table_fits (s\<lparr>sc_tables := ts\<rparr>) t = table_fits s t" "table_fits (s\<lparr>sc_indexes := ixs\<rparr>) t = table_fits s t"
  by (rule table_fits_enums, simp)+

lemma add_value_names [simp]: "map fst (add_value n v es) = map fst es"
  by (simp add: add_value_def comp_def split_beta)

lemma add_value_name_set [simp]: "fst ` set (add_value n v es) = fst ` set es"
  by (metis add_value_names list.set_map)

lemma on_table_reads [simp]:
  "sc_enums (on_table n f s) = sc_enums s" "sc_indexes (on_table n f s) = sc_indexes s"
  "sc_tables (on_table n f s) = set_row tb_name n f (sc_tables s)"
  by (simp_all add: on_table_def)

lemma on_table_names: "(\<And>t. tb_name (f t) = tb_name t) \<Longrightarrow> table_names (on_table n f s) = table_names s"
  by (simp add: table_names_def map_set_row)

lemma filter_absent: "k \<notin> f ` set xs \<Longrightarrow> filter (\<lambda>x. f x \<noteq> k) xs = xs"
  by (induction xs) auto

lemma row_in_names: "row_of tb_name n (sc_tables s) = Some t \<Longrightarrow> n \<in> set (table_names s)"
  by (auto simp: table_names_def dest: row_of_Some)

lemma set_row_back:
  assumes "distinct (map key rows)" "row_of key k rows = Some r" "\<And>x. key (f x) = key x" "g (f r) = r"
  shows "set_row key k g (set_row key k f rows) = rows"
proof -
  have "x = r" if "x \<in> set rows" "key x = k" for x
    using key_inj [OF assms(1) that(1)] row_of_Some [OF assms(2)] that(2) by simp
  then show ?thesis using assms(3,4) by (auto simp: set_row_def intro!: map_idI)
qed

text \<open>Operations that add something keep the schema well formed.\<close>

lemma create_table_ok:
  assumes "schema_ok s" "ddl_op (CreateTable t) s = Some s'"
  shows "schema_ok s'"
proof -
  have t: "tb_name t \<notin> set (table_names s)" "table_fits s t"
      "\<forall>f \<in> set (tb_fkeys t). fk_ref f \<in> set (table_names s)" "s' = s\<lparr>sc_tables := sc_tables s @ [t]\<rparr>"
    using assms(2) by (auto simp: list_all_iff split: if_splits)
  have names: "table_names s' = table_names s @ [tb_name t]" "index_names s' = index_names s"
    by (simp_all add: t(4) table_names_def index_names_def)
  show ?thesis using assms(1) t(1-3) unfolding schema_ok_def names by (auto simp: t(4))
qed

lemma on_table_ok:
  assumes ok: "schema_ok s" and t: "row_of tb_name n (sc_tables s) = Some t"
    and f: "\<And>x. tb_name (f x) = tb_name x" "\<And>x. set (col_names x) \<subseteq> set (col_names (f x))"
    and fit: "table_fits s (f t)" "\<forall>k \<in> set (tb_fkeys (f t)). fk_ref k \<in> set (table_names s)"
  shows "schema_ok (on_table n f s)"
proof -
  let ?s = "on_table n f s"
  have names: "table_names ?s = table_names s" by (rule on_table_names) (rule f(1))
  have same: "x = t" if "x \<in> set (sc_tables s)" "tb_name x = n" for x
    using row_of_unique [of tb_name "sc_tables s" x] ok t that by (simp add: schema_ok_def table_names_def)
  have "table_fits ?s x \<and> (\<forall>k \<in> set (tb_fkeys x). fk_ref k \<in> set (table_names ?s))"
    if "x \<in> set (sc_tables ?s)" for x
    using that ok fit same by (auto simp: set_set_row schema_ok_def names table_fits_enums [of ?s s])
  moreover have "\<exists>x \<in> set (sc_tables ?s). tb_name x = ix_table i \<and> set (ix_cols i) \<subseteq> set (col_names x)"
    if i: "i \<in> set (sc_indexes ?s)" for i
  proof -
    obtain x where x: "x \<in> set (sc_tables s)" "tb_name x = ix_table i" "set (ix_cols i) \<subseteq> set (col_names x)"
      using ok i by (auto simp: schema_ok_def)
    then show ?thesis using f [of x]
      by (intro bexI [of _ "if tb_name x = n then f x else x"]) (auto simp: set_set_row)
  qed
  ultimately show ?thesis using ok by (simp add: schema_ok_def names index_names_def)
qed

lemma add_column_ok:
  assumes "schema_ok s" "ddl_op (AddColumn n c) s = Some s'"
  shows "schema_ok s'"
proof -
  obtain t where t: "row_of tb_name n (sc_tables s) = Some t" "co_name c \<notin> set (col_names t)" "type_known s c"
      "s' = on_table n (\<lambda>t. t\<lparr>tb_cols := tb_cols t @ [c]\<rparr>) s"
    using assms(2) by (auto split: option.splits if_splits)
  have "t \<in> set (sc_tables s)" using t(1) by (auto dest: row_of_Some)
  then have "table_fits s t" "\<forall>k \<in> set (tb_fkeys t). fk_ref k \<in> set (table_names s)"
    using assms(1) by (auto simp: schema_ok_def)
  then show ?thesis unfolding t(4) using t(2,3)
    by (intro on_table_ok [OF assms(1) t(1)]) (auto simp: table_fits_def col_names_def list_all_iff)
qed

lemma create_fk_ok:
  assumes "schema_ok s" "ddl_op (CreateFk n f) s = Some s'"
  shows "schema_ok s'"
proof -
  obtain t where t: "row_of tb_name n (sc_tables s) = Some t" "fk_col f \<in> set (col_names t)"
      "fk_ref f \<in> set (table_names s)" "s' = on_table n (\<lambda>t. t\<lparr>tb_fkeys := tb_fkeys t @ [f]\<rparr>) s"
    using assms(2) by (auto split: option.splits if_splits)
  have "t \<in> set (sc_tables s)" using t(1) by (auto dest: row_of_Some)
  then have "table_fits s t" "\<forall>k \<in> set (tb_fkeys t). fk_ref k \<in> set (table_names s)"
    using assms(1) by (auto simp: schema_ok_def)
  then show ?thesis unfolding t(4) using t(2,3)
    by (intro on_table_ok [OF assms(1) t(1)]) (auto simp: table_fits_def col_names_def list_all_iff)
qed

lemma create_index_ok:
  assumes "schema_ok s" "ddl_op (CreateIndex i) s = Some s'"
  shows "schema_ok s'"
proof -
  obtain t where t: "row_of tb_name (ix_table i) (sc_tables s) = Some t" "ix_name i \<notin> set (index_names s)"
      "set (ix_cols i) \<subseteq> set (col_names t)" "s' = s\<lparr>sc_indexes := sc_indexes s @ [i]\<rparr>"
    using assms(2) by (auto split: option.splits if_splits)
  have "t \<in> set (sc_tables s) \<and> tb_name t = ix_table i" using t(1) by (auto dest: row_of_Some)
  then show ?thesis using assms(1) t
    by (auto simp: schema_ok_def index_names_def table_names_def)
qed

lemma enums_ok:
  assumes "schema_ok s" "s' = s\<lparr>sc_enums := es\<rparr>" "fst ` set (sc_enums s) \<subseteq> fst ` set es" "distinct (map fst es)"
  shows "schema_ok s'"
proof -
  have "table_fits s t \<Longrightarrow> table_fits s' t" for t
    using assms(2,3) by (auto simp: table_fits_def type_known_def list_all_iff split: col_type.splits)
  then show ?thesis using assms by (auto simp: schema_ok_def table_names_def index_names_def)
qed

lemma forward_ok:
  assumes "forward x" "schema_ok s" "ddl_op x s = Some s'"
  shows "schema_ok s'"
proof (cases x)
  case (CreateType n vs)
  show ?thesis
  proof (cases "n \<in> fst ` set (sc_enums s)")
    case True
    then show ?thesis using assms CreateType by auto
  next
    case False
    then have "s' = s\<lparr>sc_enums := sc_enums s @ [(n, vs)]\<rparr>" using assms(3) CreateType by simp
    then show ?thesis using assms(2) False 
      by (intro enums_ok [OF assms(2), of s' "sc_enums s @ [(n, vs)]"]) (auto simp: schema_ok_def)
  qed
next
  case (AddValue n v)
  then have "s' = s\<lparr>sc_enums := add_value n v (sc_enums s)\<rparr>" using assms(3) by (simp split: if_splits)
  then show ?thesis using assms(2)
    by (intro enums_ok [OF assms(2), of s' "add_value n v (sc_enums s)"]) (simp_all add: schema_ok_def)
next
  case (CreateTable t)
  with assms(3) show ?thesis by (blast intro: create_table_ok [OF assms(2)])
next
  case (AddColumn n c)
  with assms(3) show ?thesis by (blast intro: add_column_ok [OF assms(2)])
next
  case (CreateIndex i)
  with assms(3) show ?thesis by (blast intro: create_index_ok [OF assms(2)])
next
  case (CreateFk n f)
  with assms(3) show ?thesis by (blast intro: create_fk_ok [OF assms(2)])
qed (use assms(1) in simp_all)

subsection \<open>Taking operations back\<close>

text \<open>\<open>x\<close> is new for the schema: a type that is already there would survive its drop.\<close>

definition fresh_type :: "schema \<Rightarrow> ddl \<Rightarrow> bool" where
  "fresh_type s x \<longleftrightarrow> (case x of CreateType n vs \<Rightarrow> n \<notin> fst ` set (sc_enums s) | _ \<Rightarrow> True)"

lemma type_unused: "schema_ok s \<Longrightarrow> n \<notin> fst ` set (sc_enums s) \<Longrightarrow> \<not> list_ex (uses_type n) (sc_tables s)"
  by (fastforce simp: schema_ok_def list_ex_iff uses_type_def table_fits_def list_all_iff type_known_def)

lemma schema_eqI:
  "sc_enums (s :: schema) = sc_enums s' \<Longrightarrow> sc_tables s = sc_tables s' \<Longrightarrow> sc_indexes s = sc_indexes s' \<Longrightarrow> s = s'"
  by simp

lemma undo_type:
  assumes "schema_ok s" "fresh_type s (CreateType n vs)" "ddl_op (CreateType n vs) s = Some s'"
  shows "ddl_op (DropType n) s' = Some s"
proof -
  have n: "n \<notin> fst ` set (sc_enums s)" using assms(2) by (simp add: fresh_type_def)
  then have s': "s' = s\<lparr>sc_enums := sc_enums s @ [(n, vs)]\<rparr>" using assms(3) by simp
  have "filter (\<lambda>e. fst e \<noteq> n) (sc_enums s) = sc_enums s" using n by (rule filter_absent)
  then show ?thesis using type_unused [OF assms(1) n] by (auto simp: s' intro: schema_eqI)
qed

lemma undo_table:
  assumes "schema_ok s" "ddl_op (CreateTable t) s = Some s'"
  shows "ddl_op (DropTable (tb_name t)) s' = Some s"
proof -
  have t: "tb_name t \<notin> set (table_names s)" "s' = s\<lparr>sc_tables := sc_tables s @ [t]\<rparr>"
    using assms(2) by (auto split: if_splits)
  have new: "tb_name x \<noteq> tb_name t" "\<not> refers_to (tb_name t) x" if "x \<in> set (sc_tables s)" for x
  proof -
    show "tb_name x \<noteq> tb_name t" using t(1) that by (metis imageI list.set_map table_names_def)
    show "\<not> refers_to (tb_name t) x" using assms(1) t(1) that unfolding schema_ok_def refers_to_def list_ex_iff by metis
  qed
  have ixs: "ix_table i \<noteq> tb_name t" if "i \<in> set (sc_indexes s)" for i
    using assms(1) that new(1) by (auto simp: schema_ok_def)
  have "filter (\<lambda>x. tb_name x \<noteq> tb_name t) (sc_tables s) = sc_tables s"
    "filter (\<lambda>i. ix_table i \<noteq> tb_name t) (sc_indexes s) = sc_indexes s"
    using new(1) ixs by (auto intro: filter_True)
  then show ?thesis using new by (auto simp: t(2) table_names_def list_ex_iff intro: schema_eqI)
qed

lemma undo_index:
  assumes "schema_ok s" "ddl_op (CreateIndex i) s = Some s'"
  shows "ddl_op (DropIndex (ix_name i)) s' = Some s"
proof -
  have i: "ix_name i \<notin> set (index_names s)" "s' = s\<lparr>sc_indexes := sc_indexes s @ [i]\<rparr>"
    using assms(2) by (auto split: if_splits option.splits)
  have "filter (\<lambda>j. ix_name j \<noteq> ix_name i) (sc_indexes s) = sc_indexes s"
    by (rule filter_absent) (use i(1) in \<open>simp add: index_names_def\<close>)
  then show ?thesis by (simp add: i(2) index_names_def)
qed

lemma undo_column:
  assumes "schema_ok s" "ddl_op (AddColumn n c) s = Some s'"
  shows "ddl_op (DropColumn n (co_name c)) s' = Some s"
proof -
  let ?f = "\<lambda>t. t\<lparr>tb_cols := tb_cols t @ [c]\<rparr>" and ?k = "co_name c"
  let ?g = "\<lambda>t. t\<lparr>tb_cols := filter (\<lambda>c. co_name c \<noteq> ?k) (tb_cols t), tb_uniques := filter (\<lambda>u. ?k \<notin> set u) (tb_uniques t),
      tb_fkeys := filter (\<lambda>f. fk_col f \<noteq> ?k) (tb_fkeys t)\<rparr>"
  obtain t where t: "row_of tb_name n (sc_tables s) = Some t" "?k \<notin> set (col_names t)" "s' = on_table n ?f s"
    using assms(2) by (auto split: option.splits if_splits)
  have ts: "t \<in> set (sc_tables s)" "tb_name t = n" using t(1) by (auto dest: row_of_Some)
  have fit: "table_fits s t" using assms(1) ts(1) by (auto simp: schema_ok_def)
  have "?g (?f t) = t"
  proof -
    have "filter (\<lambda>x. co_name x \<noteq> ?k) (tb_cols t) = tb_cols t"
      by (rule filter_absent) (use t(2) in \<open>simp add: col_names_def\<close>)
    moreover have "filter (\<lambda>u. ?k \<notin> set u) (tb_uniques t) = tb_uniques t"
      using fit t(2) by (auto simp: table_fits_def list_all_iff intro: filter_True)
    moreover have "filter (\<lambda>f. fk_col f \<noteq> ?k) (tb_fkeys t) = tb_fkeys t"
      by (rule filter_absent) (use fit t(2) in \<open>auto simp: table_fits_def list_all_iff\<close>)
    ultimately show ?thesis by simp
  qed
  then have undone: "set_row tb_name n ?g (set_row tb_name n ?f (sc_tables s)) = sc_tables s"
    using assms(1) by (intro set_row_back [OF _ t(1)]) (simp_all add: schema_ok_def table_names_def)
  have "\<not> (ix_table i = n \<and> ?k \<in> set (ix_cols i))" if "i \<in> set (sc_indexes s)" for i
  proof -
    obtain x where x: "x \<in> set (sc_tables s)" "tb_name x = ix_table i" "set (ix_cols i) \<subseteq> set (col_names x)"
      using assms(1) \<open>i \<in> _\<close> by (auto simp: schema_ok_def)
    have "x = t" if "ix_table i = n"
      using row_of_unique [of tb_name "sc_tables s" x] assms(1) x that t(1) by (simp add: schema_ok_def table_names_def)
    then show ?thesis using x(3) t(2) by blast
  qed
  then have ixs: "filter (\<lambda>i. \<not> (ix_table i = n \<and> ?k \<in> set (ix_cols i))) (sc_indexes s) = sc_indexes s"
    by (auto intro: filter_True)
  have row: "row_of tb_name n (sc_tables s') = Some (?f t)" by (simp add: t(1,3) row_of_set_row)
  have "?k \<noteq> ''id''" using fit t(2) by (auto simp: table_fits_def)
  then have "ddl_op (DropColumn n ?k) s' =
      Some ((on_table n ?g s')\<lparr>sc_indexes := filter (\<lambda>i. \<not> (ix_table i = n \<and> ?k \<in> set (ix_cols i))) (sc_indexes s')\<rparr>)"
    using row by (simp add: col_names_def)
  also have "\<dots> = Some s" using undone ixs by (simp add: t(3) on_table_def)
  finally show ?thesis .
qed

lemma undo_fk:
  assumes "schema_ok s" "ddl_op (CreateFk n f) s = Some s'" "fk_name f = Some k"
  shows "ddl_op (DropFk n k) s' = Some s"
proof -
  let ?f = "\<lambda>t. t\<lparr>tb_fkeys := tb_fkeys t @ [f]\<rparr>"
  let ?g = "\<lambda>t. t\<lparr>tb_fkeys := filter (\<lambda>f. fk_name f \<noteq> Some k) (tb_fkeys t)\<rparr>"
  obtain t where t: "row_of tb_name n (sc_tables s) = Some t" "Some k \<notin> fk_name ` set (tb_fkeys t)" "s' = on_table n ?f s"
    using assms(2,3) by (auto split: option.splits if_splits)
  have "?g (?f t) = t" using filter_absent [OF t(2)] assms(3) by simp
  then have undone: "set_row tb_name n ?g (set_row tb_name n ?f (sc_tables s)) = sc_tables s"
    using assms(1) by (intro set_row_back [OF _ t(1)]) (simp_all add: schema_ok_def table_names_def)
  have row: "row_of tb_name n (sc_tables s') = Some (?f t)" by (simp add: t(1,3) row_of_set_row)
  then have "ddl_op (DropFk n k) s' = Some (on_table n ?g s')" using assms(3) by simp
  also have "\<dots> = Some s" using undone by (simp add: t(3) on_table_def)
  finally show ?thesis .
qed

lemma undo_op:
  assumes "schema_ok s" "ddl_op x s = Some s'" "undo x = Some y" "fresh_type s x"
  shows "ddl_op y s' = Some s"
  using assms undo_type undo_table undo_index undo_column undo_fk
  by (cases x) (auto simp del: ddl_op.simps)

subsection \<open>Left-over enum values\<close>

text \<open>
  PostgreSQL cannot drop a value of an enum type. \<open>residual s t\<close>: \<open>t\<close> is \<open>s\<close> but for values that a
  downgrade left in its types.
\<close>

definition enum_le :: "string \<times> string list \<Rightarrow> string \<times> string list \<Rightarrow> bool" where
  "enum_le a b \<longleftrightarrow> fst a = fst b \<and> set (snd a) \<subseteq> set (snd b)"

definition residual :: "schema \<Rightarrow> schema \<Rightarrow> bool" where
  "residual s t \<longleftrightarrow> sc_tables s = sc_tables t \<and> sc_indexes s = sc_indexes t
     \<and> list_all2 enum_le (sc_enums s) (sc_enums t)"

lemma residual_refl [simp]: "residual s s"
  by (simp add: residual_def list_all2_same enum_le_def)

lemma residual_trans:
  assumes "residual a b" "residual b c"
  shows "residual a c"
proof -
  have "list_all2 enum_le (sc_enums a) (sc_enums b)" "list_all2 enum_le (sc_enums b) (sc_enums c)"
    using assms by (simp_all add: residual_def)
  then have "list_all2 enum_le (sc_enums a) (sc_enums c)"
    by (rule list_all2_trans [rotated]) (auto simp: enum_le_def)
  then show ?thesis using assms by (simp add: residual_def)
qed

lemma residual_names:
  assumes "residual s t"
  shows "fst ` set (sc_enums t) = fst ` set (sc_enums s)"
proof -
  have "map fst (sc_enums s) = map fst (sc_enums t)"
    using assms by (auto simp: residual_def list_all2_conv_all_nth enum_le_def intro: nth_equalityI)
  then show ?thesis by (metis list.set_map)
qed

lemma residual_same:
  assumes "residual s t"
  shows "table_fits t = table_fits s" "type_known t = type_known s" "table_names t = table_names s"
    "index_names t = index_names s" "sc_tables t = sc_tables s" "sc_indexes t = sc_indexes s"
proof -
  note n = residual_names [OF assms]
  show "table_fits t = table_fits s" by (intro ext table_fits_enums) (rule n)
  show "type_known t = type_known s" using n by (intro ext) (simp add: type_known_def split: col_type.split)
qed (use assms in \<open>simp_all add: residual_def table_names_def index_names_def\<close>)

lemma list_all2_filter:
  "list_all2 R xs ys \<Longrightarrow> (\<And>x y. R x y \<Longrightarrow> P x = Q y) \<Longrightarrow> list_all2 R (filter P xs) (filter Q ys)"
  by (induction rule: list_all2_induct) auto

lemma residual_enums:
  "residual s t \<Longrightarrow> list_all2 enum_le es fs \<Longrightarrow> residual (s\<lparr>sc_enums := es\<rparr>) (t\<lparr>sc_enums := fs\<rparr>)"
  by (simp add: residual_def)

lemma residual_rest:
  "residual s t \<Longrightarrow> residual (s\<lparr>sc_tables := ts, sc_indexes := ixs\<rparr>) (t\<lparr>sc_tables := ts, sc_indexes := ixs\<rparr>)"
  "residual s t \<Longrightarrow> residual (s\<lparr>sc_tables := ts\<rparr>) (t\<lparr>sc_tables := ts\<rparr>)"
  "residual s t \<Longrightarrow> residual (s\<lparr>sc_indexes := ixs\<rparr>) (t\<lparr>sc_indexes := ixs\<rparr>)"
  by (simp_all add: residual_def)

text \<open>An operation that works on a schema works on one with left-over values.\<close>

lemma residual_op:
  assumes r: "residual s t" and op: "ddl_op x s = Some s'"
  shows "\<exists>t'. ddl_op x t = Some t' \<and> residual s' t'"
proof -
  note same = residual_same [OF r] residual_names [OF r]
  have enums: "list_all2 enum_le (sc_enums s) (sc_enums t)" using r by (simp add: residual_def)
  show ?thesis
  proof (cases x)
    case (CreateType n vs)
    have "list_all2 enum_le (sc_enums s @ [(n, vs)]) (sc_enums t @ [(n, vs)])"
      using enums by (simp add: list_all2_appendI enum_le_def)
    then show ?thesis using op r CreateType by (auto simp: same intro: residual_enums split: if_splits)
  next
    case (DropType n)
    have "list_all2 enum_le (filter (\<lambda>e. fst e \<noteq> n) (sc_enums s)) (filter (\<lambda>e. fst e \<noteq> n) (sc_enums t))"
      by (rule list_all2_filter [OF enums]) (simp add: enum_le_def)
    then show ?thesis using op r DropType by (auto simp: same intro: residual_enums split: if_splits)
  next
    case (AddValue n v)
    have "list_all2 enum_le (add_value n v (sc_enums s)) (add_value n v (sc_enums t))"
      unfolding add_value_def list.rel_map
      by (rule list.rel_mono_strong [OF enums]) (auto simp: enum_le_def split_beta)
    then show ?thesis using op r AddValue by (auto simp: same intro: residual_enums split: if_splits)
  qed (use op r in \<open>auto simp: same on_table_def intro!: residual_rest split: if_splits option.splits\<close>)
qed

lemma residual_run:
  "residual s t \<Longrightarrow> run_ddl xs s = Some s' \<Longrightarrow> \<exists>t'. run_ddl xs t = Some t' \<and> residual s' t'"
proof (induction xs arbitrary: s t)
  case (Cons x xs)
  obtain s1 where s1: "ddl_op x s = Some s1" "run_ddl xs s1 = Some s'"
    using Cons.prems(2) by (auto split: option.splits)
  from residual_op [OF Cons.prems(1) s1(1)] obtain t1 where t1: "ddl_op x t = Some t1" "residual s1 t1" by blast
  from Cons.IH [OF t1(2) s1(2)] t1(1) show ?case by auto
qed simp

lemma run_append: "run_ddl (xs @ ys) s = (case run_ddl xs s of None \<Rightarrow> None | Some s' \<Rightarrow> run_ddl ys s')"
  by (induction xs arbitrary: s) (auto split: option.split)

lemma residual_add_value:
  assumes "ddl_op (AddValue n v) s = Some s'"
  shows "residual s s'"
proof -
  have "s' = s\<lparr>sc_enums := add_value n v (sc_enums s)\<rparr>" using assms by (simp split: if_splits)
  moreover have "list_all2 enum_le es (add_value n v es)" for es
    by (induction es) (auto simp: add_value_def enum_le_def)
  ultimately show ?thesis by (simp add: residual_def)
qed

subsection \<open>A script and its downgrade\<close>

text \<open>The types of a script are new when it starts.\<close>

fun new_types :: "ddl list \<Rightarrow> string list" where
  "new_types [] = []"
| "new_types (CreateType n vs # xs) = n # new_types xs"
| "new_types (_ # xs) = new_types xs"

definition forward_script :: "ddl list \<Rightarrow> bool" where
  "forward_script xs \<longleftrightarrow> list_all (\<lambda>x. forward x \<and> (case x of CreateFk n f \<Rightarrow> fk_name f \<noteq> None | _ \<Rightarrow> True)) xs
     \<and> distinct (new_types xs)"

lemma forward_names:
  "forward x \<Longrightarrow> ddl_op x s = Some s' \<Longrightarrow>
   fst ` set (sc_enums s') \<subseteq> fst ` set (sc_enums s) \<union> set (new_types [x])"
proof (cases x)
  case (AddValue n v)
  assume "ddl_op x s = Some s'"
  then have "s' = s\<lparr>sc_enums := add_value n v (sc_enums s)\<rparr>" using AddValue by (simp split: if_splits)
  then show ?thesis by simp
qed (auto split: if_splits option.splits)

lemma forward_run_ok:
  "list_all forward xs \<Longrightarrow> schema_ok s \<Longrightarrow> run_ddl xs s = Some s' \<Longrightarrow> schema_ok s'"
  by (induction xs arbitrary: s) (auto split: option.splits dest: forward_ok simp del: ddl_op.simps)

lemma disjoint_extension: "A \<subseteq> B \<union> C \<Longrightarrow> C \<inter> N = {} \<Longrightarrow> N \<inter> B = {} \<Longrightarrow> N \<inter> A = {}"
  by blast

lemma script_undone:
  "forward_script xs \<Longrightarrow> schema_ok s \<Longrightarrow> set (new_types xs) \<inter> fst ` set (sc_enums s) = {} \<Longrightarrow>
   run_ddl xs s = Some s' \<Longrightarrow> \<exists>t. run_ddl (undo_all xs) s' = Some t \<and> residual s t"
proof (induction xs arbitrary: s)
  case (Cons x xs)
  obtain s1 where s1: "ddl_op x s = Some s1" "run_ddl xs s1 = Some s'"
    using Cons.prems(4) by (auto split: option.splits)
  have fw: "forward x" using Cons.prems(1) by (simp add: forward_script_def)
  have fws: "forward_script xs" using Cons.prems(1) by (cases x) (simp_all add: forward_script_def)
  have ok1: "schema_ok s1" by (rule forward_ok [OF fw Cons.prems(2) s1(1)])
  have types: "set (new_types (x # xs)) = set (new_types [x]) \<union> set (new_types xs)" by (cases x) auto
  have "set (new_types [x]) \<inter> set (new_types xs) = {}"
    using Cons.prems(1) by (cases x) (simp_all add: forward_script_def)
  moreover have "set (new_types xs) \<inter> fst ` set (sc_enums s) = {}"
    using Cons.prems(3) unfolding types Int_Un_distrib2 Un_empty by (rule conjunct2)
  ultimately have "set (new_types xs) \<inter> fst ` set (sc_enums s1) = {}"
    using disjoint_extension [OF forward_names [OF fw s1(1)]] by metis
  from Cons.IH [OF fws ok1 this s1(2)] obtain t1 where t1: "run_ddl (undo_all xs) s' = Some t1" "residual s1 t1"
    by blast
  show ?case
  proof (cases "undo x")
    case None
    then have "\<exists>n v. x = AddValue n v" using fw Cons.prems(1) by (cases x) (auto simp: forward_script_def)
    then have "residual s s1" using residual_add_value s1(1) by blast
    then show ?thesis using t1 None residual_trans by (auto simp: undo_all_def map_filter_simps)
  next
    case (Some y)
    have "fresh_type s x" using Cons.prems(3) by (cases x) (auto simp: fresh_type_def)
    from undo_op [OF Cons.prems(2) s1(1) Some this] have "ddl_op y s1 = Some s" .
    from residual_op [OF t1(2) this] obtain t where t: "ddl_op y t1 = Some t" "residual s t" by blast
    have "undo_all (x # xs) = undo_all xs @ [y]" using Some by (simp add: undo_all_def map_filter_simps)
    then show ?thesis using t t1(1) by (simp add: run_append)
  qed
qed (simp add: undo_all_def map_filter_simps)

end
