(* ===== verification/Migrations.thy ===== *)
theory Migrations
  imports Schema Documents Prompts
begin

text \<open>
  The migrations of \<open>alembic/versions\<close>: the operations of each script and of its downgrade, the
  tables that \<open>models\<close> declares, and what three of the scripts do to rows that exist: closing
  duplicate tickets before their unique index, seeding the prompts, and failing the documents
  that the old synchronous indexing left behind.

  Lemmas: every history of upgrades and downgrades works and ends in the schema of its revision,
  the last of which is the schema of the models; and what the row changes establish.
\<close>

subsection \<open>Writing scripts\<close>

definition col :: "string \<Rightarrow> col_type \<Rightarrow> column" where
  "col n t = \<lparr>co_name = n, co_type = t, co_null = False, co_default = None\<rparr>"

definition nul :: "string \<Rightarrow> col_type \<Rightarrow> column" where
  "nul n t = \<lparr>co_name = n, co_type = t, co_null = True, co_default = None\<rparr>"

definition dft :: "string \<Rightarrow> col_type \<Rightarrow> string \<Rightarrow> column" where
  "dft n t d = \<lparr>co_name = n, co_type = t, co_null = False, co_default = Some d\<rparr>"

definition stamps :: "column list" where
  "stamps = [dft ''created_at'' TTime ''now()'', dft ''updated_at'' TTime ''now()'']"

definition ref :: "string \<Rightarrow> string \<Rightarrow> on_delete \<Rightarrow> fkey" where
  "ref c t d = \<lparr>fk_name = None, fk_col = c, fk_ref = t, fk_delete = d\<rparr>"

definition tab :: "string \<Rightarrow> column list \<Rightarrow> string list list \<Rightarrow> fkey list \<Rightarrow> db_table" where
  "tab n cs us fs = \<lparr>tb_name = n, tb_cols = cs, tb_uniques = us, tb_fkeys = fs, tb_checks = []\<rparr>"

definition idx :: "string \<Rightarrow> string \<Rightarrow> string list \<Rightarrow> db_index" where
  "idx n t cs = \<lparr>ix_name = n, ix_table = t, ix_cols = cs, ix_unique = False, ix_where = None\<rparr>"

definition uniq_idx :: "string \<Rightarrow> string \<Rightarrow> string list \<Rightarrow> string \<Rightarrow> db_index" where
  "uniq_idx n t cs w = \<lparr>ix_name = n, ix_table = t, ix_cols = cs, ix_unique = True, ix_where = Some w\<rparr>"

lemmas script_defs = col_def nul_def dft_def stamps_def ref_def tab_def idx_def uniq_idx_def

subsection \<open>20260327: the initial schema\<close>

definition upgrade_initial :: "ddl list" where
  "upgrade_initial =
    [CreateType ''user_role'' [''user'', ''agent'', ''admin''],
     CreateType ''conversation_status'' [''active'', ''closed'', ''transferred''],
     CreateType ''message_role'' [''user'', ''assistant'', ''system''],
     CreateType ''ticket_status'' [''pending'', ''processing'', ''resolved'', ''closed''],
     CreateType ''ticket_priority'' [''low'', ''medium'', ''high'', ''urgent''],
     CreateType ''document_status'' [''indexing'', ''active'', ''archived''],
     CreateTable (tab ''users''
       ([col ''username'' (TString 100), col ''email'' (TString 255), col ''hashed_password'' (TString 255),
         col ''role'' (TEnum ''user_role''), col ''is_active'' TBool, col ''id'' TUuid] @ stamps)
       [[''email''], [''username'']] []),
     CreateTable (tab ''documents''
       ([col ''title'' (TString 255), nul ''source'' (TString 255), nul ''file_path'' (TString 500),
         col ''status'' (TEnum ''document_status''), col ''chunk_count'' TInt, nul ''tags'' TJsonb,
         nul ''indexed_at'' TTime, col ''id'' TUuid] @ stamps) [] []),
     CreateTable (tab ''intent_configs''
       ([col ''name'' (TString 100), col ''display_name'' (TString 200), nul ''description'' TText,
         col ''route_target'' (TString 100), nul ''keywords'' TJsonb, nul ''examples'' TJsonb,
         col ''confidence_threshold'' TFloat, col ''is_active'' TBool, col ''priority'' TInt, col ''id'' TUuid] @ stamps)
       [[''name'']] []),
     CreateTable (tab ''conversations''
       ([col ''user_id'' TUuid, col ''status'' (TEnum ''conversation_status''), nul ''title'' (TString 255),
         nul ''metadata'' TJsonb, col ''id'' TUuid] @ stamps)
       [] [ref ''user_id'' ''users'' NoAction]),
     CreateTable (tab ''messages''
       ([col ''conversation_id'' TUuid, col ''role'' (TEnum ''message_role''), col ''content'' TText,
         nul ''intent'' (TString 100), nul ''confidence'' TFloat, nul ''sources'' TJsonb, col ''id'' TUuid] @ stamps)
       [] [ref ''conversation_id'' ''conversations'' NoAction]),
     CreateTable (tab ''tickets''
       ([nul ''conversation_id'' TUuid, col ''user_id'' TUuid, col ''type'' (TString 100),
         col ''status'' (TEnum ''ticket_status''), col ''priority'' (TEnum ''ticket_priority''),
         col ''title'' (TString 255), nul ''description'' TText, nul ''assignee'' (TString 100),
         nul ''content'' TJsonb, nul ''resolved_at'' TTime, col ''id'' TUuid] @ stamps)
       [] [ref ''conversation_id'' ''conversations'' NoAction, ref ''user_id'' ''users'' NoAction])]"

definition downgrade_initial :: "ddl list" where
  "downgrade_initial =
    [DropTable ''tickets'', DropTable ''messages'', DropTable ''conversations'', DropTable ''intent_configs'',
     DropTable ''documents'', DropTable ''users'',
     DropType ''document_status'', DropType ''ticket_priority'', DropType ''ticket_status'',
     DropType ''message_role'', DropType ''conversation_status'', DropType ''user_role'']"

subsection \<open>20260514: feedback and message metadata\<close>

definition upgrade_feedback :: "ddl list" where
  "upgrade_feedback =
    [AddColumn ''messages'' (nul ''metadata'' TJsonb),
     CreateTable ((tab ''feedback''
       ([col ''id'' TUuid, col ''message_id'' TUuid, col ''user_id'' TUuid, col ''rating'' TSmallInt,
         nul ''comment'' TText] @ stamps)
       [[''message_id'', ''user_id'']] [ref ''message_id'' ''messages'' Cascade, ref ''user_id'' ''users'' Cascade])
       \<lparr>tb_checks := [''rating IN (-1, 1)'']\<rparr>),
     CreateIndex (idx ''ix_feedback_message_id'' ''feedback'' [''message_id'']),
     CreateIndex (idx ''ix_feedback_created_at'' ''feedback'' [''created_at''])]"

definition downgrade_feedback :: "ddl list" where
  "downgrade_feedback = [DropIndex ''ix_feedback_created_at'', DropIndex ''ix_feedback_message_id'',
     DropTable ''feedback'', DropColumn ''messages'' ''metadata'']"

subsection \<open>20260519: one open ticket for a user and title\<close>

definition upgrade_ticket_index :: "ddl list" where
  "upgrade_ticket_index = [CreateIndex (uniq_idx ''uniq_open_user_title'' ''tickets'' [''user_id'', ''title'']
     ''status NOT IN ('closed', 'resolved')'')]"

definition downgrade_ticket_index :: "ddl list" where
  "downgrade_ticket_index = [DropIndex ''uniq_open_user_title'']"

subsection \<open>20260709: gaps and drafts\<close>

definition upgrade_gaps :: "ddl list" where
  "upgrade_gaps =
    [CreateType ''gap_status'' [''open'', ''promoted'', ''dismissed''],
     CreateTable (tab ''knowledge_gaps''
       ([col ''id'' TUuid, col ''question'' TText, col ''question_norm'' TText, col ''question_hash'' (TString 64),
         dft ''status'' (TEnum ''gap_status'') ''open'', dft ''frequency'' TInt ''1'', col ''signals'' TJsonb,
         nul ''last_intent'' (TString 100), nul ''example_conversation_id'' TUuid, nul ''example_message_id'' TUuid,
         nul ''promoted_doc_id'' TUuid] @ stamps)
       [] [ref ''example_conversation_id'' ''conversations'' SetNull, ref ''example_message_id'' ''messages'' SetNull,
           ref ''promoted_doc_id'' ''documents'' SetNull]),
     CreateIndex (uniq_idx ''uniq_open_gap_question_hash'' ''knowledge_gaps'' [''question_hash'']
       (''status = 'open'' @ [CHR 0x27])),
     CreateIndex (idx ''ix_knowledge_gaps_status_frequency'' ''knowledge_gaps'' [''status'', ''frequency''])]"

definition downgrade_gaps :: "ddl list" where
  "downgrade_gaps = [DropIndex ''ix_knowledge_gaps_status_frequency'', DropIndex ''uniq_open_gap_question_hash'',
     DropTable ''knowledge_gaps'', DropType ''gap_status'']"

definition upgrade_drafts :: "ddl list" where
  "upgrade_drafts =
    [CreateType ''draft_status'' [''draft'', ''approved'', ''rejected''],
     CreateTable (tab ''knowledge_drafts''
       ([col ''id'' TUuid, nul ''gap_id'' TUuid, col ''question'' TText, col ''answer'' TText,
         dft ''status'' (TEnum ''draft_status'') ''draft'', nul ''source_ticket_id'' TUuid,
         nul ''source_conversation_id'' TUuid, nul ''synthesis'' TJsonb, nul ''created_by'' TUuid,
         nul ''reviewed_by'' TUuid, nul ''published_doc_id'' TUuid, nul ''review_note'' TText] @ stamps)
       [] [ref ''gap_id'' ''knowledge_gaps'' SetNull, ref ''source_ticket_id'' ''tickets'' SetNull,
           ref ''source_conversation_id'' ''conversations'' SetNull, ref ''created_by'' ''users'' SetNull,
           ref ''reviewed_by'' ''users'' SetNull, ref ''published_doc_id'' ''documents'' SetNull]),
     CreateIndex (uniq_idx ''uniq_pending_draft_per_gap'' ''knowledge_drafts'' [''gap_id'']
       ''status = 'draft' AND gap_id IS NOT NULL''),
     CreateIndex (idx ''ix_knowledge_drafts_status'' ''knowledge_drafts'' [''status''])]"

definition downgrade_drafts :: "ddl list" where
  "downgrade_drafts = [DropIndex ''ix_knowledge_drafts_status'', DropIndex ''uniq_pending_draft_per_gap'',
     DropTable ''knowledge_drafts'', DropType ''draft_status'']"

subsection \<open>20260710: hand-offs, prompts, audit\<close>

definition upgrade_handoffs :: "ddl list" where
  "upgrade_handoffs =
    [CreateType ''handoff_session_status'' [''queued'', ''claimed'', ''resolved'', ''returned'', ''timed_out''],
     CreateTable (tab ''handoff_sessions''
       ([col ''id'' TUuid, col ''conversation_id'' TUuid, dft ''status'' (TEnum ''handoff_session_status'') ''queued'',
         dft ''summary'' TText '''', col ''payload'' TJsonb, nul ''assignee'' (TString 100),
         nul ''claimed_at'' TTime, nul ''closed_at'' TTime] @ stamps)
       [] [ref ''conversation_id'' ''conversations'' Cascade]),
     CreateIndex (uniq_idx ''uniq_open_handoff_per_conversation'' ''handoff_sessions'' [''conversation_id'']
       ''status IN ('queued', 'claimed')''),
     CreateIndex (idx ''ix_handoff_sessions_status_created'' ''handoff_sessions'' [''status'', ''created_at'']),
     AddValue ''message_role'' ''staff'']"

definition downgrade_handoffs :: "ddl list" where
  "downgrade_handoffs = [DropIndex ''ix_handoff_sessions_status_created'',
     DropIndex ''uniq_open_handoff_per_conversation'', DropTable ''handoff_sessions'',
     DropType ''handoff_session_status'']"

definition upgrade_prompts :: "ddl list" where
  "upgrade_prompts =
    [CreateTable (tab ''prompt_templates''
       ([col ''id'' TUuid, col ''key'' (TString 100), nul ''description'' TText, col ''variables'' TJsonb,
         nul ''active_version_id'' TUuid, dft ''is_active'' TBool ''true''] @ stamps) [[''key'']] []),
     CreateIndex (idx ''ix_prompt_templates_key'' ''prompt_templates'' [''key'']),
     CreateTable (tab ''prompt_versions''
       ([col ''id'' TUuid, col ''template_id'' TUuid, col ''version'' TInt, col ''content'' TText,
         nul ''created_by'' TUuid, nul ''comment'' TText] @ stamps)
       [[''template_id'', ''version'']]
       [ref ''template_id'' ''prompt_templates'' Cascade, ref ''created_by'' ''users'' SetNull]),
     CreateIndex (idx ''ix_prompt_versions_template_id'' ''prompt_versions'' [''template_id'']),
     CreateFk ''prompt_templates'' ((ref ''active_version_id'' ''prompt_versions'' SetNull)
       \<lparr>fk_name := Some ''fk_prompt_templates_active_version''\<rparr>)]"

definition downgrade_prompts :: "ddl list" where
  "downgrade_prompts = [DropFk ''prompt_templates'' ''fk_prompt_templates_active_version'',
     DropIndex ''ix_prompt_versions_template_id'', DropTable ''prompt_versions'',
     DropIndex ''ix_prompt_templates_key'', DropTable ''prompt_templates'']"

definition upgrade_audit :: "ddl list" where
  "upgrade_audit =
    [CreateTable (tab ''audit_logs''
       [col ''id'' TUuid, col ''actor_id'' TUuid, col ''actor_role'' (TString 20), col ''action'' (TString 50),
        col ''entity_type'' (TString 50), nul ''entity_id'' TUuid, nul ''detail'' TJsonb,
        nul ''trace_id'' (TString 64), dft ''created_at'' TTime ''now()'']
       [] [ref ''actor_id'' ''users'' Cascade]),
     CreateIndex (idx ''ix_audit_logs_entity'' ''audit_logs'' [''entity_type'', ''entity_id'']),
     CreateIndex (idx ''ix_audit_logs_actor_created'' ''audit_logs'' [''actor_id'', ''created_at'']),
     CreateIndex (idx ''ix_audit_logs_action_created'' ''audit_logs'' [''action'', ''created_at''])]"

definition downgrade_audit :: "ddl list" where
  "downgrade_audit = [DropIndex ''ix_audit_logs_action_created'', DropIndex ''ix_audit_logs_actor_created'',
     DropIndex ''ix_audit_logs_entity'', DropTable ''audit_logs'']"

subsection \<open>20260711: the state of indexing\<close>

definition upgrade_index_status :: "ddl list" where
  "upgrade_index_status =
    [AddValue ''document_status'' ''pending'', AddValue ''document_status'' ''failed'',
     AddColumn ''documents'' (nul ''index_error'' TText), AddColumn ''documents'' (nul ''index_started_at'' TTime)]"

definition downgrade_index_status :: "ddl list" where
  "downgrade_index_status = [DropColumn ''documents'' ''index_started_at'', DropColumn ''documents'' ''index_error'']"

subsection \<open>The chain of revisions\<close>

text \<open>Each revision's upgrade and downgrade, in the order of \<open>down_revision\<close>.\<close>

definition revisions :: "(ddl list \<times> ddl list) list" where
  "revisions = [(upgrade_initial, downgrade_initial), (upgrade_feedback, downgrade_feedback),
     (upgrade_ticket_index, downgrade_ticket_index), (upgrade_gaps, downgrade_gaps),
     (upgrade_drafts, downgrade_drafts), (upgrade_handoffs, downgrade_handoffs),
     (upgrade_prompts, downgrade_prompts), (upgrade_audit, downgrade_audit),
     (upgrade_index_status, downgrade_index_status)]"

text \<open>\<open>alembic upgrade +1\<close> and \<open>downgrade -1\<close>, from the empty database.\<close>

inductive history :: "nat \<Rightarrow> schema \<Rightarrow> bool" where
  base: "history 0 empty_schema"
| up: "history i s \<Longrightarrow> i < length revisions \<Longrightarrow> run_ddl (fst (revisions ! i)) s = Some s' \<Longrightarrow> history (Suc i) s'"
| down: "history (Suc i) s \<Longrightarrow> run_ddl (snd (revisions ! i)) s = Some s' \<Longrightarrow> history i s'"

definition schema_at :: "nat \<Rightarrow> schema option" where
  "schema_at i = run_ddl (concat (map fst (take i revisions))) empty_schema"

lemmas script_texts = upgrade_initial_def downgrade_initial_def upgrade_feedback_def downgrade_feedback_def
  upgrade_ticket_index_def downgrade_ticket_index_def upgrade_gaps_def downgrade_gaps_def
  upgrade_drafts_def downgrade_drafts_def upgrade_handoffs_def downgrade_handoffs_def
  upgrade_prompts_def downgrade_prompts_def upgrade_audit_def downgrade_audit_def
  upgrade_index_status_def downgrade_index_status_def

lemma downgrades_undo: "list_all (\<lambda>(u, d). d = undo_all u \<and> forward_script u) revisions"
  by (simp add: revisions_def script_texts script_defs undo_all_def forward_script_def map_filter_simps)

subsection \<open>The tables of the models\<close>

text \<open>
  \<open>models/*.py\<close> as tables: \<open>UUIDMixin\<close> is the column \<open>id\<close>, \<open>TimestampMixin\<close> the two stamps; a
  column declared \<open>unique\<close> is one of \<open>tb_uniques\<close>.
\<close>

definition uuid_mixin :: "column list" where
  "uuid_mixin = [col ''id'' TUuid]"

definition timestamp_mixin :: "column list" where
  "timestamp_mixin = [dft ''created_at'' TTime ''now()'', dft ''updated_at'' TTime ''now()'']"

definition model :: "string \<Rightarrow> column list \<Rightarrow> string list list \<Rightarrow> fkey list \<Rightarrow> db_table" where
  "model n cs us fs = tab n (uuid_mixin @ timestamp_mixin @ cs) us fs"

definition User_model :: db_table where
  "User_model = model ''users''
     [col ''username'' (TString 100), col ''email'' (TString 255), col ''hashed_password'' (TString 255),
      col ''role'' (TEnum ''user_role''), col ''is_active'' TBool] [[''username''], [''email'']] []"

definition Conversation_model :: db_table where
  "Conversation_model = model ''conversations''
     [col ''user_id'' TUuid, col ''status'' (TEnum ''conversation_status''), nul ''title'' (TString 255),
      nul ''metadata'' TJsonb] [] [ref ''user_id'' ''users'' NoAction]"

definition Message_model :: db_table where
  "Message_model = model ''messages''
     [col ''conversation_id'' TUuid, col ''role'' (TEnum ''message_role''), col ''content'' TText,
      nul ''intent'' (TString 100), nul ''confidence'' TFloat, nul ''sources'' TJsonb, nul ''metadata'' TJsonb]
     [] [ref ''conversation_id'' ''conversations'' NoAction]"

definition Ticket_model :: db_table where
  "Ticket_model = model ''tickets''
     [nul ''conversation_id'' TUuid, col ''user_id'' TUuid, col ''type'' (TString 100),
      col ''status'' (TEnum ''ticket_status''), col ''priority'' (TEnum ''ticket_priority''),
      col ''title'' (TString 255), nul ''description'' TText, nul ''assignee'' (TString 100),
      nul ''content'' TJsonb, nul ''resolved_at'' TTime]
     [] [ref ''conversation_id'' ''conversations'' NoAction, ref ''user_id'' ''users'' NoAction]"

definition Document_model :: db_table where
  "Document_model = model ''documents''
     [col ''title'' (TString 255), nul ''source'' (TString 255), nul ''file_path'' (TString 500),
      col ''status'' (TEnum ''document_status''), col ''chunk_count'' TInt, nul ''tags'' TJsonb,
      nul ''indexed_at'' TTime, nul ''index_error'' TText, nul ''index_started_at'' TTime] [] []"

definition IntentConfig_model :: db_table where
  "IntentConfig_model = model ''intent_configs''
     [col ''name'' (TString 100), col ''display_name'' (TString 200), nul ''description'' TText,
      col ''route_target'' (TString 100), nul ''keywords'' TJsonb, nul ''examples'' TJsonb,
      col ''confidence_threshold'' TFloat, col ''is_active'' TBool, col ''priority'' TInt] [[''name'']] []"

definition MessageFeedback_model :: db_table where
  "MessageFeedback_model = (model ''feedback''
     [col ''message_id'' TUuid, col ''user_id'' TUuid, col ''rating'' TSmallInt, nul ''comment'' TText]
     [[''message_id'', ''user_id'']] [ref ''message_id'' ''messages'' Cascade, ref ''user_id'' ''users'' Cascade])
     \<lparr>tb_checks := [''rating IN (-1, 1)'']\<rparr>"

definition KnowledgeGap_model :: db_table where
  "KnowledgeGap_model = model ''knowledge_gaps''
     [col ''question'' TText, col ''question_norm'' TText, col ''question_hash'' (TString 64),
      col ''status'' (TEnum ''gap_status''), col ''frequency'' TInt, col ''signals'' TJsonb,
      nul ''last_intent'' (TString 100), nul ''example_conversation_id'' TUuid,
      nul ''example_message_id'' TUuid, nul ''promoted_doc_id'' TUuid]
     [] [ref ''example_conversation_id'' ''conversations'' SetNull, ref ''example_message_id'' ''messages'' SetNull,
         ref ''promoted_doc_id'' ''documents'' SetNull]"

definition KnowledgeDraft_model :: db_table where
  "KnowledgeDraft_model = model ''knowledge_drafts''
     [nul ''gap_id'' TUuid, col ''question'' TText, col ''answer'' TText, col ''status'' (TEnum ''draft_status''),
      nul ''source_ticket_id'' TUuid, nul ''source_conversation_id'' TUuid, nul ''synthesis'' TJsonb,
      nul ''created_by'' TUuid, nul ''reviewed_by'' TUuid, nul ''published_doc_id'' TUuid, nul ''review_note'' TText]
     [] [ref ''gap_id'' ''knowledge_gaps'' SetNull, ref ''source_ticket_id'' ''tickets'' SetNull,
         ref ''source_conversation_id'' ''conversations'' SetNull, ref ''created_by'' ''users'' SetNull,
         ref ''reviewed_by'' ''users'' SetNull, ref ''published_doc_id'' ''documents'' SetNull]"

definition HandoffSession_model :: db_table where
  "HandoffSession_model = model ''handoff_sessions''
     [col ''conversation_id'' TUuid, col ''status'' (TEnum ''handoff_session_status''), col ''summary'' TText,
      col ''payload'' TJsonb, nul ''assignee'' (TString 100), nul ''claimed_at'' TTime, nul ''closed_at'' TTime]
     [] [ref ''conversation_id'' ''conversations'' Cascade]"

definition PromptTemplate_model :: db_table where
  "PromptTemplate_model = model ''prompt_templates''
     [col ''key'' (TString 100), nul ''description'' TText, col ''variables'' TJsonb,
      nul ''active_version_id'' TUuid, col ''is_active'' TBool]
     [[''key'']] [ref ''active_version_id'' ''prompt_versions'' SetNull]"

definition PromptVersion_model :: db_table where
  "PromptVersion_model = model ''prompt_versions''
     [col ''template_id'' TUuid, col ''version'' TInt, col ''content'' TText, nul ''created_by'' TUuid,
      nul ''comment'' TText]
     [[''template_id'', ''version'']]
     [ref ''template_id'' ''prompt_templates'' Cascade, ref ''created_by'' ''users'' SetNull]"

definition AuditLog_model :: db_table where
  "AuditLog_model = tab ''audit_logs''
     (uuid_mixin @ [col ''actor_id'' TUuid, col ''actor_role'' (TString 20), col ''action'' (TString 50),
      col ''entity_type'' (TString 50), nul ''entity_id'' TUuid, nul ''detail'' TJsonb,
      nul ''trace_id'' (TString 64), dft ''created_at'' TTime ''now()''])
     [] [ref ''actor_id'' ''users'' Cascade]"

definition model_tables :: "db_table list" where
  "model_tables = [User_model, Conversation_model, Message_model, Ticket_model, Document_model,
     IntentConfig_model, MessageFeedback_model, KnowledgeGap_model, KnowledgeDraft_model,
     HandoffSession_model, PromptTemplate_model, PromptVersion_model, AuditLog_model]"

text \<open>The members of the models' enumerations, by the name of their type.\<close>

definition model_enums :: "(string \<times> string list) list" where
  "model_enums = [(''user_role'', [''user'', ''agent'', ''admin'']),
     (''conversation_status'', [''active'', ''closed'', ''transferred'']),
     (''message_role'', [''user'', ''assistant'', ''system'', ''staff'']),
     (''ticket_status'', [''pending'', ''processing'', ''resolved'', ''closed'']),
     (''ticket_priority'', [''low'', ''medium'', ''high'', ''urgent'']),
     (''document_status'', [''pending'', ''indexing'', ''active'', ''failed'', ''archived'']),
     (''gap_status'', [''open'', ''promoted'', ''dismissed'']),
     (''draft_status'', [''draft'', ''approved'', ''rejected'']),
     (''handoff_session_status'', [''queued'', ''claimed'', ''resolved'', ''returned'', ''timed_out''])]"

text \<open>
  The same table: its columns by name, type and nullability, its unique sets, its foreign keys and
  checks, in whatever order. Defaults of the server and names of constraints are not compared.
\<close>

definition same_table :: "db_table \<Rightarrow> db_table \<Rightarrow> bool" where
  "same_table a b \<longleftrightarrow> tb_name a = tb_name b
     \<and> set (map (\<lambda>c. (co_name c, co_type c, co_null c)) (tb_cols a))
       = set (map (\<lambda>c. (co_name c, co_type c, co_null c)) (tb_cols b))
     \<and> set (map set (tb_uniques a)) = set (map set (tb_uniques b))
     \<and> set (map (\<lambda>f. (fk_col f, fk_ref f, fk_delete f)) (tb_fkeys a))
       = set (map (\<lambda>f. (fk_col f, fk_ref f, fk_delete f)) (tb_fkeys b))
     \<and> tb_checks a = tb_checks b"


definition tables_match :: "db_table list \<Rightarrow> bool" where
  "tables_match ts \<longleftrightarrow> length ts = length model_tables
     \<and> list_all (\<lambda>m. list_ex (same_table m) ts) model_tables"

definition enums_match :: "(string \<times> string list) list \<Rightarrow> bool" where
  "enums_match es \<longleftrightarrow> length es = length model_enums
     \<and> list_all (\<lambda>(n, vs). case map_of es n of None \<Rightarrow> False | Some ws \<Rightarrow> set ws = set vs) model_enums"

text \<open>The partial unique indexes that \<open>INSERT ... ON CONFLICT\<close> of the repositories names.\<close>

definition conflict_targets :: "(string \<times> string list \<times> string) list" where
  "conflict_targets =
    [(''tickets'', [''user_id'', ''title''], ''status NOT IN ('closed', 'resolved')''),
     (''knowledge_gaps'', [''question_hash''], ''status = 'open'' @ [CHR 0x27]),
     (''knowledge_drafts'', [''gap_id''], ''status = 'draft' AND gap_id IS NOT NULL''),
     (''handoff_sessions'', [''conversation_id''], ''status IN ('queued', 'claimed')'')]"

definition guards_conflicts :: "db_index list \<Rightarrow> bool" where
  "guards_conflicts ixs \<longleftrightarrow> list_all (\<lambda>(t, cs, w). list_ex (\<lambda>i. ix_table i = t \<and> ix_cols i = cs
     \<and> ix_unique i \<and> ix_where i = Some w) ixs) conflict_targets"

subsection \<open>Every history ends in the schema of its revision\<close>

fun script_values :: "ddl list \<Rightarrow> (string \<times> string) list" where
  "script_values [] = []"
| "script_values (CreateType n vs # xs) = map (Pair n) vs @ script_values xs"
| "script_values (AddValue n v # xs) = (n, v) # script_values xs"
| "script_values (_ # xs) = script_values xs"

definition enum_values :: "schema \<Rightarrow> (string \<times> string) set" where
  "enum_values s = {(n, v). \<exists>vs. (n, vs) \<in> set (sc_enums s) \<and> v \<in> set vs}"

lemma enum_values_tables [simp]:
  "enum_values (s\<lparr>sc_tables := ts\<rparr>) = enum_values s" "enum_values (s\<lparr>sc_indexes := ixs\<rparr>) = enum_values s"
  "enum_values (on_table n f s) = enum_values s"
  by (simp_all add: enum_values_def)

lemma values_op: "ddl_op x s = Some s' \<Longrightarrow> enum_values s' \<subseteq> enum_values s \<union> set (script_values [x])"
proof (cases x)
  case (AddValue n v)
  assume "ddl_op x s = Some s'"
  then have s': "s' = s\<lparr>sc_enums := add_value n v (sc_enums s)\<rparr>" using AddValue by (simp split: if_splits)
  show ?thesis unfolding s' AddValue by (auto simp: enum_values_def add_value_def split: if_splits)
qed (auto simp: enum_values_def split: if_splits option.splits)

lemma values_run: "run_ddl xs s = Some s' \<Longrightarrow> enum_values s' \<subseteq> enum_values s \<union> set (script_values xs)"
proof (induction xs arbitrary: s)
  case (Cons x xs)
  obtain s1 where s1: "ddl_op x s = Some s1" "run_ddl xs s1 = Some s'"
    using Cons.prems by (auto split: option.splits)
  have "set (script_values (x # xs)) = set (script_values [x]) \<union> set (script_values xs)" by (cases x) auto
  then show ?case using Cons.IH [OF s1(2)] values_op [OF s1(1)] by blast
qed simp

lemma subset_through: "A \<subseteq> B \<union> C \<Longrightarrow> B \<subseteq> D \<union> E \<Longrightarrow> A \<subseteq> D \<union> (E \<union> C)"
  by blast

lemma names_run:
  "list_all forward xs \<Longrightarrow> run_ddl xs s = Some s' \<Longrightarrow>
   fst ` set (sc_enums s') \<subseteq> fst ` set (sc_enums s) \<union> set (new_types xs)"
proof (induction xs arbitrary: s)
  case (Cons x xs)
  obtain s1 where s1: "ddl_op x s = Some s1" "run_ddl xs s1 = Some s'"
    using Cons.prems by (auto split: option.splits)
  have "set (new_types (x # xs)) = set (new_types [x]) \<union> set (new_types xs)" by (cases x) auto
  moreover have "forward x" "list_all forward xs" using Cons.prems(1) by simp_all
  ultimately show ?case
    using subset_through [OF Cons.IH [OF _ s1(2)] forward_names [OF _ s1(1)]] by metis
qed simp

lemma new_types_append: "new_types (xs @ ys) = new_types xs @ new_types ys"
  by (induction xs rule: new_types.induct) simp_all

lemma script_values_append: "script_values (xs @ ys) = script_values xs @ script_values ys"
  by (induction xs rule: script_values.induct) simp_all

lemma script_values_part: "xs \<in> set xss \<Longrightarrow> set (script_values xs) \<subseteq> set (script_values (concat xss))"
  by (induction xss) (auto simp: script_values_append)

lemma undo_values: "script_values (undo_all xs) = []"
proof -
  have "script_values (undo_all (x # xs)) = script_values (undo_all xs)" for x xs
    by (cases x) (auto simp: undo_all_def map_filter_simps script_values_append split: option.split)
  then show ?thesis by (induction xs) (simp_all add: undo_all_def map_filter_simps)
qed

lemma chain_types: "distinct (new_types (concat (map fst revisions)))"
  by (simp add: revisions_def script_texts new_types_append)

text \<open>The schema of the newest revision, computed once.\<close>

lemma head_computed: "case schema_at 9 of None \<Rightarrow> False
  | Some s \<Rightarrow> tables_match (sc_tables s) \<and> enums_match (sc_enums s) \<and> guards_conflicts (sc_indexes s)
      \<and> list_all (\<lambda>p. list_ex (\<lambda>(n, vs). n = fst p \<and> snd p \<in> set vs) (sc_enums s))
           (script_values (concat (map fst revisions)))"
  by code_simp

lemma head_facts:
  "schema_at 9 \<noteq> None"
  "schema_at 9 = Some s \<Longrightarrow> tables_match (sc_tables s)" "schema_at 9 = Some s \<Longrightarrow> enums_match (sc_enums s)"
  "schema_at 9 = Some s \<Longrightarrow> guards_conflicts (sc_indexes s)"
  "schema_at 9 = Some s \<Longrightarrow> (n, v) \<in> set (script_values (concat (map fst revisions))) \<Longrightarrow>
     \<exists>vs. (n, vs) \<in> set (sc_enums s) \<and> v \<in> set vs"
  using head_computed by (auto simp: list_all_iff list_ex_iff split: option.splits) fastforce

lemma length_revisions: "length revisions = 9"
  by (simp add: revisions_def)

lemma forward_all: "list_all forward (concat (map fst (take i revisions)))"
proof -
  have "list_all (\<lambda>(u, d). list_all forward u) revisions"
    using downgrades_undo by (fastforce simp: list_all_iff forward_script_def)
  then show ?thesis by (fastforce simp: list_all_iff dest: in_set_takeD)
qed

lemma schema_at_Suc:
  "i < 9 \<Longrightarrow> schema_at (Suc i) = (case schema_at i of None \<Rightarrow> None | Some c \<Rightarrow> run_ddl (fst (revisions ! i)) c)"
  by (simp add: schema_at_def take_Suc_conv_app_nth length_revisions run_append)

lemma schema_at_ok:
  assumes "i \<le> 9"
  shows "\<exists>c. schema_at i = Some c \<and> schema_ok c"
proof -
  have "revisions = take i revisions @ drop i revisions" by simp
  then have "schema_at 9 = run_ddl (concat (map fst (take i revisions)) @ concat (map fst (drop i revisions))) empty_schema"
    unfolding schema_at_def by (metis length_revisions concat_append map_append order_refl take_all)
  then obtain c where c: "schema_at i = Some c" using head_facts(1)
    by (cases "schema_at i") (auto simp: run_append schema_at_def)
  have "schema_ok empty_schema" by (simp add: schema_ok_def empty_schema_def table_names_def index_names_def)
  then show ?thesis using c forward_run_ok [OF forward_all] by (auto simp: schema_at_def)
qed

lemma types_new_at:
  assumes "i < 9" "schema_at i = Some c"
  shows "set (new_types (fst (revisions ! i))) \<inter> fst ` set (sc_enums c) = {}"
proof -
  have "fst ` set (sc_enums c) \<subseteq> set (new_types (concat (map fst (take i revisions))))"
    using names_run [OF forward_all] assms(2) by (force simp: schema_at_def empty_schema_def)
  moreover have "distinct (new_types (concat (map fst (take (Suc i) revisions))))"
  proof -
    have "revisions = take (Suc i) revisions @ drop (Suc i) revisions" by simp
    then show ?thesis using chain_types
      by (metis concat_append distinct_append map_append new_types_append)
  qed
  then have "set (new_types (concat (map fst (take i revisions)))) \<inter> set (new_types (fst (revisions ! i))) = {}"
    using assms(1) by (simp add: take_Suc_conv_app_nth length_revisions new_types_append)
  ultimately show ?thesis by blast
qed

lemma history_schema: "history i s \<Longrightarrow> i \<le> 9 \<and> (\<exists>c. schema_at i = Some c \<and> residual c s)
    \<and> enum_values s \<subseteq> set (script_values (concat (map fst revisions)))"
proof (induction rule: history.induct)
  case base
  show ?case by (simp add: schema_at_def empty_schema_def enum_values_def)
next
  case (up i s s')
  have i: "i < 9" using up.hyps by (simp add: length_revisions)
  obtain c where c: "schema_at i = Some c" "residual c s" using up.IH by blast
  obtain c' where c': "schema_at (Suc i) = Some c'" using schema_at_ok [of "Suc i"] i by auto
  then have "run_ddl (fst (revisions ! i)) c = Some c'" using schema_at_Suc [OF i] c(1) by simp
  from residual_run [OF c(2) this] have "residual c' s'" using up.hyps(3) by auto
  moreover have "enum_values s' \<subseteq> enum_values s \<union> set (script_values (fst (revisions ! i)))"
    by (rule values_run [OF up.hyps(3)])
  moreover have "set (script_values (fst (revisions ! i))) \<subseteq> set (script_values (concat (map fst revisions)))"
    by (rule script_values_part) (use i in \<open>auto simp: length_revisions intro!: nth_mem\<close>)
  ultimately have "enum_values s' \<subseteq> set (script_values (concat (map fst revisions)))" "residual c' s'"
    using up.IH by (simp_all, meson Un_least order_trans)
  with i c' show ?case by simp
next
  case (down i s s')
  have i: "i < 9" using down.IH by simp
  obtain c' where c': "schema_at (Suc i) = Some c'" "residual c' s" using down.IH by blast
  obtain c where c: "schema_at i = Some c" "schema_ok c" using schema_at_ok [of i] i by auto
  have run: "run_ddl (fst (revisions ! i)) c = Some c'" using schema_at_Suc [OF i] c(1) c'(1) by simp
  have u: "snd (revisions ! i) = undo_all (fst (revisions ! i))" "forward_script (fst (revisions ! i))"
    using downgrades_undo i by (auto simp: list_all_length length_revisions split_beta)
  obtain t where t: "run_ddl (snd (revisions ! i)) c' = Some t" "residual c t"
    using script_undone [OF u(2) c(2) types_new_at [OF i c(1)] run] u(1) by auto
  from residual_run [OF c'(2) t(1)] have "residual t s'" using down.hyps(2) by auto
  then have r: "residual c s'" using t(2) residual_trans by blast
  have "script_values (snd (revisions ! i)) = []" unfolding u(1) by (rule undo_values)
  then have "enum_values s' \<subseteq> enum_values s" using values_run [OF down.hyps(2)] by simp
  then show ?case using i c(1) r down.IH by (meson le_less order_trans)
qed

lemma history_steps:
  assumes "history i s"
  shows "i < 9 \<longrightarrow> (\<exists>s'. run_ddl (fst (revisions ! i)) s = Some s')"
    and "i = Suc j \<longrightarrow> (\<exists>s'. run_ddl (snd (revisions ! j)) s = Some s')"
proof -
  obtain c where c: "i \<le> 9" "schema_at i = Some c" "residual c s" using history_schema [OF assms] by blast
  show "i < 9 \<longrightarrow> (\<exists>s'. run_ddl (fst (revisions ! i)) s = Some s')"
  proof
    assume i: "i < 9"
    then obtain c' where "schema_at (Suc i) = Some c'" using schema_at_ok [of "Suc i"] by auto
    then have "run_ddl (fst (revisions ! i)) c = Some c'" using schema_at_Suc [OF i] c(2) by simp
    from residual_run [OF c(3) this] show "\<exists>s'. run_ddl (fst (revisions ! i)) s = Some s'" by blast
  qed
  show "i = Suc j \<longrightarrow> (\<exists>s'. run_ddl (snd (revisions ! j)) s = Some s')"
  proof
    assume i: "i = Suc j"
    have j: "j < 9" using c(1) i by simp
    obtain b where b: "schema_at j = Some b" "schema_ok b" using schema_at_ok [of j] j by auto
    have run: "run_ddl (fst (revisions ! j)) b = Some c" using schema_at_Suc [OF j] b(1) c(2) i by simp
    have u: "snd (revisions ! j) = undo_all (fst (revisions ! j))" "forward_script (fst (revisions ! j))"
      using downgrades_undo j by (auto simp: list_all_length length_revisions split_beta)
    show "\<exists>s'. run_ddl (snd (revisions ! j)) s = Some s'"
      using script_undone [OF u(2) b(2) types_new_at [OF j b(1)] run] u(1) residual_run [OF c(3)] by fastforce
  qed
qed

lemma residual_map_of:
  "list_all2 enum_le es fs \<Longrightarrow> map_of es n = Some vs \<Longrightarrow> \<exists>ws. map_of fs n = Some ws \<and> set vs \<subseteq> set ws"
  by (induction rule: list_all2_induct) (auto simp: enum_le_def split: if_splits)

lemma head_enums:
  assumes h: "schema_at 9 = Some h" and r: "residual h s"
    and v: "enum_values s \<subseteq> set (script_values (concat (map fst revisions)))"
  shows "enums_match (sc_enums s)"
proof -
  have em: "enums_match (sc_enums h)" by (rule head_facts(3) [OF h])
  have r2: "list_all2 enum_le (sc_enums h) (sc_enums s)" using r by (simp add: residual_def)
  have ok: "distinct (map fst (sc_enums h))" using schema_at_ok [of 9] h by (simp add: schema_ok_def)
  have "case map_of (sc_enums s) n of None \<Rightarrow> False | Some ws \<Rightarrow> set ws = set vs"
    if m: "(n, vs) \<in> set model_enums" for n vs
  proof -
    obtain us where us: "map_of (sc_enums h) n = Some us" "set us = set vs"
      using em m by (auto simp: enums_match_def list_all_iff split: option.splits)
    obtain ws where ws: "map_of (sc_enums s) n = Some ws" "set us \<subseteq> set ws" using residual_map_of [OF r2 us(1)] by blast
    have "x \<in> set us" if x: "x \<in> set ws" for x
    proof -
      have "(n, x) \<in> enum_values s" using map_of_SomeD [OF ws(1)] x by (auto simp: enum_values_def)
      then have "(n, x) \<in> set (script_values (concat (map fst revisions)))" using v by blast
      then obtain ys where ys: "(n, ys) \<in> set (sc_enums h)" "x \<in> set ys"
        using head_facts(5) [OF h] by blast
      then show ?thesis using map_of_is_SomeI [OF ok ys(1)] us(1) by simp
    qed
    then show ?thesis using us(2) ws by auto
  qed
  then show ?thesis using em list_all2_lengthD [OF r2] by (auto simp: enums_match_def list_all_iff)
qed

text \<open>
  C38: the migrations. Whatever sequence of upgrades and downgrades by one revision a database went
  through, the next upgrade and the next downgrade work; its schema is that of its revision, but
  for enum values that a downgrade cannot drop; back at the base it is empty; and at the newest
  revision the tables, their columns, keys and checks and the members of the enum types are
  exactly those of the models, and the partial unique indexes exist that the repositories'
  conflict clauses name.
\<close>

theorem migrations_reversible:
  assumes "history i s"
  shows "i \<le> 9 \<and> (\<exists>c. schema_at i = Some c \<and> schema_ok c \<and> residual c s)
   \<and> (i < 9 \<longrightarrow> (\<exists>s'. run_ddl (fst (revisions ! i)) s = Some s'))
   \<and> (\<forall>j. i = Suc j \<longrightarrow> (\<exists>s'. run_ddl (snd (revisions ! j)) s = Some s'))
   \<and> (i = 0 \<longrightarrow> s = empty_schema)
   \<and> (i = 9 \<longrightarrow> tables_match (sc_tables s) \<and> enums_match (sc_enums s) \<and> guards_conflicts (sc_indexes s))"
proof -
  obtain c where c: "i \<le> 9" "schema_at i = Some c" "residual c s" using history_schema [OF assms] by blast
  have ok: "schema_ok c" using schema_at_ok [of i] c(1,2) by simp
  have zero: "s = empty_schema" if "i = 0"
  proof -
    have "c = empty_schema" using c(2) that by (simp add: schema_at_def)
    then have "residual empty_schema s" using c(3) by simp
    then show ?thesis by (intro schema_eqI) (simp_all add: residual_def empty_schema_def)
  qed
  have head: "tables_match (sc_tables s) \<and> enums_match (sc_enums s) \<and> guards_conflicts (sc_indexes s)" if "i = 9"
  proof -
    have h: "schema_at 9 = Some c" using c(2) that by simp
    have "enums_match (sc_enums s)" using head_enums [OF h c(3)] history_schema [OF assms] by blast
    moreover have "sc_tables s = sc_tables c" "sc_indexes s = sc_indexes c" using c(3) by (simp_all add: residual_def)
    ultimately show ?thesis using head_facts(2,4) [OF h] by simp
  qed
  show ?thesis using c ok zero head history_steps [OF assms] by blast
qed

theorem migrations_reversible_witness:
  "\<exists>s. history 1 s \<and> (\<exists>s'. run_ddl downgrade_initial s = Some s')"
proof -
  obtain s where s: "run_ddl upgrade_initial empty_schema = Some s"
    using schema_at_ok [of 1] by (auto simp: schema_at_def revisions_def)
  have "history (Suc 0) s"
    by (rule history.up [OF history.base]) (simp_all add: length_revisions s revisions_def)
  with migrations_reversible [of 1 s] show ?thesis by (auto simp: revisions_def)
qed

subsection \<open>20260519: closing duplicate tickets\<close>

text \<open>
  \<open>row_number() OVER (PARTITION BY user_id, title ORDER BY created_at, id) > 1\<close> among the open
  tickets: an open ticket of the same user and title comes before.
\<close>

definition before_ticket :: "ticket \<Rightarrow> ticket \<Rightarrow> bool" where
  "before_ticket u t \<longleftrightarrow> tk_created u < tk_created t \<or> tk_created u = tk_created t \<and> tk_id u < tk_id t"

definition backfill_close_duplicates :: "ticket list \<Rightarrow> ticket list" where
  "backfill_close_duplicates rows = map (\<lambda>t.
     if is_open (tk_status t) \<and> list_ex (\<lambda>u. is_open (tk_status u) \<and> tk_user u = tk_user t
          \<and> tk_title u = tk_title t \<and> before_ticket u t) rows
     then t\<lparr>tk_status := TClosed\<rparr> else t) rows"

definition duplicate :: "ticket list \<Rightarrow> ticket \<Rightarrow> bool" where
  "duplicate rows t \<longleftrightarrow> is_open (tk_status t) \<and> (\<exists>u \<in> set rows. open_slot u = open_slot t \<and> before_ticket u t)"

lemma backfill_eq: "backfill_close_duplicates rows =
    map (\<lambda>t. if duplicate rows t then t\<lparr>tk_status := TClosed\<rparr> else t) rows"
  by (auto simp: backfill_close_duplicates_def duplicate_def open_slot_def list_ex_iff)

lemma before_linear:
  "tk_id u \<noteq> tk_id t \<Longrightarrow> before_ticket u t \<or> before_ticket t u"
  "before_ticket a b \<Longrightarrow> before_ticket b c \<Longrightarrow> before_ticket a c" "\<not> before_ticket t t"
  by (auto simp: before_ticket_def)

text \<open>Among finitely many rows there is a first.\<close>

lemma first_ticket:
  "xs \<noteq> [] \<Longrightarrow> distinct (map tk_id xs) \<Longrightarrow> \<exists>t \<in> set xs. \<forall>u \<in> set xs. u = t \<or> before_ticket t u"
proof (induction xs)
  case (Cons x xs)
  show ?case
  proof (cases "xs = []")
    case False
    then obtain t where t: "t \<in> set xs" "\<And>u. u \<in> set xs \<Longrightarrow> u = t \<or> before_ticket t u" using Cons by auto
    have "tk_id x \<noteq> tk_id t" using Cons.prems(2) t(1) by auto
    then show ?thesis
    proof (cases "before_ticket x t")
      case True
      then have "\<forall>u \<in> set (x # xs). u = x \<or> before_ticket x u" using t(2) before_linear(2) by fastforce
      then show ?thesis by (meson list.set_intros(1))
    next
      case False
      then have "before_ticket t x" using before_linear(1) \<open>tk_id x \<noteq> tk_id t\<close> by blast
      then show ?thesis using t by (intro bexI [of _ t]) auto
    qed
  qed simp
qed simp

lemma backfill_survivor:
  assumes d: "distinct (map tk_id rows)" and t: "t \<in> set rows" "open_slot t = Some k"
  shows "\<exists>!s. s \<in> set rows \<and> open_slot s = Some k \<and> \<not> duplicate rows s"
proof -
  let ?xs = "filter (\<lambda>s. open_slot s = Some k) rows"
  have "?xs \<noteq> []" "distinct (map tk_id ?xs)" using t d by (auto simp: filter_empty_conv distinct_map_filter)
  from first_ticket [OF this] obtain s where s: "s \<in> set rows" "open_slot s = Some k"
      "\<And>u. u \<in> set rows \<Longrightarrow> open_slot u = Some k \<Longrightarrow> u = s \<or> before_ticket s u" by auto
  have ids: "u = v" if "u \<in> set rows" "v \<in> set rows" "tk_id u = tk_id v" for u v
    by (rule key_inj [OF d that])
  have "\<not> duplicate rows s" using s(2,3) before_linear(2,3) by (fastforce simp: duplicate_def)
  moreover have "x = s" if x: "x \<in> set rows" "open_slot x = Some k" "\<not> duplicate rows x" for x
  proof -
    have "is_open (tk_status x)" using x(2) by (simp add: open_slot_def split: if_splits)
    then have "\<not> before_ticket s x" using x(2,3) s(1,2) by (auto simp: duplicate_def)
    then show ?thesis using s(3) [OF x(1,2)] by blast
  qed
  ultimately show ?thesis using s by blast
qed

text \<open>
  C39: the rows before the unique index. After closing the duplicates the index on open tickets can
  be built, and with it the table satisfies the invariant of the ticket service; every user and
  title that had an open ticket still has exactly one, the earliest; nothing but the state of
  duplicates changes.
\<close>

theorem backfill_makes_unique:
  assumes "distinct (map tk_id rows)"
    and "list_all (\<lambda>t. (tk_resolved t \<noteq> None) = (tk_status t = TResolved)) rows"
  shows "tickets_ok (backfill_close_duplicates rows)
   \<and> (\<forall>k. (\<exists>t \<in> set rows. open_slot t = Some k) \<longleftrightarrow>
          (\<exists>!s. s \<in> set (backfill_close_duplicates rows) \<and> open_slot s = Some k))
   \<and> (\<forall>s \<in> set (backfill_close_duplicates rows). is_open (tk_status s) \<longrightarrow> s \<in> set rows
        \<and> (\<forall>u \<in> set rows. open_slot u = open_slot s \<longrightarrow> u = s \<or> before_ticket s u))
   \<and> map (tk_status_update (\<lambda>_. TClosed)) (backfill_close_duplicates rows) = map (tk_status_update (\<lambda>_. TClosed)) rows
   \<and> list_all2 (\<lambda>t s. s = t \<or> is_open (tk_status t) \<and> tk_status s = TClosed) rows (backfill_close_duplicates rows)"
proof -
  let ?new = "\<lambda>t. if duplicate rows t then t\<lparr>tk_status := TClosed\<rparr> else t"
  let ?rows = "backfill_close_duplicates rows"
  have closed: "open_slot (t\<lparr>tk_status := TClosed\<rparr>) = None" for t by (simp add: open_slot_def is_open_def)
  have mem: "s \<in> set ?rows \<and> open_slot s = Some k \<longleftrightarrow> s \<in> set rows \<and> open_slot s = Some k \<and> \<not> duplicate rows s" for s k
    by (auto simp: backfill_eq closed split: if_splits)
  have one: "(\<exists>t \<in> set rows. open_slot t = Some k) \<longleftrightarrow> (\<exists>!s. s \<in> set ?rows \<and> open_slot s = Some k)" for k
    unfolding mem using backfill_survivor [OF assms(1)] by blast
  have ids: "map tk_id ?rows = map tk_id rows" by (simp add: backfill_eq)
  have "uniq_on open_slot ?rows"
  proof (rule uniq_onI)
    show "distinct ?rows" using ids assms(1) by (metis distinct_map)
    fix x y k
    assume "x \<in> set ?rows" "y \<in> set ?rows" "open_slot x = Some k" "open_slot y = Some k"
    then show "x = y" using one [of k] mem by blast
  qed
  moreover have "(tk_resolved s \<noteq> None) = (tk_status s = TResolved)" if m: "s \<in> set ?rows" for s
  proof -
    obtain t where t: "t \<in> set rows" "s = ?new t" using m unfolding backfill_eq set_map by blast
    have "(tk_resolved t \<noteq> None) = (tk_status t = TResolved)" using assms(2) t(1) by (simp add: list_all_iff)
    then show ?thesis using t(2) by (auto simp: duplicate_def is_open_def)
  qed
  ultimately have ok: "tickets_ok ?rows" using ids assms(1) by (simp add: tickets_ok_def list_all_iff)
  have first: "s \<in> set rows \<and> (\<forall>u \<in> set rows. open_slot u = open_slot s \<longrightarrow> u = s \<or> before_ticket s u)"
    if s: "s \<in> set ?rows" "is_open (tk_status s)" for s
  proof -
    have o: "open_slot s = Some (tk_user s, tk_title s)" using s(2) by (simp add: open_slot_def)
    then have m: "s \<in> set rows" "\<not> duplicate rows s" using s(1) mem by blast+
    have "u = s \<or> before_ticket s u" if "u \<in> set rows" "open_slot u = open_slot s" for u
    proof (cases "tk_id u = tk_id s")
      case True
      then show ?thesis using key_inj [OF assms(1) that(1) m(1)] by simp
    next
      case False
      then show ?thesis using before_linear(1) m(2) s(2) that by (auto simp: duplicate_def)
    qed
    then show ?thesis using m(1) by blast
  qed
  have rest: "map (tk_status_update (\<lambda>_. TClosed)) ?rows = map (tk_status_update (\<lambda>_. TClosed)) rows"
    "list_all2 (\<lambda>t s. s = t \<or> is_open (tk_status t) \<and> tk_status s = TClosed) rows ?rows"
    by (auto simp: backfill_eq list_all2_conv_all_nth duplicate_def)
  show ?thesis using ok one first rest by blast
qed

definition two_open_tickets :: "ticket list" where
  "two_open_tickets = map (\<lambda>(i, c). \<lparr>tk_id = i, tk_conv = None, tk_user = 1, tk_type = ''fault_report'',
     tk_status = TPending, tk_priority = PMedium, tk_title = asc ''T'', tk_desc = None, tk_assignee = None,
     tk_content = None, tk_created = c, tk_resolved = None\<rparr>) [(7, 20), (8, 10)]"

theorem backfill_makes_unique_witness:
  "tickets_ok (backfill_close_duplicates two_open_tickets)
   \<and> map tk_status (backfill_close_duplicates two_open_tickets) = [TClosed, TPending]"
proof -
  have a: "distinct (map tk_id two_open_tickets)"
    "list_all (\<lambda>t. (tk_resolved t \<noteq> None) = (tk_status t = TResolved)) two_open_tickets"
    by (simp_all add: two_open_tickets_def)
  have "map tk_status (backfill_close_duplicates two_open_tickets) = [TClosed, TPending]"
    by (simp add: backfill_close_duplicates_def two_open_tickets_def is_open_def before_ticket_def)
  then show ?thesis using backfill_makes_unique [OF a] by blast
qed

subsection \<open>20260711: documents the old indexing left behind\<close>

definition ORPHAN_MESSAGE :: ustr where
  "ORPHAN_MESSAGE = asc ''orphaned by pre-async migration''"

text \<open>The two new columns are empty in every row; then the orphans are failed.\<close>

definition fail_orphans :: "document list \<Rightarrow> document list" where
  "fail_orphans docs = map (\<lambda>d. let d' = d\<lparr>dc_error := None, dc_started := None\<rparr> in
     if dc_status d' = DocIndexing then d'\<lparr>dc_status := DocFailed, dc_error := Some ORPHAN_MESSAGE\<rparr> else d') docs"

lemma fail_orphans_none: "d \<in> set (fail_orphans docs) \<Longrightarrow> dc_status d \<noteq> DocIndexing \<and> dc_started d = None"
  by (auto simp: fail_orphans_def Let_def)

lemma fail_orphans_ok:
  assumes "distinct (map dc_id docs)" "\<forall>d \<in> set docs. dc_status d \<in> {DocIndexing, DocActive, DocArchived}"
    and "\<forall>d \<in> set docs. dc_indexed_at d \<noteq> None \<longrightarrow> dc_status d = DocActive"
  shows "docs_ok (fail_orphans docs)"
proof -
  have "map dc_id (fail_orphans docs) = map dc_id docs" by (simp add: fail_orphans_def Let_def)
  moreover have "doc_inv d" if "d \<in> set (fail_orphans docs)" for d
    using that assms(2,3) by (auto simp: fail_orphans_def doc_inv_def Let_def)
  ultimately show ?thesis using assms(1) by (simp add: docs_ok_def)
qed

subsection \<open>20260710: the first versions of the prompts\<close>

text \<open>The texts as the script has them; the identifiers are drawn in the order of use.\<close>

definition SEED_RAG_SYSTEM :: ustr where
  \<open>SEED_RAG_SYSTEM = asc ''You are AskFlow, an intelligent customer service assistant. Answer the user's question based ONLY on the provided numbered context chunks.'' @ [10, 10]
     @ asc ''Citation rules:'' @ [10]
     @ asc ''- Immediately after each claim, cite the supporting chunk with a bare marker like [1] or [2]'' @ [10]
     @ asc ''- Use only the chunk numbers given in the context; never invent a number'' @ [10]
     @ asc ''- Do not answer beyond the provided context'' @ [10, 10]
     @ asc ''Style rules:'' @ [10]
     @ asc ''- Answer in the same language as the user's question'' @ [10]
     @ asc ''- Be concise and accurate'' @ [10]
     @ asc ''- Do not make up information not in the context'' @ [10]
     @ asc ''- If the context doesn't contain enough information, say so honestly''\<close>

definition SEED_RAG_CONTEXT :: ustr where
  "SEED_RAG_CONTEXT = asc ''### Context'' @ [10, 10] @ asc ''{chunks}'' @ [10, 10]
     @ asc ''### User Question'' @ [10] @ asc ''{question}''"

definition SEED_RAG_NO_RESULTS :: ustr where
  \<open>SEED_RAG_NO_RESULTS = asc ''Sorry, I couldn't find relevant information. '' @ asc ''Please try rephrasing your question or contact a human agent.''\<close>

definition SEED_RAG_LLM_DOWN :: ustr where
  \<open>SEED_RAG_LLM_DOWN = asc ''AI generation is temporarily unavailable. '' @ asc ''Here are the most relevant knowledge base excerpts:'' @ [10]\<close>

definition SEED_INTENT_CLASSIFIER :: ustr where
  \<open>SEED_INTENT_CLASSIFIER = asc ''You are an intent classifier for a customer service system. Classify the user's message into one of the following intents:'' @ [10, 10]
     @ asc ''- faq: General knowledge questions, FAQ inquiries'' @ [10]
     @ asc ''- product: Product-related questions, feature inquiries'' @ [10]
     @ asc ''- order_query: Order status, shipping, delivery queries'' @ [10]
     @ asc ''- fault_report: Bug reports, system errors, fault reports'' @ [10]
     @ asc ''- complaint: Complaints, dissatisfaction, suggestions'' @ [10]
     @ asc ''- handoff: Requests to talk to a human agent'' @ [10, 10]
     @ asc ''Respond with ONLY a JSON object:'' @ [10]
     @ asc ''{{"intent": "<intent_label>", "confidence": <0.0-1.0>}}'' @ [10, 10]
     @ asc ''User message: {message}''\<close>

definition SEED_AGENT_CLARIFY :: ustr where
  "SEED_AGENT_CLARIFY = [25105, 19981, 22826, 30830, 23450, 24744, 30340, 38656, 27714, 65292, 33021, 21542, 35831, 24744, 25552, 20379,
     26356, 22810, 32454, 33410, 20197, 20415, 25105, 26356, 22909, 22320, 24110, 21161, 24744, 65311]"

definition SEED_PROMPTS :: "(string \<times> string list \<times> ustr) list" where
  "SEED_PROMPTS = [(''rag.system'', [], SEED_RAG_SYSTEM),
     (''rag.context'', [''chunks'', ''question''], SEED_RAG_CONTEXT),
     (''rag.fallback_no_results'', [], SEED_RAG_NO_RESULTS),
     (''rag.fallback_llm_down'', [], SEED_RAG_LLM_DOWN),
     (''intent.classifier'', [''message''], SEED_INTENT_CLASSIFIER),
     (''agent.clarify'', [], SEED_AGENT_CLARIFY)]"

text \<open>The template without a version, version 1, then the pointer.\<close>

definition seed_one :: "(nat \<Rightarrow> uuid) \<Rightarrow> nat \<times> string \<times> string list \<times> ustr \<Rightarrow> world \<Rightarrow> world" where
  "seed_one ids p w = (case p of (i, key, variables, content) \<Rightarrow>
     let t = ids (2 * i); v = ids (2 * i + 1);
         w1 = w\<lparr>w_templates := w_templates w @ [\<lparr>tp_id = t, tp_key = key, tp_vars = variables,
                  tp_active = None, tp_enabled = True\<rparr>]\<rparr>;
         w2 = w1\<lparr>w_versions := w_versions w1 @ [\<lparr>vr_id = v, vr_template = t, vr_version = 1, vr_content = content,
                  vr_by = None, vr_comment = Some (asc ''seed: code constant snapshot 2026-07-10'')\<rparr>]\<rparr>
     in w2\<lparr>w_templates := set_row tp_id t (\<lambda>x. x\<lparr>tp_active := Some v\<rparr>) (w_templates w2)\<rparr>)"

definition seed_prompts :: "(nat \<Rightarrow> uuid) \<Rightarrow> world \<Rightarrow> world" where
  "seed_prompts ids w = fold (seed_one ids) (zip [0 ..< length SEED_PROMPTS] SEED_PROMPTS) w"

lemma seed_texts:
  "SEED_RAG_SYSTEM = SYSTEM_PROMPT" "SEED_RAG_CONTEXT = CONTEXT_TEMPLATE" "SEED_RAG_NO_RESULTS = NO_RESULTS_REFUSAL"
  "SEED_RAG_LLM_DOWN = LLM_DOWN_FALLBACK_PREFIX" "SEED_INTENT_CLASSIFIER = INTENT_PROMPT"
  "SEED_AGENT_CLARIFY = CLARIFY_RESPONSE"
  by (simp_all only: SEED_RAG_SYSTEM_def SYSTEM_PROMPT_def SEED_RAG_CONTEXT_def CONTEXT_TEMPLATE_def
      SEED_INTENT_CLASSIFIER_def INTENT_PROMPT_def SEED_AGENT_CLARIFY_def CLARIFY_RESPONSE_def)
    (simp_all add: SEED_RAG_NO_RESULTS_def NO_RESULTS_REFUSAL_def SEED_RAG_LLM_DOWN_def
      LLM_DOWN_FALLBACK_PREFIX_def asc_def)

lemma seeded_rows:
  assumes "inj ids" "w_templates w = []" "w_versions w = []"
  shows "w_templates (seed_prompts ids w) = map (\<lambda>(i, k, vs, c). \<lparr>tp_id = ids (2 * i), tp_key = k, tp_vars = vs,
            tp_active = Some (ids (2 * i + 1)), tp_enabled = True\<rparr>) (zip [0 ..< 6] SEED_PROMPTS)"
    "w_versions (seed_prompts ids w) = map (\<lambda>(i, k, vs, c). \<lparr>vr_id = ids (2 * i + 1), vr_template = ids (2 * i),
            vr_version = 1, vr_content = c, vr_by = None,
            vr_comment = Some (asc ''seed: code constant snapshot 2026-07-10'')\<rparr>) (zip [0 ..< 6] SEED_PROMPTS)"
  using assms by (simp_all add: seed_prompts_def SEED_PROMPTS_def upt_rec seed_one_def Let_def set_row_def inj_eq)

lemma plain_prefix:
  "list_all (\<lambda>c. c \<noteq> 123 \<and> c \<noteq> 125) p \<Longrightarrow> str_format f (p @ s) = map_option ((@) p) (str_format f s)"
  by (cases "str_format f s"; induction p) simp_all

lemma plain_text: "list_all (\<lambda>c. c \<noteq> 123 \<and> c \<noteq> 125) s \<Longrightarrow> str_format f s = Some s"
  using plain_prefix [of s f "[]"] by simp

definition no_brace :: "ustr \<Rightarrow> bool" where
  "no_brace s \<longleftrightarrow> list_all (\<lambda>c. c \<noteq> 123 \<and> c \<noteq> 125) s"

lemma format_plain:
  "no_brace p \<Longrightarrow> str_format f (p @ s) = map_option ((@) p) (str_format f s)"
  "no_brace s \<Longrightarrow> str_format f s = Some s"
  by (simp_all add: no_brace_def plain_prefix plain_text)

lemma seed_texts_plain:
  "no_brace SEED_RAG_SYSTEM" "no_brace SEED_RAG_NO_RESULTS" "no_brace SEED_RAG_LLM_DOWN" "no_brace SEED_AGENT_CLARIFY"
  by (simp_all add: SEED_RAG_SYSTEM_def SEED_RAG_NO_RESULTS_def SEED_RAG_LLM_DOWN_def SEED_AGENT_CLARIFY_def
      asc_def no_brace_def)

lemma seed_intent_valid: "str_format (dummy_field (\<lambda>_. None) [''message'']) SEED_INTENT_CLASSIFIER \<noteq> None"
proof -
  let ?A = "asc ''You are an intent classifier for a customer service system. Classify the user's message into one of the following intents:'' @ [10, 10]
     @ asc ''- faq: General knowledge questions, FAQ inquiries'' @ [10]
     @ asc ''- product: Product-related questions, feature inquiries'' @ [10]
     @ asc ''- order_query: Order status, shipping, delivery queries'' @ [10]
     @ asc ''- fault_report: Bug reports, system errors, fault reports'' @ [10]
     @ asc ''- complaint: Complaints, dissatisfaction, suggestions'' @ [10]
     @ asc ''- handoff: Requests to talk to a human agent'' @ [10, 10]
     @ asc ''Respond with ONLY a JSON object:'' @ [10]"
  let ?B = \<open>asc ''"intent": "<intent_label>", "confidence": <0.0-1.0>''\<close> and ?C = "asc ''User message: ''"
  have parts: "SEED_INTENT_CLASSIFIER = ?A @ [123, 123] @ ?B @ [125, 125] @ [10, 10] @ ?C @ asc ''{message}''"
    by (simp add: SEED_INTENT_CLASSIFIER_def asc_def)
  have plain: "no_brace ?A" "no_brace ?B" "no_brace ?C" by (simp_all add: no_brace_def asc_def)
  have field: "str_format (dummy_field (\<lambda>_. None) [''message'']) (asc ''{message}'') \<noteq> None"
    by (simp add: dummy_field_def asc_def)
  show ?thesis unfolding parts format_plain(1) [OF plain(1)] using field
    by (simp add: format_plain(1) [OF plain(2)] format_plain(1) [OF plain(3)] del: append_assoc)
qed

lemma seeds_valid: "list_all (\<lambda>(k, vs, c). validate_prompt_content (\<lambda>_. None) c vs) SEED_PROMPTS"
  using seed_intent_valid
  by (simp add: SEED_PROMPTS_def validate_prompt_content_def format_plain(2) seed_texts_plain
      SEED_RAG_CONTEXT_def dummy_field_def asc_def)

text \<open>
  The seeded prompts. On empty prompt tables the seeding leaves a consistent table with one
  active version for each key, whose text would pass the check on saving; the loader then gives
  for every key exactly the text that the code has as its constant. So a worker that has nothing
  cached reads the same text for every key with the database up or down.
\<close>

theorem seeded_prompts_are_constants:
  assumes "inj ids" "w_templates w = []" "w_versions w = []"
  shows "prompts_ok (seed_prompts ids w)
   \<and> map_of (load_prompts up (seed_prompts ids w)) key = (if up then default_prompt key else None)
   \<and> (cache_hit now c = None \<longrightarrow> fst (get_prompt now (load_prompts up (seed_prompts ids w)) key c) = default_prompt key)
   \<and> (\<forall>t \<in> set (w_templates (seed_prompts ids w)). \<exists>v \<in> set (w_versions (seed_prompts ids w)).
        tp_active t = Some (vr_id v) \<and> vr_template v = tp_id t \<and> vr_version v = 1
        \<and> validate_prompt_content (\<lambda>_. None) (vr_content v) (tp_vars t))"
proof -
  have ok: "prompts_ok (seed_prompts ids w)"
    unfolding prompts_ok_def seeded_rows [OF assms] using assms(1)
    by (simp add: SEED_PROMPTS_def upt_rec inj_eq)
  have "load_active_contents (w_templates (seed_prompts ids w)) (w_versions (seed_prompts ids w))
      = map (\<lambda>(k, vs, c). (k, c)) SEED_PROMPTS"
    unfolding seeded_rows [OF assms] using assms(1)
    by (simp add: SEED_PROMPTS_def upt_rec inj_eq load_active_contents_def map_filter_simps row_of_Cons)
  moreover have "map_of (map (\<lambda>(k, vs, c). (k, c)) SEED_PROMPTS) key = default_prompt key"
    by (simp add: SEED_PROMPTS_def default_prompt_def seed_texts)
  ultimately have load: "map_of (load_prompts up (seed_prompts ids w)) key = (if up then default_prompt key else None)"
    by (simp add: load_prompts_def)
  have get: "fst (get_prompt now (load_prompts up (seed_prompts ids w)) key c) = default_prompt key" if "cache_hit now c = None"
    using load that by (auto simp: get_prompt_def cache_get_def split: option.split if_splits)
  have "\<exists>v \<in> set (w_versions (seed_prompts ids w)). tp_active t = Some (vr_id v) \<and> vr_template v = tp_id t
      \<and> vr_version v = 1 \<and> validate_prompt_content (\<lambda>_. None) (vr_content v) (tp_vars t)"
    if m: "t \<in> set (w_templates (seed_prompts ids w))" for t
  proof -
    obtain i k vs x where p: "(i, k, vs, x) \<in> set (zip [0 ..< 6] SEED_PROMPTS)"
        "t = \<lparr>tp_id = ids (2 * i), tp_key = k, tp_vars = vs, tp_active = Some (ids (2 * i + 1)), tp_enabled = True\<rparr>"
      using m unfolding seeded_rows [OF assms] set_map by (elim imageE) auto
    have "validate_prompt_content (\<lambda>_. None) x vs"
      using seeds_valid set_zip_rightD [OF p(1)] by (auto simp: list_all_iff)
    then show ?thesis using p unfolding seeded_rows [OF assms] set_map
      by (intro bexI [of _ "\<lparr>vr_id = ids (2 * i + 1), vr_template = ids (2 * i), vr_version = 1, vr_content = x,
          vr_by = None, vr_comment = Some (asc ''seed: code constant snapshot 2026-07-10'')\<rparr>"]) force+
  qed
  then show ?thesis using ok load get by blast
qed

theorem seeded_prompts_are_constants_witness:
  "prompts_ok (seed_prompts id empty_world)
   \<and> map_of (load_prompts True (seed_prompts id empty_world)) ''agent.clarify'' = Some CLARIFY_RESPONSE"
proof -
  have "inj (id :: nat \<Rightarrow> uuid)" "w_templates empty_world = []" "w_versions empty_world = []"
    by (simp_all add: empty_world_def)
  from seeded_prompts_are_constants [OF this, of True "''agent.clarify''"] show ?thesis
    by (simp add: default_prompt_def)
qed

end
