(* ===== verification/Http.thy ===== *)
theory Http
  imports Startup Drafts
begin

text \<open>
  What surrounds every HTTP request: \<open>core/middleware.py\<close>, \<open>core/trace.py\<close>, \<open>core/logging.py\<close>, the
  request counters of \<open>core/metrics.py\<close> and the exception handlers of \<open>core/exceptions.py\<close>. A trace
  id is the text of the header or a fresh one; latencies and the JSON rendering of the log are left
  out. The framework hands \<open>AskFlowError\<close> and validation errors to their handlers inside the
  middleware and any other exception to the last handler outside of it.

  Lemmas: replacing identifiers in a path is the reference function that scans it once, no
  identifier survives it, and paths that differ in identifiers only share their counters.
\<close>

subsection \<open>Fixed-length patterns\<close>

text \<open>A pattern that matches exactly the texts whose characters lie in the classes \<open>ps\<close>.\<close>

definition form :: "(nat \<Rightarrow> bool) list \<Rightarrow> ustr \<Rightarrow> bool" where
  "form ps t \<longleftrightarrow> list_all2 (\<lambda>p c. p c) ps t"

definition chars :: "rx \<Rightarrow> (nat \<Rightarrow> bool) list \<Rightarrow> bool" where
  "chars r ps \<longleftrightarrow> (\<forall>s i. ends r s i = (if form ps (take (length ps) (drop i s)) then [i + length ps] else []))"

lemma form_length: "form ps t \<Longrightarrow> length t = length ps"
  by (simp add: form_def list_all2_lengthD)

lemma chars_cls: "chars (Cls p) [p]"
proof -
  have "form [p] (take 1 (drop i s)) \<longleftrightarrow> i < length s \<and> p (s ! i)" for s i
    by (cases "i < length s") (simp_all add: form_def take_Suc_conv_app_nth hd_drop_conv_nth take_Suc)
  then show ?thesis by (simp add: chars_def)
qed

lemma chars_rep: "chars (Rep p n (Some n)) (replicate n p)"
proof -
  have "form (replicate n p) (take n t) \<longleftrightarrow> n \<le> length (takeWhile p t)" for t
  proof (induction n arbitrary: t)
    case (Suc n)
    then show ?case by (cases t) (simp_all add: form_def)
  qed (simp add: form_def)
  then show ?thesis by (simp add: chars_def run_len_def cap_def min_def)
qed

lemma chars_seq:
  assumes "chars a ps" "chars b qs"
  shows "chars (Seq a b) (ps @ qs)"
proof -
  have "form (ps @ qs) (take (length ps + length qs) t)
      \<longleftrightarrow> form ps (take (length ps) t) \<and> form qs (take (length qs) (drop (length ps) t))" for t
  proof (cases "length ps \<le> length t")
    case True
    then show ?thesis by (simp add: form_def take_add list_all2_append)
  next
    case False
    then show ?thesis using form_length [of ps "take (length ps) t"]
        form_length [of "ps @ qs" "take (length ps + length qs) t"] by auto
  qed
  then show ?thesis using assms by (simp add: chars_def add.commute add.left_commute)
qed

fun sub_form :: "(nat \<Rightarrow> bool) list \<Rightarrow> ustr \<Rightarrow> ustr \<Rightarrow> ustr" where
  "sub_form ps w [] = []"
| "sub_form ps w (c # cs) =
     (if form ps (take (length ps) (c # cs)) then w @ sub_form ps w (drop (length ps - 1) cs)
      else c # sub_form ps w cs)"

lemma splice_step:
  assumes "i < length s" "\<forall>m \<in> set ms. Suc i \<le> fst m"
  shows "splice s i ms f = s ! i # splice s (Suc i) ms f"
proof (cases ms)
  case Nil
  then show ?thesis using assms(1) by (simp add: Cons_nth_drop_Suc)
next
  case (Cons m rest)
  then have "fst m - i = Suc (fst m - Suc i)" using assms(2) by (simp add: Suc_diff_Suc Suc_le_eq)
  then show ?thesis using assms(1) Cons by (simp add: Cons_nth_drop_Suc [symmetric])
qed

lemma splice_form:
  assumes "chars r ps" "ps \<noteq> []"
  shows "i \<le> length s \<Longrightarrow> splice s i (rx_iter r s i) (\<lambda>_. w) = sub_form ps w (drop i s)"
proof (induction "length s - i" arbitrary: i rule: less_induct)
  case less
  show ?case
  proof (cases "i = length s")
    case True
    moreover have "\<not> form ps []" using assms(2) by (simp add: form_def)
    ultimately have "ends r s i = []" using assms(1) by (simp add: chars_def)
    then show ?thesis using True by (simp add: rx_iter.simps [of r s "length s"] rx_iter.simps [of r s "Suc (length s)"])
  next
    case False
    then have i: "i < length s" using less.prems by simp
    then have d: "drop i s = s ! i # drop (Suc i) s" by (simp add: Cons_nth_drop_Suc)
    show ?thesis
    proof (cases "form ps (take (length ps) (drop i s))")
      case True
      have n: "length ps \<le> length s - i" using form_length [OF True] by simp
      have e: "ends r s i = [i + length ps]" using True assms(1) by (simp add: chars_def)
      have j: "max (i + length ps) (Suc i) = i + length ps" using assms(2) by (cases ps) auto
      have "length s - (i + length ps) < length s - i" "i + length ps \<le> length s"
        using n i assms(2) by (cases ps; simp)+
      from less.hyps [OF this]
      have "splice s i (rx_iter r s i) (\<lambda>_. w) = w @ sub_form ps w (drop (i + length ps) s)"
        using i by (simp add: rx_iter.simps [of r s i] e j)
      also have "drop (i + length ps) s = drop (length ps - 1) (drop (Suc i) s)"
        using assms(2) by (cases ps) (simp_all add: add.commute)
      finally show ?thesis using True by (simp add: d)
    next
      case False
      then have e: "ends r s i = []" using assms(1) by (simp add: chars_def)
      then have "rx_iter r s i = rx_iter r s (Suc i)" using i by (simp add: rx_iter.simps [of r s i])
      moreover have "\<forall>m \<in> set (rx_iter r s (Suc i)). Suc i \<le> fst m" using rx_iter_match by blast
      ultimately show ?thesis using less.hyps [of "Suc i"] i False by (simp add: splice_step d)
    qed
  qed
qed

lemma sub_by_form: "chars r ps \<Longrightarrow> ps \<noteq> [] \<Longrightarrow> rx_sub r (\<lambda>_. w) s = sub_form ps w s"
  using splice_form [of r ps 0 s w] by (simp add: rx_sub_def rx_finditer_def)
subsection \<open>Paths\<close>

definition hex_char :: "nat \<Rightarrow> bool" where
  "hex_char c \<longleftrightarrow> 48 \<le> c \<and> c \<le> 57 \<or> 65 \<le> c \<and> c \<le> 70 \<or> 97 \<le> c \<and> c \<le> 102"

definition hexes :: "nat \<Rightarrow> rx" where
  "hexes n = Rep hex_char n (Some n)"

definition UUID_RE :: rx where
  "UUID_RE = Seq (hexes 8) (Seq (lit 45) (Seq (hexes 4) (Seq (lit 45) (Seq (hexes 4) (Seq (lit 45)
     (Seq (hexes 4) (Seq (lit 45) (hexes 12))))))))"

definition normalize_path :: "ustr \<Rightarrow> ustr" where
  "normalize_path path = rx_sub UUID_RE (\<lambda>_. asc ''{id}'') path"

definition uuid_classes :: "(nat \<Rightarrow> bool) list" where
  "uuid_classes = replicate 8 hex_char @ [\<lambda>c. c = 45] @ replicate 4 hex_char @ [\<lambda>c. c = 45] @ replicate 4 hex_char
     @ [\<lambda>c. c = 45] @ replicate 4 hex_char @ [\<lambda>c. c = 45] @ replicate 12 hex_char"

abbreviation uuid_form :: "ustr \<Rightarrow> bool" where "uuid_form \<equiv> form uuid_classes"

lemma uuid_chars: "chars UUID_RE uuid_classes"
proof -
  have l: "chars (lit 45) [\<lambda>c. c = 45]" unfolding lit_def by (rule chars_cls)
  show ?thesis unfolding UUID_RE_def uuid_classes_def hexes_def
    by (intro chars_seq chars_rep l)
qed

lemma uuid_len [simp]: "length uuid_classes = 36"
  by (simp add: uuid_classes_def)

lemma normalize_eq: "normalize_path s = sub_form uuid_classes (asc ''{id}'') s"
proof -
  have "uuid_classes \<noteq> []" by (simp add: uuid_classes_def)
  then show ?thesis unfolding normalize_path_def by (rule sub_by_form [OF uuid_chars])
qed

lemma uuid_char: "uuid_form t \<Longrightarrow> c \<in> set t \<Longrightarrow> hex_char c \<or> c = 45"
proof -
  assume t: "uuid_form t" and c: "c \<in> set t"
  then obtain i where i: "i < length t" "c = t ! i" by (auto simp: in_set_conv_nth)
  then have "(uuid_classes ! i) c" using t by (simp add: form_def list_all2_conv_all_nth)
  moreover have "uuid_classes ! i \<in> set uuid_classes" using i form_length [OF t] by simp
  ultimately show ?thesis by (auto simp: uuid_classes_def)
qed

lemma norm_uuid:
  assumes "uuid_form u"
  shows "normalize_path (u @ s) = asc ''{id}'' @ normalize_path s"
proof -
  have len: "length u = 36" using form_length [OF assms] by simp
  then obtain c cs where u: "u = c # cs" by (cases u) auto
  have "take 36 (c # cs @ s) = u" "drop 35 (cs @ s) = s" using len u by simp_all
  then show ?thesis using assms by (simp add: normalize_eq u)
qed

lemma norm_id: "uuid_form u \<Longrightarrow> normalize_path u = asc ''{id}''"
  using norm_uuid [of u "[]"] by (simp add: normalize_eq)

lemma norm_step: "\<not> uuid_form (take 36 (c # s)) \<Longrightarrow> normalize_path (c # s) = c # normalize_path s"
  by (simp add: normalize_eq)

lemma norm_Nil [simp]: "normalize_path [] = []"
  by (simp add: normalize_eq)

text \<open>Along a path: an identifier, a character, the end.\<close>

lemma path_induct [case_names Nil uuid char]:
  assumes "P []" "\<And>u s. uuid_form u \<Longrightarrow> P s \<Longrightarrow> P (u @ s)"
    and "\<And>c s. \<not> uuid_form (take 36 (c # s)) \<Longrightarrow> P s \<Longrightarrow> P (c # s)"
  shows "P s"
proof (induction "length s" arbitrary: s rule: less_induct)
  case less
  show ?case
  proof (cases s)
    case (Cons c cs)
    show ?thesis
    proof (cases "uuid_form (take 36 s)")
      case True
      then have "length (drop 36 s) < length s" using Cons form_length [OF True] by simp
      then have "P (take 36 s @ drop 36 s)" using less True assms(2) by blast
      then show ?thesis by simp
    qed (use less assms(3) Cons in auto)
  qed (use assms(1) in simp)
qed

text \<open>An identifier never reaches over a slash.\<close>

lemma norm_slash: "normalize_path (x @ 47 # y) = normalize_path x @ 47 # normalize_path y"
proof (induction x rule: path_induct)
  case Nil
  have "\<not> uuid_form (take 36 (47 # y))" using uuid_char [of "take 36 (47 # y)" 47] by (auto simp: hex_char_def)
  then show ?case by (simp add: norm_step)
next
  case (uuid u s)
  then show ?case by (simp add: norm_uuid)
next
  case (char c s)
  have "\<not> uuid_form (take 36 (c # s @ 47 # y))"
  proof
    assume u: "uuid_form (take 36 (c # s @ 47 # y))"
    show False
    proof (cases "36 \<le> length (c # s)")
      case True
      then show False using u char(1) by simp
    next
      case False
      then have "47 \<in> set (take 36 ((c # s) @ 47 # y))" by (simp only: take_append set_append) (simp add: take_Cons')
      then show False using uuid_char [OF u, of 47] by (simp add: hex_char_def)
    qed
  qed
  then show ?case using char by (simp add: norm_step)
qed

text \<open>What is left of a path has no identifier.\<close>

lemma norm_prefix: "123 \<notin> set (take k (normalize_path s)) \<Longrightarrow> take k s = take k (normalize_path s)"
proof (induction s arbitrary: k rule: path_induct)
  case (uuid u s)
  then show ?case by (cases k) (simp_all add: norm_uuid asc_def)
next
  case (char c s)
  then show ?case by (cases k) (simp_all add: norm_step)
qed simp

lemma norm_clean: "\<not> uuid_form (take 36 (drop i (normalize_path s)))"
proof (induction s arbitrary: i rule: path_induct)
  case Nil
  then show ?case using form_length [of uuid_classes "[]"] by auto
next
  case (uuid u s)
  show ?case
  proof (cases "4 \<le> i")
    case True
    then have "drop i (asc ''{id}'' @ normalize_path s) = drop (i - 4) (normalize_path s)"
      by (simp add: asc_def drop_Cons' eval_nat_numeral)
    then show ?thesis using uuid by (simp add: norm_uuid)
  next
    case False
    then have "i = 0 \<or> i = 1 \<or> i = 2 \<or> i = 3" by linarith
    then have "125 \<in> set (take 36 (drop i (asc ''{id}'' @ normalize_path s)))"
      by (elim disjE) (simp_all add: asc_def)
    then show ?thesis using uuid(1) uuid_char [of "take 36 (drop i (asc ''{id}'' @ normalize_path s))" 125]
      by (auto simp: norm_uuid hex_char_def)
  qed
next
  case (char c s)
  show ?case
  proof (cases i)
    case 0
    have "\<not> uuid_form (c # take 35 (normalize_path s))"
    proof
      assume u: "uuid_form (c # take 35 (normalize_path s))"
      then have "123 \<notin> set (take 35 (normalize_path s))" using uuid_char [OF u, of 123] by (auto simp: hex_char_def)
      then have "take 35 s = take 35 (normalize_path s)" by (rule norm_prefix)
      then show False using u char(1) by simp
    qed
    then show ?thesis using 0 char(1) by (simp add: norm_step)
  next
    case (Suc j)
    then show ?thesis using char by (simp add: norm_step)
  qed
qed

lemma normalize_again: "(\<And>i. \<not> uuid_form (take 36 (drop i s))) \<Longrightarrow> normalize_path s = s"
proof (induction s)
  case (Cons c s)
  have "\<not> uuid_form (take 36 (drop i s))" for i using Cons.prems [of "Suc i"] by simp
  moreover have "\<not> uuid_form (take 36 (c # s))" using Cons.prems [of 0] by simp
  ultimately show ?case using Cons.IH by (simp add: norm_step)
qed simp

definition path_of :: "ustr list \<Rightarrow> ustr" where
  "path_of segs = concat (map ((#) 47) segs)"

lemma norm_path_of: "normalize_path (path_of segs) = path_of (map normalize_path segs)"
proof (induction segs rule: rev_induct)
  case (snoc x xs)
  have "normalize_path (path_of xs @ 47 # x) = normalize_path (path_of xs) @ 47 # normalize_path x" by (rule norm_slash)
  then show ?case using snoc by (simp add: path_of_def)
qed (simp add: path_of_def)

definition same_endpoint :: "ustr list \<Rightarrow> ustr list \<Rightarrow> bool" where
  "same_endpoint xs ys \<longleftrightarrow> list_all2 (\<lambda>a b. a = b \<or> uuid_form a \<and> uuid_form b) xs ys"

lemma same_label: "same_endpoint xs ys \<Longrightarrow> normalize_path (path_of xs) = normalize_path (path_of ys)"
proof -
  assume "same_endpoint xs ys"
  then have "map normalize_path xs = map normalize_path ys" unfolding same_endpoint_def
    by (induction rule: list_all2_induct) (auto simp: norm_id)
  then show ?thesis by (simp add: norm_path_of)
qed

lemma form_replicate: "form (replicate n p) t \<longleftrightarrow> length t = n \<and> list_all p t"
  by (auto simp: form_def list_all2_conv_all_nth list_all_length)

lemma form_append: "length ps = length t \<Longrightarrow> form (ps @ qs) (t @ u) \<longleftrightarrow> form ps t \<and> form qs u"
  by (simp add: form_def list_all2_append)

lemma hex_length: "u < 16 ^ n \<Longrightarrow> 0 < n \<Longrightarrow> length (hex u) \<le> n"
proof (induction u arbitrary: n rule: hex.induct)
  case (1 u)
  show ?case
  proof (cases "u < 16")
    case False
    then obtain m where n: "n = Suc m" "0 < m" using 1(2,3) by (cases n; cases "n - 1") auto
    then have "u div 16 < 16 ^ m" using 1(2) by (simp add: less_mult_imp_div_less mult.commute)
    then have "length (hex (u div 16)) \<le> m" using 1(1) False n(2) by simp
    then show ?thesis using False n(1) by (subst hex.simps) simp
  qed (use 1 in \<open>simp add: hex.simps\<close>)
qed

lemma uuid_text_form: "u < 2 ^ 128 \<Longrightarrow> uuid_form (uuid_text u)"
proof -
  assume u: "u < 2 ^ 128"
  define h where "h = replicate (32 - length (hex u)) 48 @ hex u"
  have "length (hex u) \<le> 32" using u by (intro hex_length) simp_all
  then have len: "length h = 32" by (simp add: h_def)
  have "c \<in> set (hex u) \<Longrightarrow> hex_char c" for c using hex_digits [of c u] by (auto simp: hex_char_def)
  then have hx: "list_all hex_char h" by (auto simp: h_def list_all_iff hex_char_def)
  have part: "list_all hex_char (take k (drop i h))" "list_all hex_char (take k h)" "list_all hex_char (drop i h)" for i k
    using hx by (auto simp: list_all_iff dest: in_set_takeD in_set_dropD)
  have dash: "form [\<lambda>c. c = (45::nat)] [45]" by (simp add: form_def)
  have "uuid_text u = take 8 h @ [45] @ take 4 (drop 8 h) @ [45] @ take 4 (drop 12 h) @ [45] @ take 4 (drop 16 h) @ [45] @ drop 20 h"
    by (simp add: uuid_text_def h_def Let_def)
  moreover have "uuid_form \<dots>" unfolding uuid_classes_def
    by (simp add: form_append form_replicate part dash len del: append_Cons append_Nil replicate.simps)
  ultimately show ?thesis by simp
qed

subsection \<open>A request\<close>

record request =
  rq_method :: string
  rq_path :: ustr
  rq_trace :: "string option"

record response =
  rp_status :: nat
  rp_error :: "ustr option"
  rp_trace :: "string option"

text \<open>What an endpoint may raise: an \<open>AskFlowError\<close>, a model's \<open>ValidationError\<close>, or anything else.\<close>

datatype raised = AppError err ustr | BodyInvalid | Crash exn

definition answer :: "nat \<Rightarrow> ustr option \<Rightarrow> response" where
  "answer st e = \<lparr>rp_status = st, rp_error = e, rp_trace = None\<rparr>"

text \<open>The handlers that run inside the middleware.\<close>

fun handled :: "raised + response \<Rightarrow> exn + response" where
  "handled (Inr r) = Inr r"
| "handled (Inl (AppError e msg)) = Inr (answer (status_code e) (Some msg))"
| "handled (Inl BodyInvalid) = Inr (answer 422 (Some (asc ''Validation error'')))"
| "handled (Inl (Crash e)) = Inl e"

definition trace_of :: "string \<Rightarrow> request \<Rightarrow> string" where
  "trace_of fresh rq = (case rq_trace rq of None \<Rightarrow> fresh | Some t \<Rightarrow> if t = '''' then fresh else t)"

text \<open>The endpoint runs under the trace id; each increment of \<open>REQUEST_COUNT\<close> is its labels.\<close>

type_synonym series = "string \<times> ustr \<times> nat"

definition dispatch ::
  "string \<Rightarrow> (string \<Rightarrow> raised + response) \<Rightarrow> request \<Rightarrow> series list \<Rightarrow> (exn + response) \<times> series list" where
  "dispatch fresh endpoint rq counts =
     (let t = trace_of fresh rq in
      case handled (endpoint t) of
        Inl e \<Rightarrow> (Inl e, counts)
      | Inr r \<Rightarrow> (Inr (r\<lparr>rp_trace := Some t\<rparr>),
          counts @ [(rq_method rq, normalize_path (rq_path rq), rp_status r)]))"

text \<open>The last handler is outside of the middleware.\<close>

definition serve_http ::
  "string \<Rightarrow> (string \<Rightarrow> raised + response) \<Rightarrow> request \<Rightarrow> series list \<Rightarrow> response \<times> series list" where
  "serve_http fresh endpoint rq counts =
     (case dispatch fresh endpoint rq counts of
        (Inl e, c) \<Rightarrow> (answer 500 (Some (asc ''Internal server error'')), c)
      | (Inr r, c) \<Rightarrow> (r, c))"

fun serve_all ::
  "(string \<times> (string \<Rightarrow> raised + response) \<times> request) list \<Rightarrow> series list \<Rightarrow> response list \<times> series list" where
  "serve_all [] counts = ([], counts)"
| "serve_all ((fresh, endpoint, rq) # xs) counts =
     (let (r, c1) = serve_http fresh endpoint rq counts; (rs, c2) = serve_all xs c1 in (r # rs, c2))"

subsection \<open>The log\<close>

text \<open>The fields of an event in the order of the processors; rendering is left out.\<close>

definition add_trace_id :: "string \<Rightarrow> (string \<times> json) list \<Rightarrow> (string \<times> json) list" where
  "add_trace_id t ev = (if t = '''' then ev else AList.update ''trace_id'' (JStr (asc t)) ev)"

definition mask_event_values :: "(string \<times> json) list \<Rightarrow> (string \<times> json) list" where
  "mask_event_values ev = map (\<lambda>(k, v). (k, mask_value v 1)) ev"

definition logged :: "settings \<Rightarrow> string \<Rightarrow> (string \<times> json) list \<Rightarrow> (string \<times> json) list" where
  "logged S t ev = (let ev1 = add_trace_id t ev in if cf_log_masking_enabled S then mask_event_values ev1 else ev1)"

text \<open>With masking on, every text that is not too deep has been masked, the trace id among them.\<close>

lemma logged_texts:
  assumes "cf_log_masking_enabled S" "(k, v) \<in> set (logged S t ev)"
  shows "\<exists>u. v = mask_value u 1 \<and> texts_at 1 v = map mask_text (texts_at 1 u)"
  using assms mask_value_texts by (auto simp: logged_def Let_def mask_event_values_def)

subsection \<open>Counting requests\<close>

lemma found_uuid: "rx_found UUID_RE s \<longleftrightarrow> (\<exists>i \<le> length s. uuid_form (take 36 (drop i s)))"
proof -
  have "rx_found UUID_RE s \<longleftrightarrow> (\<exists>i \<le> length s. ends UUID_RE s i \<noteq> [])"
    by (auto simp: rx_found_def rx_search_def find_None_iff' less_Suc_eq_le simp del: upt_Suc)
  then show ?thesis using uuid_chars by (auto simp: chars_def split: if_splits)
qed

definition gets_answer :: "string \<times> (string \<Rightarrow> raised + response) \<times> request \<Rightarrow> bool" where
  "gets_answer x = (case x of (fresh, endpoint, rq) \<Rightarrow> \<not> isl (handled (endpoint (trace_of fresh rq))))"

definition right_trace :: "string \<times> (string \<Rightarrow> raised + response) \<times> request \<Rightarrow> response \<Rightarrow> bool" where
  "right_trace x r = (case x of (fresh, endpoint, rq) \<Rightarrow>
     if gets_answer x then rp_trace r = Some (trace_of fresh rq) else rp_status r = 500 \<and> rp_trace r = None)"

lemma serve_one:
  "serve_http f e q counts = (r, c) \<Longrightarrow> right_trace (f, e, q) r
     \<and> c = counts @ (if gets_answer (f, e, q) then [(rq_method q, normalize_path (rq_path q), rp_status r)] else [])"
  by (auto simp: serve_http_def dispatch_def Let_def right_trace_def gets_answer_def answer_def split: sum.splits)

lemma serve_all_counts:
  "serve_all xs counts = (rs, c) \<Longrightarrow> list_all2 right_trace xs rs
     \<and> c = counts @ map (\<lambda>((f, e, q), r). (rq_method q, normalize_path (rq_path q), rp_status r))
          (filter (\<lambda>(x, r). gets_answer x) (zip xs rs))"
proof (induction xs counts arbitrary: rs c rule: serve_all.induct)
  case (2 f e q xs counts)
  obtain r c1 where one: "serve_http f e q counts = (r, c1)" by fastforce
  obtain rs' c2 where rest: "serve_all xs c1 = (rs', c2)" by fastforce
  have IH: "list_all2 right_trace xs rs'
     \<and> c2 = c1 @ map (\<lambda>((f, e, q), r). (rq_method q, normalize_path (rq_path q), rp_status r))
          (filter (\<lambda>(x, r). gets_answer x) (zip xs rs'))" by (rule "2.IH" [OF one [symmetric] refl rest])
  show ?case using "2.prems" one rest serve_one [OF one] IH by auto
qed simp

text \<open>
  C36: requests and their counters. Whatever the endpoints answer, each request gets a response; one
  that ends in a response of the application carries the trace id the endpoint ran under and is
  counted once, and one that ends in an unforeseen exception is a 500 without a trace id that is
  not counted. Requests whose paths differ only in identifiers are counted under one path, in which
  no identifier is left, so the number of series does not grow with the data.
\<close>

theorem requests_counted:
  assumes "\<forall>(f, e, q) \<in> set xs. \<exists>segs. rq_path q = path_of segs \<and> same_endpoint tmpl segs"
    and "serve_all xs counts = (rs, c)"
  shows "length rs = length xs \<and> list_all2 right_trace xs rs
   \<and> take (length counts) c = counts
   \<and> length c = length counts + length (filter gets_answer xs)
   \<and> fst ` snd ` set (drop (length counts) c) \<subseteq> {normalize_path (path_of tmpl)}
   \<and> \<not> rx_found UUID_RE (normalize_path p) \<and> normalize_path (normalize_path p) = normalize_path p
   \<and> (u < 2 ^ 128 \<longrightarrow> same_endpoint [asc ''api'', asc ''v1'', uuid_text u] [asc ''api'', asc ''v1'', uuid_text 0])"
proof -
  note s = serve_all_counts [OF assms(2)]
  have len: "length rs = length xs" using s list_all2_lengthD by fastforce
  have path: "normalize_path (rq_path q) = normalize_path (path_of tmpl)" if "(f, e, q) \<in> set xs" for f e q
    using assms(1) that same_label [of tmpl] by fastforce
  have "length (filter (\<lambda>(x, r). gets_answer x) (zip ys ts)) = length (filter gets_answer ys)" if "length ts = length ys" for ys and ts :: "response list"
    using that by (induction ys ts rule: list_induct2') auto
  then have n: "length (filter (\<lambda>(x, r). gets_answer x) (zip xs rs)) = length (filter gets_answer xs)" using len by simp
  have labels: "fst ` snd ` set (drop (length counts) c) \<subseteq> {normalize_path (path_of tmpl)}"
    using s path by (auto dest!: set_zip_leftD)
  have "uuid_form (uuid_text 0)" by (rule uuid_text_form) simp
  then show ?thesis
    using s n len labels norm_clean [of _ p] normalize_again [OF norm_clean, of p] uuid_text_form [of u]
    by (simp add: found_uuid same_endpoint_def)
qed

definition two_requests :: "(string \<times> (string \<Rightarrow> raised + response) \<times> request) list" where
  "two_requests = [(''t1'', \<lambda>t. Inr (answer 200 None), \<lparr>rq_method = ''GET'', rq_path = path_of [asc ''d'', uuid_text 5], rq_trace = None\<rparr>),
     (''t2'', \<lambda>t. Inl (Crash (Exn ''DataError'' [])), \<lparr>rq_method = ''GET'', rq_path = path_of [asc ''d'', uuid_text 6], rq_trace = Some ''x''\<rparr>)]"

theorem requests_counted_witness:
  "length (snd (serve_all two_requests [])) = 1 \<and> fst ` snd ` set (snd (serve_all two_requests [])) \<subseteq> {asc ''/d/{id}''}"
proof -
  obtain rs c where r: "serve_all two_requests [] = (rs, c)" by fastforce
  have u: "uuid_form (uuid_text 5)" "uuid_form (uuid_text 6)" by (rule uuid_text_form, simp)+
  have 1: "\<forall>(f, e, q) \<in> set two_requests. \<exists>segs. rq_path q = path_of segs \<and> same_endpoint [asc ''d'', uuid_text 5] segs"
    using u by (auto simp: two_requests_def same_endpoint_def intro!: exI)
  have "filter gets_answer two_requests = take 1 two_requests"
    by (simp add: two_requests_def gets_answer_def)
  moreover have "normalize_path (asc ''d'') = asc ''d''"
    using form_length [of uuid_classes] by (intro normalize_again) (fastforce simp: asc_def)
  then have "normalize_path (path_of [asc ''d'', uuid_text 5]) = asc ''/d/{id}''"
    using norm_id [OF u(1)] unfolding norm_path_of by (simp add: path_of_def asc_def)
  ultimately show ?thesis using requests_counted [OF 1 r, of "[]" 0] r by (simp add: two_requests_def)
qed

end
