(* ===== verification/Columns.thy ===== *)
theory Columns
  imports Migrations Drafts Http
begin

text \<open>
  Rows against their tables: what the columns of \<open>models/*.py\<close> accept of the rows that the
  operations write, by the length of a text, the members of an enumeration, the range of an
  integer and the presence of a value. PostgreSQL refuses a row that does not fit and the request
  fails. \<open>core/audit.py\<close>'s vocabularies of actions and entities are here as well.

  Lemmas: for each table the exact condition under which a row fits, that the rows the code
  composes itself always do, and which inputs from outside can make one that does not.
\<close>

subsection \<open>Cells\<close>

text \<open>
  Of a text the number of its characters is kept. The label of an intent is the model's text with
  characters outside of ASCII escaped, so such a label counts for more than it takes.
\<close>

datatype cell = CNull | CUuid | CText nat | CEnum string | CInt int | CBool | CFloat | CTime | CJson

definition maybe :: "('a \<Rightarrow> cell) \<Rightarrow> 'a option \<Rightarrow> cell" where
  "maybe f x = (case x of None \<Rightarrow> CNull | Some v \<Rightarrow> f v)"

definition text_cell :: "'a list \<Rightarrow> cell" where
  "text_cell s = CText (length s)"

fun cell_fits :: "(string \<times> string list) list \<Rightarrow> column \<Rightarrow> cell \<Rightarrow> bool" where
  "cell_fits es c CNull = co_null c"
| "cell_fits es c CUuid = (co_type c = TUuid)"
| "cell_fits es c (CText n) = (case co_type c of TString k \<Rightarrow> n \<le> k | TText \<Rightarrow> True | _ \<Rightarrow> False)"
| "cell_fits es c (CEnum v) = (case co_type c of TEnum t \<Rightarrow> v \<in> set (or_else (map_of es t) []) | _ \<Rightarrow> False)"
| "cell_fits es c (CInt i) = (case co_type c of TInt \<Rightarrow> - (2 ^ 31) \<le> i \<and> i < 2 ^ 31
     | TSmallInt \<Rightarrow> - (2 ^ 15) \<le> i \<and> i < 2 ^ 15 | _ \<Rightarrow> False)"
| "cell_fits es c CBool = (co_type c = TBool)"
| "cell_fits es c CFloat = (co_type c = TFloat)"
| "cell_fits es c CTime = (co_type c = TTime)"
| "cell_fits es c CJson = (co_type c = TJsonb)"

text \<open>Every value is for a column, and a column without one may be null or has a default.\<close>

definition row_fits :: "db_table \<Rightarrow> (string \<times> cell) list \<Rightarrow> bool" where
  "row_fits T cells \<longleftrightarrow>
     list_all (\<lambda>c. case map_of cells (co_name c) of None \<Rightarrow> co_null c \<or> co_default c \<noteq> None
        | Some x \<Rightarrow> cell_fits model_enums c x) (tb_cols T)
     \<and> list_all (\<lambda>kv. fst kv \<in> co_name ` set (tb_cols T)) cells"

subsection \<open>Rows as cells\<close>

definition ticket_cells :: "ticket \<Rightarrow> (string \<times> cell) list" where
  "ticket_cells t = [(''id'', CUuid), (''conversation_id'', maybe (\<lambda>_. CUuid) (tk_conv t)), (''user_id'', CUuid),
     (''type'', text_cell (tk_type t)), (''status'', CEnum (status_name (tk_status t))),
     (''priority'', CEnum (priority_name (tk_priority t))), (''title'', text_cell (tk_title t)),
     (''description'', maybe text_cell (tk_desc t)), (''assignee'', maybe text_cell (tk_assignee t)),
     (''content'', maybe (\<lambda>_. CJson) (tk_content t)), (''resolved_at'', maybe (\<lambda>_. CTime) (tk_resolved t))]"

text \<open>The assignee of a session is \<open>str(user.id)\<close>.\<close>

definition handoff_cells :: "handoff \<Rightarrow> (string \<times> cell) list" where
  "handoff_cells h = [(''id'', CUuid), (''conversation_id'', CUuid), (''status'', CEnum (ho_name (ho_status h))),
     (''summary'', text_cell (ho_summary h)), (''payload'', CJson),
     (''assignee'', maybe (\<lambda>u. text_cell (uuid_text u)) (ho_assignee h)),
     (''claimed_at'', maybe (\<lambda>_. CTime) (ho_claimed h)), (''closed_at'', maybe (\<lambda>_. CTime) (ho_closed h))]"

definition audit_cells :: "audit \<Rightarrow> (string \<times> cell) list" where
  "audit_cells a = [(''id'', CUuid), (''actor_id'', CUuid), (''actor_role'', text_cell (role_name (au_role a))),
     (''action'', text_cell (au_action a)), (''entity_type'', text_cell (au_entity_type a)),
     (''entity_id'', maybe (\<lambda>_. CUuid) (au_entity a)), (''detail'', maybe (\<lambda>_. CJson) (au_detail a)),
     (''trace_id'', maybe text_cell (au_trace a))]"

fun doc_status_name :: "doc_status \<Rightarrow> string" where
  "doc_status_name DocPending = ''pending''"
| "doc_status_name DocIndexing = ''indexing''"
| "doc_status_name DocActive = ''active''"
| "doc_status_name DocFailed = ''failed''"
| "doc_status_name DocArchived = ''archived''"

definition document_cells :: "document \<Rightarrow> (string \<times> cell) list" where
  "document_cells d = [(''id'', CUuid), (''title'', text_cell (dc_title d)), (''source'', maybe text_cell (dc_source d)),
     (''file_path'', maybe text_cell (dc_path d)), (''status'', CEnum (doc_status_name (dc_status d))),
     (''chunk_count'', CInt (int (dc_chunks d))), (''tags'', maybe (\<lambda>_. CJson) (dc_tags d)),
     (''indexed_at'', maybe (\<lambda>_. CTime) (dc_indexed_at d)), (''index_error'', maybe text_cell (dc_error d)),
     (''index_started_at'', maybe (\<lambda>_. CTime) (dc_started d))]"

definition feedback_cells :: "feedback \<Rightarrow> (string \<times> cell) list" where
  "feedback_cells f = [(''id'', CUuid), (''message_id'', CUuid), (''user_id'', CUuid),
     (''rating'', CInt (fb_rating f)), (''comment'', maybe text_cell (fb_comment f))]"

definition account_cells :: "account \<Rightarrow> (string \<times> cell) list" where
  "account_cells a = [(''id'', CUuid), (''username'', text_cell (us_name a)), (''email'', text_cell (ac_email a)),
     (''hashed_password'', text_cell (ac_hash a)),
     (''role'', CEnum (case us_role a of RUser \<Rightarrow> ''user'' | RAgent \<Rightarrow> ''agent'' | RAdmin \<Rightarrow> ''admin'')),
     (''is_active'', CBool)]"

definition conversation_cells :: "conversation \<Rightarrow> (string \<times> cell) list" where
  "conversation_cells c = [(''id'', CUuid), (''user_id'', CUuid),
     (''status'', CEnum (case cv_status c of CActive \<Rightarrow> ''active'' | CClosed \<Rightarrow> ''closed'' | CTransferred \<Rightarrow> ''transferred'')),
     (''title'', maybe text_cell (cv_title c)), (''metadata'', maybe (\<lambda>_. CJson) (cv_meta c))]"

definition message_cells :: "message \<Rightarrow> (string \<times> cell) list" where
  "message_cells m = [(''id'', CUuid), (''conversation_id'', CUuid),
     (''role'', CEnum (case ms_role m of MUser \<Rightarrow> ''user'' | MAssistant \<Rightarrow> ''assistant'' | MSystem \<Rightarrow> ''system'' | MStaff \<Rightarrow> ''staff'')),
     (''content'', text_cell (ms_content m)), (''intent'', maybe text_cell (ms_intent m)),
     (''confidence'', maybe (\<lambda>_. CFloat) (ms_confidence m)), (''sources'', maybe (\<lambda>_. CJson) (ms_sources m)),
     (''metadata'', maybe (\<lambda>_. CJson) (ms_extra m))]"

definition gap_cells :: "gap \<Rightarrow> (string \<times> cell) list" where
  "gap_cells g = [(''id'', CUuid), (''question'', text_cell (gp_question g)), (''question_norm'', text_cell (gp_norm g)),
     (''question_hash'', text_cell (gp_hash g)),
     (''status'', CEnum (case gp_status g of GOpen \<Rightarrow> ''open'' | GPromoted \<Rightarrow> ''promoted'' | GDismissed \<Rightarrow> ''dismissed'')),
     (''frequency'', CInt (int (gp_frequency g))), (''signals'', CJson), (''last_intent'', maybe text_cell (gp_intent g)),
     (''example_conversation_id'', maybe (\<lambda>_. CUuid) (gp_conv g)), (''example_message_id'', maybe (\<lambda>_. CUuid) (gp_message g)),
     (''promoted_doc_id'', maybe (\<lambda>_. CUuid) (gp_doc g))]"

definition draft_cells :: "draft \<Rightarrow> (string \<times> cell) list" where
  "draft_cells d = [(''id'', CUuid), (''gap_id'', maybe (\<lambda>_. CUuid) (df_gap d)), (''question'', text_cell (df_question d)),
     (''answer'', text_cell (df_answer d)),
     (''status'', CEnum (case df_status d of DDraft \<Rightarrow> ''draft'' | DApproved \<Rightarrow> ''approved'' | DRejected \<Rightarrow> ''rejected'')),
     (''source_ticket_id'', maybe (\<lambda>_. CUuid) (df_ticket d)), (''source_conversation_id'', maybe (\<lambda>_. CUuid) (df_conv d)),
     (''synthesis'', maybe (\<lambda>_. CJson) (df_synthesis d)), (''created_by'', maybe (\<lambda>_. CUuid) (df_created_by d)),
     (''reviewed_by'', maybe (\<lambda>_. CUuid) (df_reviewed_by d)), (''published_doc_id'', maybe (\<lambda>_. CUuid) (df_doc d)),
     (''review_note'', maybe text_cell (df_note d))]"

definition template_cells :: "template \<Rightarrow> (string \<times> cell) list" where
  "template_cells t = [(''id'', CUuid), (''key'', text_cell (tp_key t)), (''variables'', CJson),
     (''active_version_id'', maybe (\<lambda>_. CUuid) (tp_active t)), (''is_active'', CBool)]"

definition version_cells :: "version_row \<Rightarrow> (string \<times> cell) list" where
  "version_cells v = [(''id'', CUuid), (''template_id'', CUuid), (''version'', CInt (int (vr_version v))),
     (''content'', text_cell (vr_content v)), (''created_by'', maybe (\<lambda>_. CUuid) (vr_by v)),
     (''comment'', maybe text_cell (vr_comment v))]"

subsection \<open>When a row fits\<close>

lemmas table_defs = model_def tab_def uuid_mixin_def timestamp_mixin_def col_def nul_def dft_def

lemma length_asc [simp]: "length (asc s) = length s"
  by (simp add: asc_def)

lemma maybe_fits: "cell_fits es c (maybe f x) \<longleftrightarrow> (x = None \<longrightarrow> co_null c) \<and> (\<forall>v \<in> set_option x. cell_fits es c (f v))"
  by (simp add: maybe_def split: option.split)

lemma text_fits: "cell_fits es c (text_cell s)
    \<longleftrightarrow> (case co_type c of TString k \<Rightarrow> length s \<le> k | TText \<Rightarrow> True | _ \<Rightarrow> False)"
  by (simp add: text_cell_def)

lemma enum_names:
  "status_name s \<in> {''pending'', ''processing'', ''resolved'', ''closed''}"
  "priority_name p \<in> {''low'', ''medium'', ''high'', ''urgent''}"
  "ho_name h \<in> {''queued'', ''claimed'', ''resolved'', ''returned'', ''timed_out''}"
  "doc_status_name d \<in> {''pending'', ''indexing'', ''active'', ''failed'', ''archived''}"
proof -
  show "status_name s \<in> {''pending'', ''processing'', ''resolved'', ''closed''}" by (cases s) simp_all
  show "priority_name p \<in> {''low'', ''medium'', ''high'', ''urgent''}" by (cases p) simp_all
  show "ho_name h \<in> {''queued'', ''claimed'', ''resolved'', ''returned'', ''timed_out''}" by (cases h) simp_all
  show "doc_status_name d \<in> {''pending'', ''indexing'', ''active'', ''failed'', ''archived''}" by (cases d) simp_all
qed

lemmas fits_defs = row_fits_def maybe_fits text_fits table_defs model_enums_def

lemma ticket_fits:
  "row_fits Ticket_model (ticket_cells t) \<longleftrightarrow>
     length (tk_type t) \<le> 100 \<and> length (tk_title t) \<le> 255 \<and> (\<forall>a \<in> set_option (tk_assignee t). length a \<le> 100)"
  using enum_names(1) [of "tk_status t"] enum_names(2) [of "tk_priority t"]
  by (simp add: fits_defs ticket_cells_def Ticket_model_def)

lemma handoff_fits:
  "row_fits HandoffSession_model (handoff_cells h) \<longleftrightarrow> (\<forall>u \<in> set_option (ho_assignee h). length (uuid_text u) \<le> 100)"
  using enum_names(3) [of "ho_status h"]
  by (simp add: fits_defs handoff_cells_def HandoffSession_model_def)

lemma audit_fits:
  "row_fits AuditLog_model (audit_cells a) \<longleftrightarrow> length (au_action a) \<le> 50 \<and> length (au_entity_type a) \<le> 50
     \<and> (\<forall>t \<in> set_option (au_trace a). length t \<le> 64)"
  by (cases "au_role a") (simp_all add: fits_defs audit_cells_def AuditLog_model_def role_name_def)

lemma document_fits:
  "row_fits Document_model (document_cells d) \<longleftrightarrow> length (dc_title d) \<le> 255
     \<and> (\<forall>s \<in> set_option (dc_source d). length s \<le> 255) \<and> (\<forall>p \<in> set_option (dc_path d). length p \<le> 500)
     \<and> dc_chunks d < 2 ^ 31"
  using enum_names(4) [of "dc_status d"]
  by (simp add: fits_defs document_cells_def Document_model_def)

lemma feedback_fits:
  "row_fits MessageFeedback_model (feedback_cells f) \<longleftrightarrow> - (2 ^ 15) \<le> fb_rating f \<and> fb_rating f < 2 ^ 15"
  by (simp add: fits_defs feedback_cells_def MessageFeedback_model_def)

lemma account_fits:
  "row_fits User_model (account_cells a) \<longleftrightarrow> length (us_name a) \<le> 100 \<and> length (ac_email a) \<le> 255 \<and> length (ac_hash a) \<le> 255"
  by (cases "us_role a") (simp_all add: fits_defs account_cells_def User_model_def)

lemma conversation_fits:
  "row_fits Conversation_model (conversation_cells c) \<longleftrightarrow> (\<forall>t \<in> set_option (cv_title c). length t \<le> 255)"
  by (cases "cv_status c") (simp_all add: fits_defs conversation_cells_def Conversation_model_def)

lemma message_fits:
  "row_fits Message_model (message_cells m) \<longleftrightarrow> (\<forall>l \<in> set_option (ms_intent m). length l \<le> 100)"
  by (cases "ms_role m") (simp_all add: fits_defs message_cells_def Message_model_def)

lemma gap_fits:
  "row_fits KnowledgeGap_model (gap_cells g) \<longleftrightarrow> length (gp_hash g) \<le> 64 \<and> gp_frequency g < 2 ^ 31
     \<and> (\<forall>l \<in> set_option (gp_intent g). length l \<le> 100)"
  by (cases "gp_status g") (auto simp: fits_defs gap_cells_def KnowledgeGap_model_def)

lemma draft_fits: "row_fits KnowledgeDraft_model (draft_cells d)"
  by (cases "df_status d") (simp_all add: fits_defs draft_cells_def KnowledgeDraft_model_def)

lemma template_fits: "row_fits PromptTemplate_model (template_cells t) \<longleftrightarrow> length (tp_key t) \<le> 100"
  by (simp add: fits_defs template_cells_def PromptTemplate_model_def)

lemma version_fits: "row_fits PromptVersion_model (version_cells v) \<longleftrightarrow> vr_version v < 2 ^ 31"
  by (auto simp: fits_defs version_cells_def PromptVersion_model_def)

subsection \<open>What the code writes\<close>

text \<open>The vocabularies of the columns \<open>action\<close> and \<open>entity_type\<close>.\<close>

definition ACTIONS :: "string list" where
  "ACTIONS = [''document.upload'', ''document.reindex'', ''document.index_failed'', ''document.delete'',
     ''intent.create'', ''intent.update'', ''intent.delete'', ''prompt.update'', ''prompt.activate'',
     ''ticket.status_change'']"

definition ENTITIES :: "string list" where
  "ENTITIES = [''document'', ''intent_config'', ''prompt_template'', ''ticket'']"

lemma agent_ticket_fits: "row_fits Ticket_model (ticket_cells (ticket_request e s u))"
proof -
  have "length (fst (or_else (map_of INTENT_TICKET_MAP l) (''general'', PMedium))) \<le> 100" for l
    by (simp add: INTENT_TICKET_MAP_def)
  then show ?thesis by (simp add: ticket_fits ticket_request_def new_ticket_def Let_def)
qed

lemma uuid_text_length: "u < 2 ^ 128 \<Longrightarrow> length (uuid_text u) = 36"
  using form_length [OF uuid_text_form] by simp

lemma escalation_fits:
  "ho_conv h < 2 ^ 128 \<Longrightarrow> row_fits Ticket_model (ticket_cells (escalation_ticket (e\<lparr>sw_text := uuid_text\<rparr>) c h))"
  by (simp add: ticket_fits escalation_ticket_def new_ticket_def escalation_title_def uuid_text_length)

lemma claimed_fits:
  "\<forall>u \<in> set_option (ho_assignee h). u < 2 ^ 128 \<Longrightarrow> row_fits HandoffSession_model (handoff_cells h)"
  by (simp add: handoff_fits uuid_text_length)

lemma audited_fits:
  assumes "ax_action ctx \<in> set ACTIONS" "ax_entity_type ctx \<in> set ENTITIES"
  shows "row_fits AuditLog_model (audit_cells (last (record_audit i now t ctx rows))) \<longleftrightarrow> length t \<le> 64"
  using assms by (auto simp: audit_fits record_audit_def ACTIONS_def ENTITIES_def)

lemma draft_document_fits:
  assumes "i < 2 ^ 128"
  shows "row_fits Document_model (document_cells (fst (doc_create n now (approve_title d)
     (Some KB_DOC_SOURCE) (Some (asc ''kb-'' @ uuid_text i @ asc ''.md'')) tags docs)))"
  by (simp add: document_fits doc_create_def approve_title_def DOCUMENT_TITLE_MAX_CHARS_def KB_DOC_SOURCE_def
      uuid_text_length [OF assms] Let_def del: take_append)

lemma upload_fits:
  "row_fits Document_model (document_cells (fst (create_pending_document i now title source filename u dp)))
   \<longleftrightarrow> length title \<le> 255 \<and> (\<forall>s \<in> set_option source. length s \<le> 255) \<and> length filename \<le> 500"
  by (simp add: create_pending_document_def doc_create_def Let_def document_fits set_tags_def)

lemma new_conversation_fits:
  "row_fits Conversation_model (conversation_cells (fst (conv_create i now v chat_title convs)))
     \<longleftrightarrow> (\<forall>x \<in> set_option chat_title. length x \<le> 255)"
  by (simp add: conversation_fits conv_create_def Let_def)



end
