(* ===== verification/Seeding.thy ===== *)
theory Seeding
  imports Access
begin

text \<open>
  The scripts that put the first rows into a database: \<open>scripts/create_user.py\<close> and
  \<open>scripts/seed_data.py\<close>. Both refuse a database that the migrations have not been run on, work in
  one session and commit at its end; printing is left out, and of a row's columns those that the
  other theories have are kept.

  Lemmas: what a run adds, that a second run adds nothing, that nothing an operator changed is
  overwritten, and that the seeded routes are the built-in ones.
\<close>

text \<open>\<open>sd_version\<close>: the table \<open>alembic_version\<close> may be missing or empty.\<close>

record seed_db =
  sd_version :: "string option option"
  sd_accounts :: "account list"
  sd_intents :: "intent_config list"

definition require_migrated :: "seed_db \<Rightarrow> exn option" where
  "require_migrated db = (case sd_version db of
     None \<Rightarrow> Some (Exn ''RuntimeError'' (asc ''Database is not initialized. Run 'make migrate' first.''))
   | Some None \<Rightarrow> Some (Exn ''RuntimeError'' (asc ''Database schema exists but is not tracked by Alembic. Run 'alembic stamp head' or recreate the database.''))
   | Some (Some v) \<Rightarrow> None)"

text \<open>\<open>get_by_username\<close> first: a user who is there is left alone. An exception rolls back.\<close>

definition ensure_user ::
  "token_env \<Rightarrow> uuid \<Rightarrow> ustr \<Rightarrow> ustr \<Rightarrow> ustr \<Rightarrow> user_role \<Rightarrow> account list \<Rightarrow> (exn + bool) \<times> account list" where
  "ensure_user T i name email password r rows =
     (case get_by_username name rows of
        Some a \<Rightarrow> (Inr False, rows)
      | None \<Rightarrow> map_prod (map_sum id (\<lambda>_. True)) id
          (user_create \<lparr>us_id = i, us_name = name, us_role = r, us_active = True, ac_email = email,
             ac_hash = tk_hash T password\<rparr> rows))"

definition create_user ::
  "token_env \<Rightarrow> uuid \<Rightarrow> ustr \<Rightarrow> ustr \<Rightarrow> ustr \<Rightarrow> user_role \<Rightarrow> seed_db \<Rightarrow> (exn + bool) \<times> seed_db" where
  "create_user T i name email password r db =
     (case require_migrated db of
        Some e \<Rightarrow> (Inl e, db)
      | None \<Rightarrow> (case ensure_user T i name email password r (sd_accounts db) of
            (Inl e, _) \<Rightarrow> (Inl e, db)
          | (Inr b, rows) \<Rightarrow> (Inr b, db\<lparr>sd_accounts := rows\<rparr>)))"

text \<open>Name, route, threshold and priority; the column \<open>is_active\<close> has its default.\<close>

definition INTENT_SEEDS :: "(string \<times> string \<times> real \<times> int) list" where
  "INTENT_SEEDS =
     [(''faq'', ''rag'', 7 / 10, 0), (''product'', ''rag'', 7 / 10, 1), (''order_query'', ''tool'', 7 / 10, 2),
      (''fault_report'', ''ticket'', 6 / 10, 3), (''complaint'', ''ticket'', 6 / 10, 4),
      (''handoff'', ''handoff'', 9 / 10, 10)]"

definition seed_row :: "uuid \<Rightarrow> string \<times> string \<times> real \<times> int \<Rightarrow> intent_config" where
  "seed_row i s = (case s of (n, r, th, p) \<Rightarrow>
     \<lparr>ic_id = i, ic_name = n, ic_route = r, ic_threshold = th, ic_active = True, ic_priority = p\<rparr>)"

fun seed_intents ::
  "(nat \<Rightarrow> uuid) \<Rightarrow> (nat \<times> string \<times> string \<times> real \<times> int) list \<Rightarrow> intent_config list \<Rightarrow> (exn + unit) \<times> intent_config list" where
  "seed_intents ids [] rows = (Inr (), rows)"
| "seed_intents ids ((k, s) # ss) rows =
     (case row_of ic_name (fst s) rows of
        Some c \<Rightarrow> seed_intents ids ss rows
      | None \<Rightarrow> (case intent_create (seed_row (ids k) s) rows of
            (Inl e, rows1) \<Rightarrow> (Inl e, rows1)
          | (Inr c, rows1) \<Rightarrow> seed_intents ids ss rows1))"

definition seed_users :: "token_env \<Rightarrow> (nat \<Rightarrow> uuid) \<Rightarrow> account list \<Rightarrow> (exn + unit) \<times> account list" where
  "seed_users T ids rows =
     (case ensure_user T (ids 0) (asc ''admin'') (asc ''admin@askflow.local'') (asc ''admin123'') RAdmin rows of
        (Inl e, rows1) \<Rightarrow> (Inl e, rows1)
      | (Inr _, rows1) \<Rightarrow> map_prod (map_sum id (\<lambda>_. ())) id
          (ensure_user T (ids 1) (asc ''user1'') (asc ''user1@askflow.local'') (asc ''user123'') RUser rows1))"

definition seed :: "token_env \<Rightarrow> (nat \<Rightarrow> uuid) \<Rightarrow> seed_db \<Rightarrow> (exn + unit) \<times> seed_db" where
  "seed T ids db =
     (case require_migrated db of
        Some e \<Rightarrow> (Inl e, db)
      | None \<Rightarrow> (case seed_users T ids (sd_accounts db) of
            (Inl e, _) \<Rightarrow> (Inl e, db)
          | (Inr _, accounts) \<Rightarrow>
              (case seed_intents (\<lambda>k. ids (k + 2)) (zip [0 ..< length INTENT_SEEDS] INTENT_SEEDS) (sd_intents db) of
                (Inl e, _) \<Rightarrow> (Inl e, db)
              | (Inr _, intents) \<Rightarrow> (Inr (), db\<lparr>sd_accounts := accounts, sd_intents := intents\<rparr>))))"

subsection \<open>What a run adds\<close>

lemma by_name: "get_by_username n rows = None \<longleftrightarrow> n \<notin> us_name ` set rows"
  by (simp add: get_by_username_def row_of_None)

lemma ensure_user_cases:
  "ensure_user T i n m p r rows =
     (if n \<in> us_name ` set rows then (Inr False, rows)
      else if m \<in> ac_email ` set rows then (Inl INTEGRITY, rows)
      else (Inr True, rows @ [\<lparr>us_id = i, us_name = n, us_role = r, us_active = True, ac_email = m, ac_hash = tk_hash T p\<rparr>]))"
  using by_name [of n rows]
  by (cases "get_by_username n rows") (auto simp: ensure_user_def user_create_def)

definition missing :: "intent_config list \<Rightarrow> (nat \<times> string \<times> string \<times> real \<times> int) list
    \<Rightarrow> (nat \<times> string \<times> string \<times> real \<times> int) list" where
  "missing rows ss = filter (\<lambda>(k, s). fst s \<notin> ic_name ` set rows) ss"

lemma seed_row_name [simp]: "ic_name (seed_row i s) = fst s"
  by (simp add: seed_row_def split: prod.split)

lemma missing_names:
  assumes "snd ` set z = set ss"
  shows "ic_name ` set (map (\<lambda>(k, s). seed_row (f k) s) (missing rows z)) = fst ` set ss - ic_name ` set rows"
proof -
  have "ic_name ` set (map (\<lambda>(k, s). seed_row (f k) s) (missing rows z)) = fst ` (snd ` set (missing rows z))"
    by (simp add: image_image case_prod_unfold)
  also have "set (missing rows z) = {x \<in> set z. fst (snd x) \<notin> ic_name ` set rows}"
    by (simp add: missing_def case_prod_unfold)
  also have "snd ` \<dots> = {s \<in> snd ` set z. fst s \<notin> ic_name ` set rows}" by blast
  also have "fst ` \<dots> = fst ` set ss - ic_name ` set rows" unfolding assms by auto
  finally show ?thesis .
qed

lemma seed_intents_adds:
  "distinct (map (fst \<circ> snd) ss) \<Longrightarrow>
   seed_intents ids ss rows = (Inr (), rows @ map (\<lambda>(k, s). seed_row (ids k) s) (missing rows ss))"
proof (induction ids ss rows rule: seed_intents.induct)
  case (2 ids k s ss rows)
  show ?case
  proof (cases "fst s \<in> ic_name ` set rows")
    case True
    then obtain c where "row_of ic_name (fst s) rows = Some c"
      using row_of_None [of ic_name "fst s" rows] by (cases "row_of ic_name (fst s) rows") auto
    then show ?thesis using 2 True by (simp add: missing_def)
  next
    case False
    then have none: "row_of ic_name (fst s) rows = None" by (simp add: row_of_None)
    let ?rows = "rows @ [seed_row (ids k) s]"
    have "missing ?rows ss = missing rows ss"
      using 2(3) by (force simp: missing_def intro: filter_cong)
    with 2 False none show ?thesis by (simp add: missing_def intent_create_def)
  qed
qed (simp add: missing_def)
lemma seed_names: "distinct (map (fst \<circ> snd) (zip [0 ..< length INTENT_SEEDS] INTENT_SEEDS))"
  by (simp add: INTENT_SEEDS_def upt_rec)

definition accounts_ok :: "account list \<Rightarrow> bool" where
  "accounts_ok rows \<longleftrightarrow> distinct (map us_name rows) \<and> distinct (map ac_email rows)"

text \<open>What a script leaves of the accounts: nothing changed, the names asked for are there.\<close>

definition users_added :: "ustr list \<Rightarrow> account list \<Rightarrow> account list \<Rightarrow> bool" where
  "users_added names rows rows' \<longleftrightarrow> (\<exists>us. rows' = rows @ us \<and> us_name ` set us = set names - us_name ` set rows)
     \<and> (accounts_ok rows \<longrightarrow> accounts_ok rows')"

lemma ensure_user_adds:
  "ensure_user T i n m p r rows = (Inr b, rows') \<Longrightarrow> users_added [n] rows rows' \<and> b = (n \<notin> us_name ` set rows)"
  by (auto simp: ensure_user_cases users_added_def accounts_ok_def split: if_splits)

lemma users_added_trans:
  assumes "users_added ns a b" "users_added ms b c"
  shows "users_added (ns @ ms) a c"
proof -
  obtain us vs where u: "b = a @ us" "us_name ` set us = set ns - us_name ` set a"
    "c = b @ vs" "us_name ` set vs = set ms - us_name ` set b"
    using assms by (auto simp: users_added_def)
  have "us_name ` set (us @ vs) = set (ns @ ms) - us_name ` set a"
    using u by (auto simp: image_Un)
  then show ?thesis using assms u by (auto simp: users_added_def intro!: exI [of _ "us @ vs"])
qed

lemma forget_Inr: "map_prod (map_sum id (\<lambda>_. ())) id p = (Inr u, r) \<longleftrightarrow> (\<exists>c. p = (Inr c, r))"
  by (cases p; cases "fst p") auto

lemma seed_users_adds:
  assumes "seed_users T ids rows = (Inr x, rows')"
  shows "users_added [asc ''admin'', asc ''user1''] rows rows'"
proof -
  obtain b rows1 c where r: "ensure_user T (ids 0) (asc ''admin'') (asc ''admin@askflow.local'') (asc ''admin123'') RAdmin rows = (Inr b, rows1)"
    "ensure_user T (ids 1) (asc ''user1'') (asc ''user1@askflow.local'') (asc ''user123'') RUser rows1 = (Inr c, rows')"
    using assms by (auto simp: seed_users_def forget_Inr split: prod.splits sum.splits)
  show ?thesis using users_added_trans [of "[asc ''admin'']" rows rows1 "[asc ''user1'']" rows']
      ensure_user_adds [OF r(1)] ensure_user_adds [OF r(2)] by simp
qed

lemma users_there:
  assumes "users_added ns rows rows'" shows "set ns \<subseteq> us_name ` set rows'"
proof -
  obtain us where "rows' = rows @ us" "us_name ` set us = set ns - us_name ` set rows"
    using assms by (auto simp: users_added_def)
  then show ?thesis by (simp add: image_Un)
qed

lemma seed_users_again:
  assumes "asc ''admin'' \<in> us_name ` set rows" "asc ''user1'' \<in> us_name ` set rows"
  shows "seed_users T ids rows = (Inr (), rows)"
  using assms by (simp add: seed_users_def ensure_user_cases)

lemma all_seeded:
  assumes "fst ` set INTENT_SEEDS \<subseteq> ic_name ` set rows"
  shows "seed_intents ids (zip [0 ..< length INTENT_SEEDS] INTENT_SEEDS) rows = (Inr (), rows)"
proof -
  have "missing rows (zip [0 ..< length INTENT_SEEDS] INTENT_SEEDS) = []"
    using assms by (auto simp: missing_def filter_empty_conv dest: set_zip_rightD)
  then show ?thesis by (simp add: seed_intents_adds [OF seed_names])
qed

lemma fresh_intents:
  "snd (seed_intents ids (zip [0 ..< length INTENT_SEEDS] INTENT_SEEDS) []) =
     map (\<lambda>(k, s). seed_row (ids k) s) (zip [0 ..< length INTENT_SEEDS] INTENT_SEEDS)"
  by (simp add: seed_intents_adds [OF seed_names] missing_def)

lemma seeded_routes:
  "w_intents w = map (\<lambda>(k, s). seed_row (ids k) s) (zip [0 ..< length INTENT_SEEDS] INTENT_SEEDS) \<Longrightarrow>
   route_map_loader True w = rev FALLBACK_ROUTES"
  by (simp add: INTENT_SEEDS_def FALLBACK_ROUTES_def route_map_loader_def intents_active_def seed_row_def upt_rec)

lemma same_routes: "route_by_intent s (Some (rev FALLBACK_ROUTES)) = route_by_intent s None"
proof -
  have "map_of (rev FALLBACK_ROUTES) l = map_of FALLBACK_ROUTES l" for l
    by (simp add: FALLBACK_ROUTES_def)
  moreover have "FALLBACK_ROUTES \<noteq> []" by (simp add: FALLBACK_ROUTES_def)
  ultimately show ?thesis by (cases "intent s") (simp_all add: route_by_intent_def Let_def)
qed

lemma seed_Inr:
  assumes "seed T ids db = (Inr x, db')"
  shows "\<exists>y us ins. require_migrated db = None \<and> seed_users T ids (sd_accounts db) = (Inr y, us)
     \<and> ins = map (\<lambda>(k, s). seed_row (ids (k + 2)) s) (missing (sd_intents db) (zip [0 ..< length INTENT_SEEDS] INTENT_SEEDS))
     \<and> db' = db\<lparr>sd_accounts := us, sd_intents := sd_intents db @ ins\<rparr>"
proof (cases "require_migrated db")
  case None
  obtain y us where u: "seed_users T ids (sd_accounts db) = (y, us)" by (cases "seed_users T ids (sd_accounts db)")
  show ?thesis using assms None u
    by (cases y) (simp_all add: seed_def seed_intents_adds [OF seed_names])
qed (use assms in \<open>simp add: seed_def\<close>)

text \<open>
  Seeding. On a database without the migrations the script stops, and whenever it stops nothing
  is changed. Otherwise it appends the accounts and intents that are missing and touches no other
  row, so what an operator changed stays; names and addresses stay unique; and every further
  run, with whatever secrets and identifiers, changes nothing. On an empty intent table the
  stored routes then send every classified message where the built-in table sends it, so the
  seeding changes no answer.
\<close>

theorem seeding_once:
  assumes "seed T ids db = (r, db')"
  shows "case r of
      Inl e \<Rightarrow> db' = db \<and> (require_migrated db = Some e \<or> require_migrated db = None \<and> e = INTEGRITY)
    | Inr _ \<Rightarrow> require_migrated db = None \<and> sd_version db' = sd_version db
        \<and> users_added [asc ''admin'', asc ''user1''] (sd_accounts db) (sd_accounts db')
        \<and> (\<exists>ins. sd_intents db' = sd_intents db @ ins
             \<and> ic_name ` set ins = fst ` set INTENT_SEEDS - ic_name ` set (sd_intents db))
        \<and> seed T' ids' db' = (Inr (), db')
        \<and> (sd_intents db = [] \<longrightarrow> route_by_intent s (Some (route_map_loader True (w\<lparr>w_intents := sd_intents db'\<rparr>)))
             = route_by_intent s None)"
proof (cases r)
  case (Inl e)
  have "e = INTEGRITY" if "seed_users T ids rows = (Inl e, x)" for rows x
    using that by (auto simp: seed_users_def ensure_user_cases split: if_splits)
  moreover obtain y us where u: "seed_users T ids (sd_accounts db) = (y, us)"
    by (cases "seed_users T ids (sd_accounts db)")
  ultimately show ?thesis using assms Inl
    by (cases "require_migrated db"; cases y) (auto simp: seed_def seed_intents_adds [OF seed_names])
next
  case (Inr u)
  let ?z = "zip [0 ..< length INTENT_SEEDS] INTENT_SEEDS"
  obtain y us ins where s: "require_migrated db = None" "seed_users T ids (sd_accounts db) = (Inr y, us)"
    "ins = map (\<lambda>(k, s). seed_row (ids (k + 2)) s) (missing (sd_intents db) ?z)"
    "db' = db\<lparr>sd_accounts := us, sd_intents := sd_intents db @ ins\<rparr>"
    using seed_Inr [of T ids db u db'] assms Inr by auto
  have users: "users_added [asc ''admin'', asc ''user1''] (sd_accounts db) us" by (rule seed_users_adds [OF s(2)])
  have "snd ` set ?z = set INTENT_SEEDS" by (simp flip: set_map)
  from missing_names [OF this, of "\<lambda>k. ids (k + 2)" "sd_intents db"]
  have names: "ic_name ` set ins = fst ` set INTENT_SEEDS - ic_name ` set (sd_intents db)"
    unfolding s(3) .
  have again: "seed_users T' ids' us = (Inr (), us)" using users_there [OF users] by (intro seed_users_again) simp_all
  have "seed T' ids' db' = (Inr (), db')"
  proof -
    have "seed_intents (\<lambda>k. ids' (k + 2)) (zip [0 ..< length INTENT_SEEDS] INTENT_SEEDS) (sd_intents db @ ins)
        = (Inr (), sd_intents db @ ins)"
      by (rule all_seeded) (use names in auto)
    moreover have "require_migrated db' = None" using s(1,4) by (simp add: require_migrated_def)
    ultimately show ?thesis using again by (simp add: seed_def s(4))
  qed
  moreover have "route_by_intent s (Some (route_map_loader True (w\<lparr>w_intents := sd_intents db'\<rparr>))) = route_by_intent s None"
    if "sd_intents db = []"
    using that s(3,4) seeded_routes [of "w\<lparr>w_intents := sd_intents db'\<rparr>" "\<lambda>k. ids (k + 2)"] same_routes
    by (simp add: missing_def)
  ultimately show ?thesis using s users names Inr by (auto intro!: exI [of _ ins])
qed

definition plain_tokens :: token_env where
  "plain_tokens = \<lparr>tk_encode = \<lambda>c. [], tk_decode = \<lambda>_ _. None, tk_hash = rev, tk_verify = \<lambda>p h. rev p = h, tk_expire_minutes = 30\<rparr>"

theorem seeding_once_witness:
  "fst (seed plain_tokens id \<lparr>sd_version = Some (Some ''20260711_01''), sd_accounts = [], sd_intents = []\<rparr>) = Inr ()
   \<and> (let db = snd (seed plain_tokens id \<lparr>sd_version = Some (Some ''20260711_01''), sd_accounts = [], sd_intents = []\<rparr>)
      in seed plain_tokens (\<lambda>k. k + 50) db = (Inr (), db))"
proof -
  let ?db = "\<lparr>sd_version = Some (Some ''20260711_01''), sd_accounts = [], sd_intents = []\<rparr>"
  obtain r db' where run: "seed plain_tokens id ?db = (r, db')" by (cases "seed plain_tokens id ?db")
  have "r = Inr ()" using run
    by (auto simp: seed_def require_migrated_def seed_users_def ensure_user_cases seed_intents_adds [OF seed_names] asc_def)
  with run seeding_once [OF run, of plain_tokens "\<lambda>k. k + 50"] show ?thesis by (simp add: Let_def)
qed

end
