(* ===== verification/Endpoints.thy ===== *)
theory Endpoints
  imports Columns Seeding
begin

text \<open>
  The endpoints that stand between components: the two conversation endpoints that create and list
  (\<open>chat/router.py\<close>), the classification endpoint (\<open>agent/router.py\<close>), both WebSocket routes with
  the rule that mounts the older one, the notice of a ticket's change (\<open>ticket/notifier.py\<close>), and
  the client of the language model (\<open>rag/llm_client.py\<close>) over an HTTP answer, with its counters.

  Lemmas: a new conversation heads its owner's list and is in nobody else's, both WebSocket routes
  and the bearer header admit the same accounts, a ticket notice stays in its worker, and which
  answers of the model count as failures.
\<close>

subsection \<open>Conversations\<close>

definition create_conversation ::
  "uuid \<Rightarrow> int \<Rightarrow> ustr option \<Rightarrow> uuid \<Rightarrow> conversation list \<Rightarrow> conversation \<times> conversation list" where
  "create_conversation i now title u convs = conv_create i now u title convs"

definition list_conversations ::
  "int \<Rightarrow> int \<Rightarrow> uuid \<Rightarrow> conversation list \<Rightarrow> message list \<Rightarrow> err + (conversation \<times> ustr option) list" where
  "list_conversations limit offset u convs msgs =
     (if \<not> (0 < limit \<and> limit \<le> 100 \<and> 0 \<le> offset) then Inl Unprocessable
      else Inr (conv_list_by_user u (nat limit) (nat offset) convs msgs))"

lemma listed_first:
  fixes x :: 'r and key :: "'r \<Rightarrow> int"
  assumes "\<forall>y \<in> set ys. key y < key x"
  shows "newest_first key (ys @ [x]) = x # newest_first key ys"
proof -
  have "sort_key (\<lambda>x. - key x) (ys @ [x]) = x # sort_key (\<lambda>x. - key x) ys" using assms
  proof (induction ys)
    case (Cons y ys)
    then show ?case by simp
  qed simp
  then show ?thesis by (simp add: newest_first_def)
qed

lemma new_conversation_listed:
  assumes "create_conversation i now title u convs = (c, convs')"
    and "\<forall>d \<in> set convs. cv_user d = u \<longrightarrow> cv_updated d < now" "\<forall>m \<in> set msgs. ms_conv m \<noteq> i"
  shows "list_conversations limit 0 u convs' msgs = (if 0 < limit \<and> limit \<le> 100
       then Inr ((c, None) # conv_list_by_user u (nat (limit - 1)) 0 convs msgs) else Inl Unprocessable)
     \<and> (v \<noteq> u \<longrightarrow> list_conversations limit offset v convs' msgs = list_conversations limit offset v convs msgs)"
proof -
  have c: "convs' = convs @ [c]" "cv_user c = u" "cv_id c = i" "cv_updated c = now"
    using assms(1) by (auto simp: create_conversation_def conv_create_def Let_def)
  have first: "newest_first cv_updated (filter (\<lambda>d. cv_user d = u) convs @ [c])
      = c # newest_first cv_updated (filter (\<lambda>d. cv_user d = u) convs)"
    using assms(2) c(4) by (intro listed_first) auto
  have none: "newest_first ms_created (filter (\<lambda>m. ms_conv m = i) msgs) = []"
    using assms(3) by (simp add: newest_first_def filter_False)
  have "nat limit = Suc (nat (limit - 1))" if "0 < limit" using that by simp
  with first none c show ?thesis
    by (auto simp: list_conversations_def conv_list_by_user_def page_def)
qed

subsection \<open>Classification\<close>

definition classify_intent ::
  "'c boot \<Rightarrow> intent_env \<Rightarrow> ustr \<Rightarrow> 'c worker \<Rightarrow> (exn + intent_result) \<times> 'c worker" where
  "classify_intent B e msg p = (case get_agent_service B p of
     (Inl x, p1) \<Rightarrow> (Inl x, p1) | (Inr _, p1) \<Rightarrow> (Inr (classify e msg), p1))"

text \<open>In a worker that has started the endpoint answers and assembles nothing.\<close>

lemma classify_when_started:
  "lifespan_start S B (new_process dp) = (None, p) \<Longrightarrow> classify_intent B' e msg p = (Inr (classify e msg), p)"
  by (drule startE) (auto simp: classify_intent_def get_agent_service_def)

subsection \<open>The two WebSocket routes\<close>

text \<open>
  \<open>/ws\<close> takes the token in its first frame; \<open>/ws/{token}\<close> takes it from the URL and exists only
  in development. A client of a route that does not exist is not connected.
\<close>

datatype ws_client = ByFrame first_frame | ByUrl ustr

definition websocket_endpoint_legacy :: "token_env \<Rightarrow> int \<Rightarrow> ustr \<Rightarrow> account list \<Rightarrow> handshake" where
  "websocket_endpoint_legacy T now token rows =
     (case authenticate_token T now token rows of None \<Rightarrow> ClosedWith ''Invalid token'' | Some u \<Rightarrow> Serving u)"

definition legacy_mounted :: "settings \<Rightarrow> bool" where
  "legacy_mounted S \<longleftrightarrow> cf_app_env S = ''development''"

definition ws_connect :: "settings \<Rightarrow> token_env \<Rightarrow> int \<Rightarrow> ws_client \<Rightarrow> account list \<Rightarrow> handshake option" where
  "ws_connect S T now c rows = (case c of
       ByFrame fr \<Rightarrow> Some (websocket_endpoint T now fr rows)
     | ByUrl token \<Rightarrow> if legacy_mounted S then Some (websocket_endpoint_legacy T now token rows) else None)"

fun token_of :: "ws_client \<Rightarrow> ustr option" where
  "token_of (ByFrame (FirstAuth t)) = t"
| "token_of (ByFrame _) = None"
| "token_of (ByUrl t) = Some t"

lemma connected_account:
  "ws_connect S T now c rows = Some (Serving u) \<Longrightarrow>
     \<exists>token a. token_of c = Some token \<and> token_user T now token rows = Some a \<and> us_id a = u"
  by (cases c) (auto simp: ws_connect_def websocket_endpoint_legacy_def authenticate_token_def
      dest: serving_account split: if_splits option.splits)

lemma frame_serves:
  "token \<noteq> [] \<Longrightarrow> ws_connect S T now (ByFrame (FirstAuth (Some token))) rows = Some (Serving u)
     \<longleftrightarrow> (\<exists>a. token_user T now token rows = Some a \<and> us_id a = u)"
  by (auto simp: ws_connect_def websocket_endpoint_def authenticate_token_def or_else_def split: option.splits)

lemma url_serves:
  "ws_connect S T now (ByUrl token) rows = Some (Serving u)
     \<longleftrightarrow> legacy_mounted S \<and> (\<exists>a. token_user T now token rows = Some a \<and> us_id a = u)"
  by (auto simp: ws_connect_def websocket_endpoint_legacy_def authenticate_token_def split: option.splits)

lemma bearer_nonempty: "extract_bearer_token header = Some token \<Longrightarrow> token \<noteq> []"
  by (auto simp: extract_bearer_token_def Let_def split: if_splits)

text \<open>
  C14: who is served. A worker that starts outside of development has a secret of its own and no
  route that takes a token from the URL. By whichever route a client comes, it is served only as
  an active account that its token names, the older route admits exactly whom the first
  frame admits, and a bearer header admits exactly the accounts whose token the socket serves. The token
  of a log-in is served until it expires, unless the account has been deactivated meanwhile.
\<close>

theorem served_accounts:
  assumes "lifespan_start S B (new_process dp) = (None, p)"
    and "login T now name pw rows = ApiData tok" "distinct (map us_id rows)"
    and "later < now + 60 * tk_expire_minutes T" "tok \<noteq> []"
    and decodes: "\<And>i r e. later < e \<Longrightarrow>
      tk_decode T later (tk_encode T \<lparr>cl_sub = Hex i, cl_role = r, cl_exp = e\<rparr>) = Some (Hex i)"
  shows "(cf_app_env S \<noteq> ''development'' \<longrightarrow>
         cf_secret_key S \<noteq> DEFAULT_SECRET_KEY \<and> ws_connect S T' t (ByUrl token) rows' = None)
   \<and> (ws_connect S T' t c rows' = Some (Serving u) \<longrightarrow>
        (\<exists>token i a. token_of c = Some token \<and> tk_decode T' t token = Some (Hex i) \<and> a \<in> set rows'
           \<and> us_id a = i \<and> us_active a \<and> u = us_id a))
   \<and> (legacy_mounted S \<longrightarrow> token \<noteq> [] \<longrightarrow>
        (ws_connect S T' t (ByUrl token) rows' = Some (Serving u)
          \<longleftrightarrow> ws_connect S T' t (ByFrame (FirstAuth (Some token))) rows' = Some (Serving u)))
   \<and> (extract_bearer_token header = Some token \<longrightarrow>
        ((\<exists>a. get_current_user T' t header rows' = Inr a \<and> us_id a = u)
          \<longleftrightarrow> ws_connect S T' t (ByFrame (FirstAuth (Some token))) rows' = Some (Serving u)))
   \<and> (\<exists>a \<in> set rows. us_name a = name \<and> tk_verify T pw (ac_hash a)
        \<and> (ws_connect S T later (ByFrame (FirstAuth (Some tok))) rows = Some (Serving (us_id a)) \<longleftrightarrow> us_active a))"
proof (intro conjI impI)
  have safe: "assert_production_safe_settings S = None" using startE [OF assms(1)] by blast
  then show "cf_secret_key S \<noteq> DEFAULT_SECRET_KEY" if "cf_app_env S \<noteq> ''development''"
    using that by (auto simp: assert_production_safe_settings_def split: if_splits)
  show "ws_connect S T' t (ByUrl token) rows' = None" if "cf_app_env S \<noteq> ''development''"
    using that by (simp add: ws_connect_def legacy_mounted_def)
  show "\<exists>token i a. token_of c = Some token \<and> tk_decode T' t token = Some (Hex i) \<and> a \<in> set rows'
      \<and> us_id a = i \<and> us_active a \<and> u = us_id a" if "ws_connect S T' t c rows' = Some (Serving u)"
    using connected_account [OF that] by (fastforce simp: token_user_iff dest: row_of_Some)
  show "ws_connect S T' t (ByUrl token) rows' = Some (Serving u)
      \<longleftrightarrow> ws_connect S T' t (ByFrame (FirstAuth (Some token))) rows' = Some (Serving u)"
    if "legacy_mounted S" "token \<noteq> []"
    using that by (simp add: frame_serves url_serves)
  show "(\<exists>a. get_current_user T' t header rows' = Inr a \<and> us_id a = u)
      \<longleftrightarrow> ws_connect S T' t (ByFrame (FirstAuth (Some token))) rows' = Some (Serving u)"
    if "extract_bearer_token header = Some token"
    using that frame_serves [OF bearer_nonempty [OF that]] by (simp add: current_user_iff)
  obtain a where a: "a \<in> set rows" "us_name a = name" "tk_verify T pw (ac_hash a)"
    "token_user T later tok rows = (if us_active a then Some a else None)"
    using login_token_accepted [OF assms(2-4) decodes] by blast
  then show "\<exists>a \<in> set rows. us_name a = name \<and> tk_verify T pw (ac_hash a)
      \<and> (ws_connect S T later (ByFrame (FirstAuth (Some tok))) rows = Some (Serving (us_id a)) \<longleftrightarrow> us_active a)"
    using frame_serves [OF assms(5)] by (intro bexI [of _ a]) auto
qed

lemma calm_start:
  "\<exists>p. lifespan_start (default_settings\<lparr>cf_app_env := ''development''\<rparr>) calm_boot (new_process sample_depot) = (None, p)"
proof -
  let ?S = "default_settings\<lparr>cf_app_env := ''development''\<rparr>"
  have "length (list_requeue_candidates m n (docs_of sample_depot)) \<le> 1" for m n
    by (simp add: docs_of_def sample_depot_def list_requeue_candidates_def)
  then have "length (list_requeue_candidates m n (docs_of sample_depot)) \<le> 10" for m n
    using le_trans one_le_numeral by blast
  then have "fst (lifespan_start ?S calm_boot (new_process sample_depot)) = None"
    by (intro start_succeeds) (simp_all add: assert_production_safe_settings_def calm_boot_def)
  then show ?thesis by (metis prod.collapse)
qed

definition numbered_tokens :: token_env where
  "numbered_tokens = \<lparr>tk_encode = \<lambda>c. (case cl_sub c of Hex i \<Rightarrow> [i, nat (cl_exp c)] | Raw s \<Rightarrow> []),
     tk_decode = \<lambda>now t. (case t of [i, e] \<Rightarrow> if now < int e then Some (Hex i) else None | _ \<Rightarrow> None),
     tk_hash = rev, tk_verify = \<lambda>p h. rev p = h, tk_expire_minutes = 30\<rparr>"

definition ada :: account where
  "ada = \<lparr>us_id = 7, us_name = asc ''ada'', us_role = RUser, us_active = True, ac_email = asc ''a@b'', ac_hash = [2, 1]\<rparr>"

theorem served_accounts_witness:
  "ws_connect (default_settings\<lparr>cf_app_env := ''development''\<rparr>) numbered_tokens 100
     (ByFrame (FirstAuth (Some [7, 1800]))) [ada] = Some (Serving 7)"
proof -
  let ?S = "default_settings\<lparr>cf_app_env := ''development''\<rparr>"
  obtain p where ok: "lifespan_start ?S calm_boot (new_process sample_depot) = (None, p)" using calm_start by blast
  have l: "login numbered_tokens 0 (asc ''ada'') [1, 2] [ada] = ApiData [7, 1800]"
    by (simp add: login_def get_by_username_def row_of_def ada_def numbered_tokens_def create_access_token_def)
  have d: "(100::int) < e \<Longrightarrow> tk_decode numbered_tokens 100 (tk_encode numbered_tokens \<lparr>cl_sub = Hex i, cl_role = x, cl_exp = e\<rparr>)
      = Some (Hex i)" for i x e
    by (simp add: numbered_tokens_def)
  have "(100::int) < 0 + 60 * tk_expire_minutes numbered_tokens" by (simp add: numbered_tokens_def)
  from served_accounts [OF ok l _ this _ d, THEN conjunct2, THEN conjunct2, THEN conjunct2, THEN conjunct2]
  show ?thesis by (simp add: ada_def)
qed

subsection \<open>The notice of a ticket's change\<close>

text \<open>Sent through the manager of the worker that handles the request, the \<open>n\<close>-th.\<close>

definition notify_ticket_update ::
  "nat \<Rightarrow> uuid \<Rightarrow> uuid \<Rightarrow> ticket_status \<Rightarrow> uuid option \<Rightarrow> manager list \<Rightarrow> (nat \<times> frame) set list" where
  "notify_ticket_update n u ticket st conv workers =
     map (\<lambda>(k, m). if k = n then (\<lambda>x. (x, FTicketUpdate conv ticket st)) ` mg_receivers u m else {})
       (zip [0 ..< length workers] workers)"

text \<open>
  A connection hears of the change exactly when it is the user's and held by that worker; the push
  channel would have reached every connection of the user.
\<close>

lemma notice_stays:
  assumes "k < length workers"
  shows "(x, f) \<in> notify_ticket_update n u ticket st conv workers ! k
     \<longleftrightarrow> k = n \<and> x \<in> mg_receivers u (workers ! k) \<and> f = FTicketUpdate conv ticket st"
    and "(x, f) \<in> publish_user_push True u f workers ! k \<longleftrightarrow> x \<in> mg_receivers u (workers ! k)"
  using assms by (auto simp: notify_ticket_update_def publish_user_push_def forward_push_def)

subsection \<open>The client of the language model\<close>

text \<open>\<open>LLM_REQUEST_FAILURES\<close> by operation and \<open>LLM_TOKEN_COUNT\<close> by type.\<close>

record llm_counts =
  lc_chat_failed :: nat
  lc_stream_failed :: nat
  lc_prompt :: real
  lc_completion :: real

definition json_get :: "string \<Rightarrow> json \<Rightarrow> json option" where
  "json_get k j = (case j of JDict d \<Rightarrow> map_of d k | _ \<Rightarrow> None)"

text \<open>\<open>data["choices"][0]\<close>, and what a counter accepts; \<open>None\<close> is an exception.\<close>

definition first_choice :: "json \<Rightarrow> json option" where
  "first_choice data = (case json_get ''choices'' data of Some (JList (c # _)) \<Rightarrow> Some c | _ \<Rightarrow> None)"

fun counter_amount :: "json \<Rightarrow> real option" where
  "counter_amount (JInt i) = (if i < 0 then None else Some (of_int i))"
| "counter_amount (JReal r) = (if r < 0 then None else Some r)"
| "counter_amount (JBool b) = Some (if b then 1 else 0)"
| "counter_amount _ = None"

text \<open>The prompt's tokens are counted before the completion's are read; \<open>False\<close> is an exception.\<close>

definition count_usage :: "json option \<Rightarrow> llm_counts \<Rightarrow> bool \<times> llm_counts" where
  "count_usage usage c =
     (if \<not> truthy (or_else usage JNull) then (True, c)
      else case or_else usage JNull of
        JDict d \<Rightarrow>
          (case counter_amount (or_else (map_of d ''prompt_tokens'') (JInt 0)) of
             None \<Rightarrow> (False, c)
           | Some p \<Rightarrow>
              (let c1 = c\<lparr>lc_prompt := lc_prompt c + p\<rparr> in
               case counter_amount (or_else (map_of d ''completion_tokens'') (JInt 0)) of
                 None \<Rightarrow> (False, c1)
               | Some q \<Rightarrow> (True, c1\<lparr>lc_completion := lc_completion c1 + q\<rparr>)))
      | _ \<Rightarrow> (False, c))"

text \<open>One request; the answer of a failed one is nothing.\<close>

definition llm_chat :: "http_reply \<Rightarrow> llm_counts \<Rightarrow> json option \<times> llm_counts" where
  "llm_chat reply c =
     (case reply of
        HttpFail _ \<Rightarrow> (None, c)
      | HttpStatus _ _ \<Rightarrow> (None, c\<lparr>lc_chat_failed := lc_chat_failed c + 1\<rparr>)
      | HttpBody None _ \<Rightarrow> (None, c)
      | HttpBody (Some data) _ \<Rightarrow>
         (case Option.bind (Option.bind (first_choice data) (json_get ''message'')) (json_get ''content'') of
            None \<Rightarrow> (None, c)
          | Some content \<Rightarrow> (let (ok, c1) = count_usage (json_get ''usage'' data) c in
              (if ok then Some content else None, c1))))"

text \<open>
  The text of a chunk: nothing when reading it raises, empty when there is none. A text that is not
  a string would be handed on as it is; the providers send none.
\<close>

definition chunk_text_of :: "(ustr \<Rightarrow> json option) \<Rightarrow> ustr \<Rightarrow> ustr option" where
  "chunk_text_of loads payload =
     (case Option.bind (loads payload) first_choice of
        Some (JDict d) \<Rightarrow> (case or_else (map_of d ''delta'') (JDict []) of
            JDict dd \<Rightarrow> (case map_of dd ''content'' of Some (JStr s) \<Rightarrow> Some s | _ \<Rightarrow> Some [])
          | _ \<Rightarrow> None)
      | _ \<Rightarrow> None)"

datatype stream_reply = StreamFails | StreamStatus nat | StreamLines "ustr list"

definition llm_chat_stream ::
  "(ustr \<Rightarrow> json option) \<Rightarrow> stream_reply \<Rightarrow> llm_counts \<Rightarrow> (ustr list \<times> bool) \<times> llm_counts" where
  "llm_chat_stream loads reply c =
     (case reply of
        StreamFails \<Rightarrow> (([], True), c)
      | StreamStatus _ \<Rightarrow> (([], True), c\<lparr>lc_stream_failed := lc_stream_failed c + 1\<rparr>)
      | StreamLines lines \<Rightarrow>
          (let r = sse_tokens (chunk_text_of loads) lines
           in (r, c\<lparr>lc_completion := lc_completion c + of_nat (length (fst r))\<rparr>)))"

lemma sse_nonempty: "[] \<notin> set (fst (sse_tokens d ls))"
  by (induction ls) (auto simp: Let_def split: option.splits prod.splits)

text \<open>
  Only error statuses are counted as failures, not a lost connection or an answer that does not
  parse; nothing counted ever decreases; and an answer with a text is lost when its usage has a null
  count.
\<close>

lemma llm_counted:
  "lc_chat_failed (snd (llm_chat r c)) = lc_chat_failed c + (case r of HttpStatus _ _ \<Rightarrow> 1 | _ \<Rightarrow> 0)"
  "lc_prompt c \<le> lc_prompt (snd (llm_chat r c))" "lc_completion c \<le> lc_completion (snd (llm_chat r c))"
proof -
  have amount: "counter_amount j = Some x \<Longrightarrow> 0 \<le> x" for j x by (cases j) (auto split: if_splits)
  have usage: "lc_chat_failed c1 = lc_chat_failed c \<and> lc_prompt c \<le> lc_prompt c1 \<and> lc_completion c \<le> lc_completion c1"
    if "count_usage u c = (ok, c1)" for u ok c1
    using that by (auto simp: count_usage_def Let_def dest!: amount split: if_splits json.splits option.splits)
  show "lc_chat_failed (snd (llm_chat r c)) = lc_chat_failed c + (case r of HttpStatus _ _ \<Rightarrow> 1 | _ \<Rightarrow> 0)"
    using usage by (auto simp: llm_chat_def split: http_reply.splits option.splits prod.splits)
  show "lc_prompt c \<le> lc_prompt (snd (llm_chat r c))" "lc_completion c \<le> lc_completion (snd (llm_chat r c))"
    using usage by (auto simp: llm_chat_def split: http_reply.splits option.splits prod.splits)
qed

lemma null_usage_loses_answer:
  "map_of d ''prompt_tokens'' = Some JNull \<Longrightarrow> json_get ''usage'' data = Some (JDict d) \<Longrightarrow>
     llm_chat (HttpBody (Some data) b) c = (None, c)"
  by (cases d) (auto simp: llm_chat_def count_usage_def or_else_def split: option.splits)

end
