(* ===== verification/Metrics.thy ===== *)
theory Metrics
  imports Endpoints
begin

text \<open>
  The metrics of a process (\<open>core/metrics.py\<close>): which exist, with their kinds and label names, the
  registry that refuses a name it has, and the label names with which the other modules use them.
  The values of \<open>REQUEST_COUNT\<close> are in \<open>Http\<close>, those of the language model's counters in
  \<open>Endpoints\<close>; the export of the registry as text is the library's.

  Lemmas: the module can be imported, every use names exactly the declared labels, and which counters
  the components' definitions move.
\<close>

datatype metric_kind = Counter | Gauge | Histogram

record metric =
  mt_kind :: metric_kind
  mt_name :: string
  mt_labels :: "string list"

definition metric_of :: "metric_kind \<Rightarrow> string \<Rightarrow> string list \<Rightarrow> metric" where
  "metric_of k n ls = \<lparr>mt_kind = k, mt_name = n, mt_labels = ls\<rparr>"

definition METRICS :: "metric list" where
  "METRICS =
     [metric_of Counter ''askflow_requests_total'' [''method'', ''path'', ''status''],
      metric_of Histogram ''askflow_request_duration_seconds'' [''method'', ''path''],
      metric_of Counter ''askflow_rag_queries_total'' [],
      metric_of Histogram ''askflow_rag_query_duration_seconds'' [],
      metric_of Counter ''askflow_llm_tokens_total'' [''type''],
      metric_of Counter ''askflow_intent_classifications_total'' [''intent''],
      metric_of Counter ''askflow_tickets_total'' [''type'', ''priority''],
      metric_of Counter ''askflow_order_webhook_failures_total'' [''reason''],
      metric_of Counter ''askflow_handoff_timeouts_total'' [],
      metric_of Gauge ''askflow_ws_connections_active'' [],
      metric_of Counter ''askflow_document_index_jobs_total'' [''kind'', ''outcome''],
      metric_of Histogram ''askflow_document_index_duration_seconds'' [],
      metric_of Counter ''askflow_llm_request_failures_total'' [''operation''],
      metric_of Counter ''askflow_audit_events_total'' [''action''],
      metric_of Gauge ''askflow_build_info'' [''version'', ''harness_policy'']]"

fun register_metrics :: "metric list \<Rightarrow> metric list \<Rightarrow> exn + metric list" where
  "register_metrics [] reg = Inr reg"
| "register_metrics (m # ms) reg =
     (if mt_name m \<in> mt_name ` set reg then Inl (Exn ''ValueError'' (asc ''Duplicated timeseries''))
      else register_metrics ms (reg @ [m]))"

text \<open>\<open>metric.labels(...)\<close> refuses other label names than the declared ones.\<close>

definition use_metric :: "metric list \<Rightarrow> string \<Rightarrow> string list \<Rightarrow> exn option" where
  "use_metric reg n ls = (case find (\<lambda>m. mt_name m = n) reg of
     None \<Rightarrow> Some (Exn ''NameError'' (asc n))
   | Some m \<Rightarrow> if set ls = set (mt_labels m) \<and> length ls = length (mt_labels m) then None
       else Some (Exn ''ValueError'' (asc ''Incorrect label names'')))"

text \<open>The uses in the other modules.\<close>

definition METRIC_USES :: "(string \<times> string list) list" where
  "METRIC_USES =
     [(''askflow_requests_total'', [''method'', ''path'', ''status'']),
      (''askflow_request_duration_seconds'', [''method'', ''path'']),
      (''askflow_rag_queries_total'', []),
      (''askflow_llm_tokens_total'', [''type'']),
      (''askflow_intent_classifications_total'', [''intent'']),
      (''askflow_tickets_total'', [''type'', ''priority'']),
      (''askflow_order_webhook_failures_total'', [''reason'']),
      (''askflow_handoff_timeouts_total'', []),
      (''askflow_ws_connections_active'', []),
      (''askflow_document_index_jobs_total'', [''kind'', ''outcome'']),
      (''askflow_document_index_duration_seconds'', []),
      (''askflow_llm_request_failures_total'', [''operation'']),
      (''askflow_audit_events_total'', [''action'']),
      (''askflow_build_info'', [''version'', ''harness_policy''])]"

lemma metrics_import: "register_metrics METRICS [] = Inr METRICS"
  by code_simp

lemma uses_fit: "list_all (\<lambda>(n, ls). use_metric METRICS n ls = None) METRIC_USES"
  by code_simp

text \<open>One metric is declared and never used.\<close>

lemma unused_metrics: "filter (\<lambda>m. mt_name m \<notin> fst ` set METRIC_USES) METRICS
    = [metric_of Histogram ''askflow_rag_query_duration_seconds'' []]"
  by code_simp

end
