(* ===== verification/Routes.thy ===== *)
theory Routes
  imports Endpoints
begin

text \<open>
  The table of HTTP routes: what each router declares (\<open>*/router.py\<close>), the prefixes under which
  \<open>create_app\<close> of \<open>main.py\<close> includes them, the dependency that guards each endpoint
  (\<open>get_current_user\<close>, \<open>require_role\<close>), and the framework's way to pick the first route that
  matches. Besides, the database session a request works in (\<open>core/database.py\<close>).

  Lemmas: no route hides another, which endpoints anybody may enter and which need which role, and
  what a request that fails leaves in the database.

  The framework's own routes for the API documentation and its redirect of a trailing slash are
  left out.
\<close>

subsection \<open>Routes\<close>

datatype http_method = GET | POST | PUT | PATCH | DELETE

text \<open>A segment of a template: a fixed text, or a parameter, which takes any non-empty text.\<close>

datatype seg = Lit string | Par

datatype guard = Open | LoggedIn | Roles "user_role list"

record route =
  rt_method :: http_method
  rt_path :: "seg list"
  rt_guard :: guard
  rt_endpoint :: string

definition on :: "http_method \<Rightarrow> seg list \<Rightarrow> guard \<Rightarrow> string \<Rightarrow> route" where
  "on m p g n = \<lparr>rt_method = m, rt_path = p, rt_guard = g, rt_endpoint = n\<rparr>"

definition STAFF_ROLES :: "user_role list" where "STAFF_ROLES = [RAdmin, RAgent]"

abbreviation "staff \<equiv> Roles STAFF_ROLES"
abbreviation "admin \<equiv> Roles [RAdmin]"

definition rag_routes :: "route list" where
  "rag_routes = [on POST [Lit ''query''] LoggedIn ''rag_query'']"

definition embedding_routes :: "route list" where
  "embedding_routes =
     [on POST [Lit ''documents''] staff ''upload_document'',
      on POST [Lit ''documents'', Par, Lit ''reindex''] admin ''reindex_document'']"

definition chat_routes :: "route list" where
  "chat_routes =
     [on POST [Lit ''conversations''] LoggedIn ''create_conversation'',
      on GET [Lit ''conversations''] LoggedIn ''list_conversations'',
      on PATCH [Lit ''conversations'', Par] LoggedIn ''rename_conversation'',
      on POST [Lit ''conversations'', Par, Lit ''archive''] LoggedIn ''archive_conversation'',
      on DELETE [Lit ''conversations'', Par] LoggedIn ''delete_conversation'',
      on GET [Lit ''conversations'', Par, Lit ''messages''] LoggedIn ''get_messages'',
      on POST [Lit ''messages'', Par, Lit ''feedback''] LoggedIn ''submit_feedback'']"

definition agent_routes :: "route list" where
  "agent_routes = [on POST [Lit ''classify''] LoggedIn ''classify_intent'']"

definition ticket_routes :: "route list" where
  "ticket_routes =
     [on POST [] LoggedIn ''create_ticket'',
      on GET [Par] LoggedIn ''get_ticket'',
      on PUT [Par] LoggedIn ''update_ticket'',
      on GET [] LoggedIn ''list_tickets'']"

definition admin_routes :: "route list" where
  "admin_routes =
     [on POST [Lit ''auth'', Lit ''register''] Open ''register'',
      on POST [Lit ''auth'', Lit ''login''] Open ''login'',
      on GET [Lit ''auth'', Lit ''me''] LoggedIn ''get_current_user_info'',
      on GET [Lit ''documents''] staff ''list_documents'',
      on DELETE [Lit ''documents'', Par] admin ''delete_document'',
      on GET [Lit ''intents''] staff ''list_intents'',
      on POST [Lit ''intents''] admin ''create_intent'',
      on PUT [Lit ''intents'', Par] admin ''update_intent'',
      on DELETE [Lit ''intents'', Par] admin ''delete_intent'',
      on GET [Lit ''tickets''] staff ''list_all_tickets'',
      on GET [Lit ''analytics''] staff ''analytics'',
      on GET [Lit ''tickets'', Lit ''dashboard''] staff ''ticket_dashboard'',
      on GET [Lit ''system'', Lit ''health''] staff ''system_health'']"

definition handoff_routes :: "route list" where
  "handoff_routes =
     [on GET [] staff ''list_handoffs'',
      on GET [Par] staff ''get_handoff'',
      on POST [Par, Lit ''claim''] staff ''claim_handoff'',
      on POST [Par, Lit ''reply''] staff ''reply_handoff'',
      on POST [Par, Lit ''resolve''] staff ''resolve_handoff'']"

definition prompt_routes :: "route list" where
  "prompt_routes =
     [on GET [] staff ''list_prompts'',
      on GET [Par, Lit ''versions''] staff ''list_prompt_versions'',
      on PUT [Par] admin ''update_prompt'',
      on POST [Par, Lit ''activate'', Par] admin ''activate_prompt_version'']"

definition audit_routes :: "route list" where
  "audit_routes = [on GET [] admin ''list_audit_logs'']"

definition gap_routes :: "route list" where
  "gap_routes =
     [on GET [] staff ''list_gaps'',
      on GET [Par] staff ''get_gap'',
      on GET [Par, Lit ''related''] staff ''get_related_gaps'',
      on PATCH [Par] admin ''update_gap'',
      on POST [Par, Lit ''draft''] staff ''create_draft_from_gap'']"

definition draft_routes :: "route list" where
  "draft_routes =
     [on GET [] staff ''list_drafts'',
      on GET [Par] staff ''get_draft'',
      on PUT [Par] staff ''update_draft'',
      on POST [Par, Lit ''approve''] admin ''approve_draft'',
      on POST [Par, Lit ''reject''] admin ''reject_draft'']"

definition metrics_routes :: "route list" where
  "metrics_routes = [on GET [Lit ''metrics''] Open ''metrics'']"

definition include_router :: "string list \<Rightarrow> route list \<Rightarrow> route list" where
  "include_router prefix rs = map (\<lambda>r. r\<lparr>rt_path := map Lit prefix @ rt_path r\<rparr>) rs"

text \<open>In the order of \<open>create_app\<close>; the path \<open>/\<close> is one empty segment.\<close>

definition app_routes :: "route list" where
  "app_routes =
     include_router [''api'', ''v1'', ''rag''] rag_routes
   @ include_router [''api'', ''v1'', ''embedding''] embedding_routes
   @ include_router [''api'', ''v1'', ''chat''] chat_routes
   @ include_router [''api'', ''v1'', ''agent''] agent_routes
   @ include_router [''api'', ''v1'', ''tickets''] ticket_routes
   @ include_router [''api'', ''v1'', ''admin''] admin_routes
   @ include_router [''api'', ''v1'', ''admin'', ''handoffs''] handoff_routes
   @ include_router [''api'', ''v1'', ''admin'', ''prompts''] prompt_routes
   @ include_router [''api'', ''v1'', ''admin'', ''audit-logs''] audit_routes
   @ include_router [''api'', ''v1'', ''admin'', ''gaps''] gap_routes
   @ include_router [''api'', ''v1'', ''admin'', ''drafts''] draft_routes
   @ include_router [] metrics_routes
   @ [on GET [Lit ''''] Open ''index'', on GET [Lit ''health''] Open ''health'']"

subsection \<open>Picking a route\<close>

definition segments :: "ustr \<Rightarrow> ustr list" where
  "segments p = drop 1 (split_on 47 p)"

fun matches :: "seg list \<Rightarrow> ustr list \<Rightarrow> bool" where
  "matches [] [] = True"
| "matches (Lit l # ps) (x # xs) = (x = asc l \<and> matches ps xs)"
| "matches (Par # ps) (x # xs) = (x \<noteq> [] \<and> matches ps xs)"
| "matches _ _ = False"

datatype picked = Found route | WrongMethod | NoRoute

definition pick_route :: "route list \<Rightarrow> http_method \<Rightarrow> ustr list \<Rightarrow> picked" where
  "pick_route rs m segs =
     (case find (\<lambda>r. matches (rt_path r) segs \<and> rt_method r = m) rs of
        Some r \<Rightarrow> Found r
      | None \<Rightarrow> if list_ex (\<lambda>r. matches (rt_path r) segs) rs then WrongMethod else NoRoute)"

definition authorize :: "token_env \<Rightarrow> int \<Rightarrow> ustr option \<Rightarrow> account list \<Rightarrow> guard \<Rightarrow> exn + account option" where
  "authorize T now header rows g = (case g of
       Open \<Rightarrow> Inr None
     | LoggedIn \<Rightarrow> map_sum id Some (get_current_user T now header rows)
     | Roles rs \<Rightarrow> (case get_current_user T now header rows of
         Inl e \<Rightarrow> Inl e | Inr a \<Rightarrow> map_sum id Some (require_role rs a)))"

text \<open>\<open>Entered\<close>: the endpoint's body runs, for an account unless it is open.\<close>

datatype entry = NotFound404 | NotAllowed405 | Refused exn | Entered string "account option"

definition enter :: "token_env \<Rightarrow> int \<Rightarrow> ustr option \<Rightarrow> account list \<Rightarrow> http_method \<Rightarrow> ustr \<Rightarrow> entry" where
  "enter T now header rows m path =
     (case pick_route app_routes m (segments path) of
        NoRoute \<Rightarrow> NotFound404
      | WrongMethod \<Rightarrow> NotAllowed405
      | Found r \<Rightarrow> (case authorize T now header rows (rt_guard r) of
          Inl e \<Rightarrow> Refused e | Inr a \<Rightarrow> Entered (rt_endpoint r) a))"

subsection \<open>No route hides another\<close>

text \<open>Two templates that some path could both match.\<close>

fun overlap :: "seg list \<Rightarrow> seg list \<Rightarrow> bool" where
  "overlap [] [] = True"
| "overlap (Lit a # ps) (Lit b # qs) = (a = b \<and> overlap ps qs)"
| "overlap (_ # ps) (_ # qs) = overlap ps qs"
| "overlap _ _ = False"

lemma asc_inj: "asc a = asc b \<longleftrightarrow> a = b"
  by (auto simp: asc_def dest!: map_injective intro!: injI)

lemma matches_overlap: "matches p x \<Longrightarrow> matches q x \<Longrightarrow> overlap p q"
  by (induction p q arbitrary: x rule: overlap.induct) (auto simp: asc_inj neq_Nil_conv elim: matches.elims)

lemma no_overlap: "sorted_wrt (\<lambda>r s. \<not> (rt_method r = rt_method s \<and> overlap (rt_path r) (rt_path s))) app_routes"
  by code_simp

lemma find_unique:
  assumes "sorted_wrt (\<lambda>x y. \<not> (P x \<and> P y)) xs" "x \<in> set xs" "P x"
  shows "find P xs = Some x"
  using assms by (induction xs) auto

lemma picked_route:
  assumes "r \<in> set app_routes" "matches (rt_path r) segs" "rt_method r = m"
  shows "pick_route app_routes m segs = Found r"
proof -
  let ?P = "\<lambda>r. matches (rt_path r) segs \<and> rt_method r = m"
  have "sorted_wrt (\<lambda>x y. \<not> (?P x \<and> ?P y)) app_routes"
    by (rule sorted_wrt_mono_rel [OF _ no_overlap]) (auto dest: matches_overlap)
  then have "find ?P app_routes = Some r" by (rule find_unique) (simp_all add: assms)
  then show ?thesis by (simp add: pick_route_def)
qed

lemma picked_Found: "pick_route rs m segs = Found r \<Longrightarrow> r \<in> set rs \<and> matches (rt_path r) segs \<and> rt_method r = m"
  by (auto simp: pick_route_def find_Some_iff split: option.splits if_splits)

lemma picked_none: "pick_route rs m segs = NoRoute \<longleftrightarrow> (\<forall>r \<in> set rs. \<not> matches (rt_path r) segs)"
  by (auto simp: pick_route_def find_Some_iff find_None_iff list_ex_iff split: option.splits)

subsection \<open>Who may enter\<close>

definition OPEN_ENDPOINTS :: "string list" where
  "OPEN_ENDPOINTS = [''register'', ''login'', ''metrics'', ''index'', ''health'']"

definition ADMIN_ENDPOINTS :: "string list" where
  "ADMIN_ENDPOINTS = [''reindex_document'', ''delete_document'', ''create_intent'', ''update_intent'', ''delete_intent'',
     ''update_prompt'', ''activate_prompt_version'', ''list_audit_logs'', ''update_gap'', ''approve_draft'', ''reject_draft'']"

text \<open>What the table gives each endpoint.\<close>

definition guard_fits :: "route \<Rightarrow> bool" where
  "guard_fits r \<longleftrightarrow> (rt_guard r = Open) = (rt_endpoint r \<in> set OPEN_ENDPOINTS)
     \<and> (rt_endpoint r \<in> set ADMIN_ENDPOINTS \<longrightarrow> rt_guard r = admin)
     \<and> (take 3 (rt_path r) = map Lit [''api'', ''v1'', ''admin''] \<and> rt_guard r \<noteq> Open
          \<and> rt_endpoint r \<noteq> ''get_current_user_info'' \<longrightarrow> rt_guard r = staff \<or> rt_guard r = admin)"

lemma guards_fit: "list_all guard_fits app_routes"
  by code_simp

text \<open>No parameter stands among the first three segments.\<close>

lemma fixed_prefixes: "list_all (\<lambda>r. take 1 (rt_path r) \<noteq> [Par] \<and> take 1 (drop 1 (rt_path r)) \<noteq> [Par]
    \<and> take 1 (drop 2 (rt_path r)) \<noteq> [Par]) app_routes"
  by code_simp

lemma authorized:
  "authorize T now header rows g = Inr a \<Longrightarrow> (case g of Open \<Rightarrow> a = None
     | LoggedIn \<Rightarrow> \<exists>b. a = Some b \<and> get_current_user T now header rows = Inr b
     | Roles rs \<Rightarrow> \<exists>b. a = Some b \<and> get_current_user T now header rows = Inr b \<and> us_role b \<in> set rs)"
  by (cases g; cases "get_current_user T now header rows") (auto simp: authorize_def require_role_def split: if_splits)

lemma bearer_account:
  "get_current_user T now header rows = Inr b \<Longrightarrow> \<exists>token. extract_bearer_token header = Some token
     \<and> tk_decode T now token = Some (Hex (us_id b)) \<and> b \<in> set rows \<and> us_active b"
  by (auto simp: current_user_iff token_user_iff dest: row_of_Some)

lemma matches_Cons:
  "matches p (y # ys) \<longleftrightarrow> (\<exists>ps. p = Par # ps \<and> y \<noteq> [] \<and> matches ps ys) \<or> (\<exists>l ps. p = Lit l # ps \<and> y = asc l \<and> matches ps ys)"
  by (cases "(p, y # ys)" rule: matches.cases) auto

lemma matches_prefix:
  "matches p x \<Longrightarrow> take 3 x = map asc [a, b, c] \<Longrightarrow> take 1 p \<noteq> [Par] \<Longrightarrow> take 1 (drop 1 p) \<noteq> [Par]
     \<Longrightarrow> take 1 (drop 2 p) \<noteq> [Par] \<Longrightarrow> take 3 p = map Lit [a, b, c]"
proof -
  assume m: "matches p x" and x: "take 3 x = map asc [a, b, c]"
    and p: "take 1 p \<noteq> [Par]" "take 1 (drop 1 p) \<noteq> [Par]" "take 1 (drop 2 p) \<noteq> [Par]"
  have "x = take 3 x @ drop 3 x" by simp
  then obtain ys where "x = [asc a, asc b, asc c] @ ys" using x by simp
  then show ?thesis using m p by (auto simp: matches_Cons asc_inj)
qed



subsection \<open>The session of a request\<close>

text \<open>
  \<open>core/database.py\<close>: what is committed, and what the request has done on top of it. An endpoint
  may commit in between; the end of the request commits, or rolls back and raises again.
\<close>

record 'd db_session =
  ds_committed :: 'd
  ds_working :: 'd

definition commit_session :: "'d db_session \<Rightarrow> 'd db_session" where
  "commit_session s = s\<lparr>ds_committed := ds_working s\<rparr>"

definition get_db :: "exn option \<Rightarrow> ('d db_session \<Rightarrow> (exn + 'a) \<times> 'd db_session) \<Rightarrow> 'd \<Rightarrow> (exn + 'a) \<times> 'd" where
  "get_db commit_error body d =
     (case body \<lparr>ds_committed = d, ds_working = d\<rparr> of
        (Inl e, s) \<Rightarrow> (Inl e, ds_committed s)
      | (Inr x, s) \<Rightarrow> (case commit_error of
          Some e \<Rightarrow> (Inl e, ds_committed s) | None \<Rightarrow> (Inr x, ds_committed (commit_session s))))"

text \<open>Statements of an endpoint, and a commit between two parts of one.\<close>

definition in_session :: "('d \<Rightarrow> (exn + 'a) \<times> 'd) \<Rightarrow> 'd db_session \<Rightarrow> (exn + 'a) \<times> 'd db_session" where
  "in_session f s = (let (r, d) = f (ds_working s) in (r, s\<lparr>ds_working := d\<rparr>))"

definition then_commit ::
  "('s \<Rightarrow> (exn + 'a) \<times> 'd db_session) \<Rightarrow> ('a \<Rightarrow> 'd db_session \<Rightarrow> (exn + 'b) \<times> 'd db_session)
   \<Rightarrow> 's \<Rightarrow> (exn + 'b) \<times> 'd db_session" where
  "then_commit f g s = (case f s of (Inl e, s1) \<Rightarrow> (Inl e, s1) | (Inr x, s1) \<Rightarrow> g x (commit_session s1))"

text \<open>
  Why the endpoints of the other theories return the tables they were given when they fail: without
  a commit of its own a request changes the database exactly when it succeeds. With one in
  between, a failure afterwards keeps the first part.
\<close>

lemma request_is_atomic:
  "get_db c (in_session f) d = (case (f d, c) of
     ((Inl e, _), _) \<Rightarrow> (Inl e, d) | ((Inr x, d'), None) \<Rightarrow> (Inr x, d') | ((Inr x, d'), Some e) \<Rightarrow> (Inl e, d))"
  by (simp add: get_db_def in_session_def commit_session_def split: prod.split sum.split option.split)

lemma commit_in_between:
  assumes "f d = (Inr x, d1)" "g x d1 = (Inl e, d2)"
  shows "get_db c (then_commit (in_session f) (\<lambda>x. in_session (g x))) d = (Inl e, d1)"
  using assms by (simp add: get_db_def in_session_def then_commit_def commit_session_def)

lemma rolled_back:
  "fst (get_db c (in_session f) d) = Inl e \<Longrightarrow> snd (get_db c (in_session f) d) = d"
  by (auto simp: request_is_atomic split: prod.splits sum.splits option.splits)

end
