(* ===== verification/App.thy ===== *)
theory App
  imports Routes
begin

text \<open>
  The application as a whole, as HTTP sees it: a request goes through the trace middleware (\<open>Http\<close>)
  to the route that fits it (\<open>Routes\<close>), past the guard to its endpoint, and its outcome back through
  the exception handlers to the counter. The endpoints that are open to anybody are the code's own
  (\<open>Access\<close>, \<open>Startup\<close>); the others are an argument, so that what is shown holds whatever they do.

  Lemmas: what a request without a token can lead to.
\<close>

subsection \<open>A request to the application\<close>

text \<open>The body as its model reads it; anything else is refused by validation.\<close>

datatype request_body = RegisterBody ustr ustr ustr | LoginBody ustr ustr | OtherBody

record site_request = request +
  sr_auth :: "ustr option"
  sr_body :: request_body

text \<open>With a request come a fresh trace id, the time and a fresh identifier.\<close>

type_synonym arrival = "string \<times> int \<times> uuid \<times> site_request"

record 'w site =
  si_accounts :: "account list"
  si_rest :: 'w

type_synonym 'w guarded_run =
  "string \<Rightarrow> account \<Rightarrow> string \<Rightarrow> arrival \<Rightarrow> 'w site \<Rightarrow> (raised + response) \<times> 'w site"

definition method_of :: "string \<Rightarrow> http_method option" where
  "method_of m = map_of [(''GET'', GET), (''POST'', POST), (''PUT'', PUT), (''PATCH'', PATCH), (''DELETE'', DELETE)] m"

definition enter_request :: "token_env \<Rightarrow> int \<Rightarrow> account list \<Rightarrow> site_request \<Rightarrow> entry" where
  "enter_request T now rows q =
     (case method_of (rq_method q) of
        Some m \<Rightarrow> enter T now (sr_auth q) rows m (rq_path q)
      | None \<Rightarrow> if list_ex (\<lambda>r. matches (rt_path r) (segments (rq_path q))) app_routes then NotAllowed405 else NotFound404)"

definition app_error :: "exn \<Rightarrow> raised" where
  "app_error e = (case e of Exn cls msg \<Rightarrow>
     if cls = ''UnauthorizedError'' then AppError Unauthorized msg
     else if cls = ''ForbiddenError'' then AppError Forbidden msg else Crash e)"

definition api_answer :: "'a api \<Rightarrow> raised + response" where
  "api_answer r = (case r of
       ApiData _ \<Rightarrow> Inr (answer 200 None)
     | ApiError msg \<Rightarrow> Inr (answer 200 (Some msg))
     | ApiForbidden \<Rightarrow> Inl (AppError Forbidden (asc ''Forbidden''))
     | ApiRaised e \<Rightarrow> Inl (Crash e))"

text \<open>The five endpoints without a guard; a body of another shape is a 422 of the framework.\<close>

definition open_endpoint ::
  "token_env \<Rightarrow> (string \<Rightarrow> check_end) \<Rightarrow> string \<Rightarrow> int \<Rightarrow> uuid \<Rightarrow> request_body \<Rightarrow> account list
   \<Rightarrow> (raised + response) \<times> account list" where
  "open_endpoint T chk n now i body rows =
     (if n = ''register'' then
        (case body of
           RegisterBody name email pw \<Rightarrow> (let (r, rows1) = register T i name email pw rows in (api_answer r, rows1))
         | _ \<Rightarrow> (Inr (answer 422 None), rows))
      else if n = ''login'' then
        (case body of LoginBody name pw \<Rightarrow> (api_answer (login T now name pw rows), rows) | _ \<Rightarrow> (Inr (answer 422 None), rows))
      else if n = ''health'' then (Inr (answer (fst (health_endpoint chk)) None), rows)
      else (Inr (answer 200 None), rows))"

definition site_endpoint ::
  "token_env \<Rightarrow> (string \<Rightarrow> check_end) \<Rightarrow> 'w guarded_run \<Rightarrow> arrival \<Rightarrow> 'w site \<Rightarrow> (raised + response) \<times> 'w site" where
  "site_endpoint T chk run x s = (case x of (fresh, now, i, q) \<Rightarrow>
     (case enter_request T now (si_accounts s) q of
        NotFound404 \<Rightarrow> (Inr (answer 404 None), s)
      | NotAllowed405 \<Rightarrow> (Inr (answer 405 None), s)
      | Refused e \<Rightarrow> (Inl (app_error e), s)
      | Entered n None \<Rightarrow>
          (let (r, rows) = open_endpoint T chk n now i (sr_body q) (si_accounts s) in (r, s\<lparr>si_accounts := rows\<rparr>))
      | Entered n (Some a) \<Rightarrow> run n a (trace_of fresh (request.truncate q)) x s))"

fun serve_site ::
  "token_env \<Rightarrow> (string \<Rightarrow> check_end) \<Rightarrow> 'w guarded_run \<Rightarrow> arrival list \<Rightarrow> series list \<Rightarrow> 'w site
   \<Rightarrow> response list \<times> series list \<times> 'w site" where
  "serve_site T chk run [] counts s = ([], counts, s)"
| "serve_site T chk run (x # xs) counts s =
     (let (res, s1) = site_endpoint T chk run x s;
          (r, counts1) = serve_http (fst x) (\<lambda>_. res) (request.truncate (snd (snd (snd x)))) counts;
          (rs, counts2, s2) = serve_site T chk run xs counts1 s1
      in (r # rs, counts2, s2))"

subsection \<open>Requests without a token\<close>

definition no_token :: "arrival \<Rightarrow> bool" where
  "no_token x \<longleftrightarrow> (case x of (fresh, now, i, q) \<Rightarrow> extract_bearer_token (sr_auth q) = None)"

definition to_open :: "arrival \<Rightarrow> bool" where
  "to_open x \<longleftrightarrow> (case x of (fresh, now, i, q) \<Rightarrow>
     \<exists>r \<in> set app_routes. rt_guard r = Open \<and> matches (rt_path r) (segments (rq_path q)) \<and> method_of (rq_method q) = Some (rt_method r))"

text \<open>What may become of the accounts.\<close>

definition only_customers_added :: "account list \<Rightarrow> account list \<Rightarrow> bool" where
  "only_customers_added rows rows' \<longleftrightarrow> (\<exists>new. rows' = rows @ new \<and> (\<forall>a \<in> set new. us_role a = RUser))
     \<and> (accounts_ok rows \<longrightarrow> accounts_ok rows')"

lemma only_customers_refl: "only_customers_added rows rows"
  by (simp add: only_customers_added_def)

lemma only_customers_trans:
  "only_customers_added a b \<Longrightarrow> only_customers_added b c \<Longrightarrow> only_customers_added a c"
  by (fastforce simp: only_customers_added_def)

lemma register_adds_customer:
  "register T i n e p rows = (r, rows') \<Longrightarrow> only_customers_added rows rows'"
  by (auto simp: register_def user_create_def only_customers_added_def accounts_ok_def split: if_splits)

lemma open_adds_customer: "only_customers_added rows (snd (open_endpoint T chk n now i body rows))"
  using register_adds_customer only_customers_refl
  by (auto simp: open_endpoint_def split: request_body.splits prod.splits)

text \<open>Without a token every guard refuses as unauthorised.\<close>

lemma no_token_refused:
  "extract_bearer_token h = None \<Longrightarrow> g \<noteq> Open \<Longrightarrow> \<exists>msg. authorize T now h rows g = Inl (Exn ''UnauthorizedError'' msg)"
  by (cases g) (auto simp: authorize_def get_current_user_def unauthorized_def)

lemma no_token_entry:
  assumes "extract_bearer_token (sr_auth q) = None"
  shows "enter_request T now rows q \<in> {NotFound404, NotAllowed405} \<union> range (\<lambda>msg. Refused (Exn ''UnauthorizedError'' msg))
     \<or> to_open (fresh, now', i, q) \<and> (\<exists>n. enter_request T now rows q = Entered n None)"
proof (cases "method_of (rq_method q)")
  case (Some m)
  show ?thesis
  proof (cases "pick_route app_routes m (segments (rq_path q))")
    case (Found r)
    show ?thesis
    proof (cases "rt_guard r = Open")
      case True
      then show ?thesis using Some Found picked_Found [OF Found]
        by (auto simp: enter_request_def enter_def authorize_def to_open_def)
    next
      case False
      with no_token_refused [OF assms] obtain msg where "authorize T now (sr_auth q) rows (rt_guard r) = Inl (Exn ''UnauthorizedError'' msg)"
        by blast
      then show ?thesis using Some Found by (simp add: enter_request_def enter_def)
    qed
  qed (use Some in \<open>simp_all add: enter_request_def enter_def\<close>)
qed (simp add: enter_request_def)

lemma no_token_step:
  assumes "no_token x"
  shows "site_endpoint T chk run x s = site_endpoint T chk run' x s
     \<and> si_rest (snd (site_endpoint T chk run x s)) = si_rest s
     \<and> only_customers_added (si_accounts s) (si_accounts (snd (site_endpoint T chk run x s)))
     \<and> (\<not> to_open x \<longrightarrow> snd (site_endpoint T chk run x s) = s
          \<and> (\<exists>st \<in> {401, 404, 405}. \<exists>m. handled (fst (site_endpoint T chk run x s)) = Inr (answer st m)))"
proof -
  obtain fresh now i q where x: "x = (fresh, now, i, q)" by (metis prod_cases4)
  have h: "extract_bearer_token (sr_auth q) = None" using assms by (simp add: no_token_def x)
  consider (none) "enter_request T now (si_accounts s) q = NotFound404"
    | (other) "enter_request T now (si_accounts s) q = NotAllowed405"
    | (refused) msg where "enter_request T now (si_accounts s) q = Refused (Exn ''UnauthorizedError'' msg)"
    | (opened) n where "to_open x" "enter_request T now (si_accounts s) q = Entered n None"
    using no_token_entry [OF h, of T now "si_accounts s" fresh now i] unfolding x by blast
  then show ?thesis
  proof cases
    case opened
    then show ?thesis using open_adds_customer [of "si_accounts s" T chk n now i "sr_body q"]
      by (cases "open_endpoint T chk n now i (sr_body q) (si_accounts s)") (simp add: site_endpoint_def x)
  qed (fastforce simp: site_endpoint_def x app_error_def only_customers_refl)+
qed

lemma answered_status:
  "handled res = Inr (answer st m) \<Longrightarrow> rp_status (fst (serve_http f (\<lambda>_. res) q counts)) = st
     \<and> length (snd (serve_http f (\<lambda>_. res) q counts)) = Suc (length counts)"
  by (simp add: serve_http_def dispatch_def Let_def answer_def)

lemma serve_Cons:
  assumes "serve_site T chk run (x # xs) counts s = (rs, counts', s')"
  obtains res s1 r c1 rs1 where "site_endpoint T chk run x s = (res, s1)"
    "serve_http (fst x) (\<lambda>_. res) (request.truncate (snd (snd (snd x)))) counts = (r, c1)"
    "serve_site T chk run xs c1 s1 = (rs1, counts', s')" "rs = r # rs1"
  using assms by (auto simp: Let_def split: prod.splits)

lemma state_without_counts:
  "snd (snd (serve_site T chk run xs c s)) = snd (snd (serve_site T chk run xs c' s))"
proof (induction xs arbitrary: c c' s)
  case (Cons x xs)
  obtain res s1 where "site_endpoint T chk run x s = (res, s1)" by fastforce
  then show ?case using Cons by (simp add: Let_def split: prod.split) (metis snd_conv)
qed simp

text \<open>The status a request without a token and without an open endpoint gets.\<close>

definition turned_away :: "response \<Rightarrow> bool" where
  "turned_away r \<longleftrightarrow> rp_status r \<in> {401, 404, 405}"

text \<open>
  C16: anonymous traffic. Let any requests without a token arrive, in any order, and let the guarded
  endpoints do whatever they may: none of them runs, so all answers, counts and tables are the same
  whatever they would have done. Nothing but the accounts changes; those only grow, by customers, and
  stay unique in name and address. Each request that fits no open endpoint is turned away with
  401, 404 or 405 and, of all requests, those to open endpoints alone can have an effect: leaving the
  others out leads to the same state.
\<close>

theorem anonymous_traffic:
  assumes "\<forall>x \<in> set xs. no_token x" and "serve_site T chk run xs counts s = (rs, counts', s')"
  shows "serve_site T chk run' xs counts s = (rs, counts', s')
   \<and> si_rest s' = si_rest s \<and> only_customers_added (si_accounts s) (si_accounts s')
   \<and> list_all2 (\<lambda>x r. to_open x \<or> turned_away r) xs rs
   \<and> snd (snd (serve_site T chk run (filter to_open xs) counts s)) = s'"
  using assms
proof (induction xs arbitrary: counts s rs counts' s')
  case Nil
  then show ?case by (simp add: only_customers_refl)
next
  case (Cons x xs)
  have no: "no_token x" "\<forall>y \<in> set xs. no_token y" using Cons.prems(1) by auto
  obtain res s1 r c1 rs1 where one: "site_endpoint T chk run x s = (res, s1)"
    "serve_http (fst x) (\<lambda>_. res) (request.truncate (snd (snd (snd x)))) counts = (r, c1)"
    "serve_site T chk run xs c1 s1 = (rs1, counts', s')" "rs = r # rs1"
    using serve_Cons [OF Cons.prems(2)] .
  note step = no_token_step [OF no(1), of T chk run s run', unfolded one(1) fst_conv snd_conv]
  note IH = Cons.IH [OF no(2) one(3)]
  have same: "serve_site T chk run' (x # xs) counts s = (rs, counts', s')"
  proof -
    have "site_endpoint T chk run' x s = (res, s1)" using step by simp
    then show ?thesis using IH one by (simp add: Let_def)
  qed
  have counted: "snd (snd (serve_site T chk run ys c s1)) = snd (snd (serve_site T chk run ys c1 s1))" for ys c
    by (rule state_without_counts)
  have drop: "snd (snd (serve_site T chk run (filter to_open (x # xs)) counts s)) = s'"
  proof (cases "to_open x")
    case True
    then show ?thesis using IH one
      by (cases "serve_site T chk run (filter to_open xs) c1 s1") (simp add: Let_def)
  next
    case False
    then have "s1 = s" using step by simp
    then show ?thesis using False IH counted [of "filter to_open xs" counts] by simp
  qed
  have "to_open x \<or> turned_away r"
    using step answered_status [of res _ _ "fst x" "request.truncate (snd (snd (snd x)))" counts] one(2)
    by (fastforce simp: turned_away_def)
  then show ?case using same drop step IH one(4) only_customers_trans by auto
qed

definition idle_run :: "unit guarded_run" where
  "idle_run n a t x s = (Inr (answer 200 None), s)"

definition visitor :: "string \<Rightarrow> string \<Rightarrow> request_body \<Rightarrow> site_request" where
  "visitor m p b = \<lparr>rq_method = m, rq_path = asc p, rq_trace = None, sr_auth = None, sr_body = b\<rparr>"

definition two_visits :: "arrival list" where
  "two_visits = [(''t1'', 0, 20, visitor ''POST'' ''/api/v1/admin/auth/register'' (RegisterBody (asc ''eve'') (asc ''e'') (asc ''pw''))),
     (''t2'', 0, 21, visitor ''DELETE'' ''/api/v1/admin/intents/x'' OtherBody)]"

theorem anonymous_traffic_witness:
  "\<exists>new. si_accounts (snd (snd (serve_site numbered_tokens (\<lambda>_. CheckOk) idle_run two_visits []
       \<lparr>si_accounts = [ada], si_rest = ()\<rparr>))) = ada # new \<and> filter (\<lambda>a. us_role a \<noteq> RUser) new = []"
proof -
  obtain rs c s' where run: "serve_site numbered_tokens (\<lambda>_. CheckOk) idle_run two_visits []
      \<lparr>si_accounts = [ada], si_rest = ()\<rparr> = (rs, c, s')" by (metis prod_cases3)
  have "\<forall>x \<in> set two_visits. no_token x"
    by (simp add: two_visits_def visitor_def no_token_def extract_bearer_token_def)
  from anonymous_traffic [OF this run, of idle_run] run show ?thesis
    by (auto simp: only_customers_added_def filter_empty_conv)
qed

end
