(* ===== verification/Spec2Isabelle.thy ===== *)
theory Spec2Isabelle
  imports Masking Handoffs Slots RagService Agent Drafts Monitor Evaluation Migrations Metrics App
begin

text \<open>
  AskFlow: a customer-service chat with an agent, retrieval over a knowledge base, tickets, human
  hand-off and an operators' console. The Python package under \<open>src/src/askflow/\<close> is modelled as
  total functions on records; nothing here is specific to one deployment.

  \<^bold>\<open>How the parts interact.\<close> A WebSocket connection is authenticated (\<open>Access\<close>) and its messages are
  taken one after the other (\<open>Chat\<close>). A message passes the rate limit, the ownership check and the
  human-take-over gate; then the agent runs a turn (\<open>Agent\<close>): the harness guards the question
  (\<open>Harness\<close>), a waiting order question is resumed or the intent is recognised (\<open>Slots\<close>, \<open>Intent\<close>),
  and one node answers: retrieval and generation (\<open>Retrieval\<close>, \<open>Grounding\<close>, \<open>RagService\<close>), a
  ticket (\<open>Tickets\<close>), a hand-off (\<open>Handoffs\<close>), a tool (\<open>Tools\<close>) or a clarification. The answer is
  verified, stored and sent, and an unanswered question is recorded as a gap (\<open>Gaps\<close>), from which
  operators write drafts (\<open>Drafts\<close>) that are published as documents (\<open>Documents\<close>) and indexed
  (\<open>Parsing\<close>, \<open>Indexing\<close>). Prompts and routes are stored (\<open>Prompts\<close>) and read through a cache
  (\<open>ConfigCache\<close>). \<open>Monitor\<close> reads all tables. Around them a worker process starts and stops its
  singletons and background loops (\<open>Startup\<close>), every HTTP request is traced, routed, guarded and
  counted (\<open>Http\<close>, \<open>Routes\<close>, \<open>Metrics\<close>), and the tables are those that the migrations make and the
  models declare (\<open>Schema\<close>, \<open>Migrations\<close>, \<open>Columns\<close>). \<open>Evaluation\<close> runs the question answering over
  golden cases, \<open>Seeding\<close> fills an empty database.

  \<^bold>\<open>Theories and sources.\<close>
  \<^item> \<open>Prelude\<close>, \<open>PyText\<close>, \<open>PyRegex\<close>: Python's slices, dictionaries, text and regular expressions.
    Text is a list of code points (\<open>ustr\<close>); backtracking matching is a total function.
  \<^item> \<open>AgentState\<close>: \<open>agent/state.py\<close>, \<open>schemas/intent.py\<close>. \<open>Table\<close>, \<open>Db\<close>: \<open>models/\<close>,
    \<open>core/exceptions.py\<close>, \<open>chat/protocol.py\<close>. A table is the list of its rows; \<open>world\<close> has all tables.
  \<^item> \<open>Harness\<close>: \<open>agent/harness.py\<close>. \<open>Tools\<close>: \<open>agent/tools.py\<close>. \<open>Slots\<close>: \<open>agent/slots.py\<close>.
    \<open>Intent\<close>: \<open>agent/intent_classifier.py\<close>. \<open>Agent\<close>: \<open>agent/nodes.py\<close>, \<open>agent/graph.py\<close>, \<open>agent/router.py\<close>,
    \<open>agent/service.py\<close>.
  \<^item> \<open>Masking\<close>: \<open>core/masking.py\<close>, \<open>core/audit.py\<close>, \<open>admin/audit_router.py\<close>, \<open>repositories/audit_repo.py\<close>.
  \<^item> \<open>Tickets\<close>: \<open>ticket/\<close>, \<open>repositories/ticket_repo.py\<close>. \<open>Conversations\<close>: the conversation and message
    repositories and endpoints. \<open>Handoffs\<close>: \<open>agent/handoff.py\<close>, \<open>admin/handoff_router.py\<close>,
    \<open>repositories/handoff_repo.py\<close>.
  \<^item> \<open>Retrieval\<close>: \<open>rag/filters.py\<close>, \<open>rag/bm25.py\<close>, \<open>rag/retriever.py\<close>, \<open>rag/reranker.py\<close>. \<open>Grounding\<close>:
    \<open>rag/grounding.py\<close>, \<open>rag/verifier.py\<close>, \<open>chat/confidence.py\<close>. \<open>RagService\<close>: \<open>rag/service.py\<close>,
    \<open>rag/prompt_builder.py\<close>, \<open>rag/llm_client.py\<close>, \<open>rag/router.py\<close>.
  \<^item> \<open>Session\<close>: \<open>chat/session.py\<close>. \<open>Chat\<close>: \<open>chat/service.py\<close>, \<open>chat/turns.py\<close>, \<open>chat/router.py\<close>,
    \<open>chat/manager.py\<close>, \<open>core/rate_limiter.py\<close>, \<open>repositories/feedback_repo.py\<close>.
  \<^item> \<open>Parsing\<close>: \<open>embedding/parser.py\<close>, \<open>embedding/chunker.py\<close>, \<open>embedding/embedder.py\<close>. \<open>Indexing\<close>:
    \<open>embedding/service.py\<close>, \<open>rag/vector_store.py\<close>. \<open>Documents\<close>: \<open>embedding/index_worker.py\<close>,
    \<open>embedding/queue.py\<close>, \<open>embedding/router.py\<close>, \<open>knowledge/publisher.py\<close>, \<open>repositories/document_repo.py\<close>.
  \<^item> \<open>Gaps\<close>, \<open>Drafts\<close>: \<open>knowledge/\<close> and its repositories.
  \<^item> \<open>ConfigCache\<close>: \<open>core/config_cache.py\<close>. \<open>Prompts\<close>: \<open>core/prompts.py\<close>, \<open>admin/service.py\<close>,
    \<open>admin/prompt_router.py\<close>, \<open>repositories/prompt_repo.py\<close>, \<open>repositories/intent_config_repo.py\<close>.
    \<open>Access\<close>: \<open>core/auth.py\<close>, \<open>core/security.py\<close>, \<open>repositories/user_repo.py\<close>. \<open>Monitor\<close>:
    \<open>admin/analytics.py\<close>, \<open>admin/system_health.py\<close>, \<open>core/health.py\<close>, \<open>admin/router.py\<close>, \<open>chat/push.py\<close>.
  \<^item> \<open>Startup\<close>: \<open>config.py\<close>, \<open>main.py\<close>, \<open>core/redis.py\<close>, the singleton of \<open>agent/service.py\<close> and the tasks
    of \<open>core/config_cache.py\<close>, \<open>chat/push.py\<close> and \<open>embedding/index_worker.py\<close>. \<open>Http\<close>: \<open>core/middleware.py\<close>,
    \<open>core/trace.py\<close>, \<open>core/logging.py\<close>, \<open>core/exceptions.py\<close>. \<open>Routes\<close>: \<open>create_app\<close>, the decorators of every
    \<open>router.py\<close>, \<open>core/database.py\<close>. \<open>App\<close>: a request through all of them. \<open>Metrics\<close>:
    \<open>core/metrics.py\<close>. \<open>Endpoints\<close>: the remaining endpoints of
    \<open>chat/router.py\<close> and \<open>agent/router.py\<close>, \<open>ticket/notifier.py\<close>, the answers of \<open>rag/llm_client.py\<close>.
  \<^item> \<open>Schema\<close>: tables, columns and migration operations. \<open>Migrations\<close>: \<open>src/alembic/versions/\<close> against
    \<open>models/\<close>. \<open>Columns\<close>: which rows the tables accept. \<open>Evaluation\<close>: \<open>src/eval/harness/\<close>. \<open>Seeding\<close>:
    \<open>src/scripts/\<close>.
\<close>

text \<open>
  \<^bold>\<open>What the lemmas show.\<close> Per component its invariant and that the operations keep it (open tickets,
  hand-off sessions, gaps, drafts and version numbers are unique; the depot's documents, queue and
  objects agree), the result of each operation on every branch, errors included, and what an
  operation leaves alone. Interfaces shared by several components are locales of \<open>Table\<close>:
  \<open>keyed_insert\<close>, an insert guarded by a partial unique index, interpreted on tickets, hand-offs and
  drafts; \<open>keyed_move\<close> and its extension \<open>guarded_move\<close>, an update of one row that takes effect only from
  a given state, interpreted on claiming hand-offs, reviewing drafts and claiming index jobs. The
  index refines a map from documents to chunk texts; the filter clause and the
  filter predicate, the streamed and the stored answer, the chunker and its reference agree.
  Concurrency appears as explicit steps: rival commits between two statements of a repository are
  functions, and hand-offs, the depot and the configuration cache have step relations with
  reachable states and invariants by rule induction. Across components: a turn changes only its own
  conversation, its tickets and the hand-off queue (\<open>Agent\<close>); what is stored of a message is what
  was streamed (\<open>Chat\<close>); an approved draft becomes the chunks of one active document (\<open>Drafts\<close>).
  Around the components: a started worker has one loop of each kind and a stopped one none, and a
  restart searches the index it had (\<open>Startup\<close>); requests are counted once and by endpoint (\<open>Http\<close>); no
  route hides another and each endpoint is entered only by whom its guard admits (\<open>Routes\<close>,
  \<open>Endpoints\<close>); requests without a token can at most add customers (\<open>App\<close>); every migration is
  undone by its downgrade and the head is the models' schema
  (\<open>Migrations\<close>); and what the code composes itself fits its columns (\<open>Columns\<close>).

  \<^bold>\<open>Bounds and fuel.\<close> No definition uses fuel. Recursion that is not structural ends by a measure: the
  remaining text of \<open>str_format\<close> and of the regular expressions, the work left in the index queue
  (each job is tried at most three times). The numbers are the code's: 8000 characters of answer,
  20 messages of history, 3 turns of a waiting question, 60 seconds of cache, 50 versions a page,
  4 evaluation cases in flight, 64 characters of a trace id in the audit trail.

  \<^bold>\<open>Arguments of the model.\<close> Code outside the repository is a parameter: language models, embedders,
  the vector database (its promises are \<open>chroma_ok\<close>), BM25 scores, NFKC and full Unicode
  lower-casing, hashes, signed tokens, the readers of PDF, DOCX and HTML, the clock and fresh
  identifiers. Reals stand for floats.

  \<^bold>\<open>Not modelled.\<close> Connection pools and the drivers behind them, the rendering of log lines and of the
  metrics export, latencies, CORS, the framework's documentation routes, the shapes of responses where
  nothing depends on them, Alembic's \<open>env.py\<close>, the assembly and printing of the evaluation's command line,
  the example webhook beside the documentation, and the web client, which is not Python. A commit that
  fails in the middle of a chat turn and the rounding of floats are not modelled either.
\<close>

end
